(* ===== verification/Prelude.thy ===== *)
theory Prelude
  imports Main "HOL-Library.Word" "HOL-Library.Char_ord" "HOL-Library.List_Lexorder"
    "HOL-Library.Code_Target_Nat"
begin

text \<open>
  The shared library of the development.

  \<^item> \<open>result\<close> is Rust's \<open>Result\<close>, with \<open>and_then\<close> for the \<open>?\<close> operator, and the early-return
    loops \<open>each_ok\<close> (a \<open>for\<close> loop whose body may return an error) and \<open>fold_ok\<close> (the same with
    a mutable local).
  \<^item> A Rust \<open>str\<close> is the list of its UTF-8 bytes (\<open>string\<close>, one \<open>char\<close> per byte), so
    \<open>str::len\<close> is \<open>length\<close>, \<open>str\<close> comparison is lexicographic comparison, and
    \<open>chars().count()\<close> counts the bytes that are not UTF-8 continuation bytes.
  \<^item> A \<open>BTreeMap\<close> is an association list in strictly increasing key order (\<open>bt_wf\<close>), which is
    the order its iterators follow. The locale \<open>ordered_map\<close> states what a client relies on.
  \<^item> The locale \<open>token_enum\<close> is the contract of the enums that print to and parse from a fixed
    token; the locale \<open>codec\<close> is the contract of a canonical encoder and decoder.
\<close>

named_theorems result_simps "computation rules for results"

subsection \<open>Results and early returns\<close>

datatype ('a, 'e) result = Ok 'a | Err 'e

primrec and_then :: "('a, 'e) result \<Rightarrow> ('a \<Rightarrow> ('b, 'e) result) \<Rightarrow> ('b, 'e) result" where
  "and_then (Ok x) f = f x"
| "and_then (Err e) f = Err e"

primrec map_err :: "('e \<Rightarrow> 'f) \<Rightarrow> ('a, 'e) result \<Rightarrow> ('a, 'f) result" where
  "map_err f (Ok x) = Ok x"
| "map_err f (Err e) = Err (f e)"

definition ensure :: "bool \<Rightarrow> 'e \<Rightarrow> (unit, 'e) result" where
  "ensure b e = (if b then Ok () else Err e)"

primrec ok_or :: "'e \<Rightarrow> 'a option \<Rightarrow> ('a, 'e) result" where
  "ok_or e None = Err e"
| "ok_or e (Some x) = Ok x"

primrec is_ok :: "('a, 'e) result \<Rightarrow> bool" where
  "is_ok (Ok x) = True"
| "is_ok (Err e) = False"

primrec each_ok :: "('a \<Rightarrow> (unit, 'e) result) \<Rightarrow> 'a list \<Rightarrow> (unit, 'e) result" where
  "each_ok f [] = Ok ()"
| "each_ok f (x # xs) = and_then (f x) (\<lambda>_. each_ok f xs)"

primrec fold_ok :: "('s \<Rightarrow> 'a \<Rightarrow> ('s, 'e) result) \<Rightarrow> 's \<Rightarrow> 'a list \<Rightarrow> ('s, 'e) result" where
  "fold_ok f s [] = Ok s"
| "fold_ok f s (x # xs) = and_then (f s x) (\<lambda>s'. fold_ok f s' xs)"

lemma and_then_eq_Ok [simp]: "and_then r f = Ok y \<longleftrightarrow> (\<exists>x. r = Ok x \<and> f x = Ok y)"
  by (cases r) auto

lemma and_then_assoc [result_simps]: "and_then (and_then r f) g = and_then r (\<lambda>x. and_then (f x) g)"
  by (cases r) auto

lemma and_then_Ok_right [result_simps]: "and_then r Ok = r"
  by (cases r) auto

lemma ensure_simps [result_simps]: "ensure True e = Ok ()" "ensure False e = Err e"
  by (simp_all add: ensure_def)

lemma and_then_eq_Err: "and_then r f = Err e \<longleftrightarrow> r = Err e \<or> (\<exists>x. r = Ok x \<and> f x = Err e)"
  by (cases r) auto

lemma map_err_eq_Ok [simp]: "map_err f r = Ok y \<longleftrightarrow> r = Ok y"
  by (cases r) auto

lemma ensure_eq_Ok [simp]: "ensure b e = Ok u \<longleftrightarrow> b"
  by (simp add: ensure_def)

lemma ok_or_eq_Ok [simp]: "ok_or e opt = Ok x \<longleftrightarrow> opt = Some x"
  by (cases opt) auto

lemma map_err_eq_Err: "map_err f r = Err e \<longleftrightarrow> (\<exists>e'. r = Err e' \<and> e = f e')"
  by (cases r) auto

lemma ensure_eq_Err [simp]: "ensure b e = Err e' \<longleftrightarrow> \<not> b \<and> e' = e"
  by (auto simp: ensure_def)

lemma ok_or_eq_Err [simp]: "ok_or e opt = Err e' \<longleftrightarrow> opt = None \<and> e' = e"
  by (cases opt) auto

lemma is_ok_iff: "is_ok r \<longleftrightarrow> (\<exists>x. r = Ok x)"
  by (cases r) auto

lemma each_ok_eq_Ok [simp]: "each_ok f xs = Ok u \<longleftrightarrow> (\<forall>x \<in> set xs. f x = Ok ())"
  by (induction xs) auto

lemma and_then_cong:
  "r = r' \<Longrightarrow> (\<And>x. r' = Ok x \<Longrightarrow> f x = f' x) \<Longrightarrow> and_then r f = and_then r' f'"
  by (cases r') auto

lemma each_ok_cong:
  "xs = ys \<Longrightarrow> (\<And>x. x \<in> set ys \<Longrightarrow> f x = g x) \<Longrightarrow> each_ok f xs = each_ok g ys"
  by (induction ys arbitrary: xs) auto

text \<open>\<open>all_ok\<close> is a sequence of checks, each of which may return early.\<close>

definition all_ok :: "(unit, 'e) result list \<Rightarrow> (unit, 'e) result" where
  "all_ok rs = each_ok (\<lambda>r. r) rs"

lemma all_ok_Nil [simp]: "all_ok [] = Ok ()"
  by (simp add: all_ok_def)

lemma all_ok_Cons [simp]: "all_ok (r # rs) = and_then r (\<lambda>_. all_ok rs)"
  by (simp add: all_ok_def)

lemma each_ok_append: "each_ok f (xs @ ys) = and_then (each_ok f xs) (\<lambda>_. each_ok f ys)"
proof (induction xs)
  case (Cons x xs)
  then show ?case by (cases "f x") auto
qed simp

lemma fold_ok_append: "fold_ok f s (xs @ ys) = and_then (fold_ok f s xs) (\<lambda>s'. fold_ok f s' ys)"
proof (induction xs arbitrary: s)
  case (Cons x xs)
  then show ?case by (cases "f s x") auto
qed simp

text \<open>A loop keeps an invariant that its body keeps, up to the point where it returns.\<close>

lemma fold_ok_invariant:
  assumes "fold_ok f s xs = Ok s'" and "P s"
    and step: "\<And>s x s'. P s \<Longrightarrow> x \<in> set xs \<Longrightarrow> f s x = Ok s' \<Longrightarrow> P s'"
  shows "P s'"
  using assms(1,2) step
proof (induction xs arbitrary: s)
  case Nil
  from Nil.prems(1,2) show ?case by simp
next
  case (Cons x xs)
  from Cons.prems(1) obtain t where t: "f s x = Ok t" "fold_ok f t xs = Ok s'" by auto
  have "P t" by (rule Cons.prems(3) [OF Cons.prems(2) _ t(1)]) simp
  from t(2) this show ?case
    by (rule Cons.IH) (erule Cons.prems(3), rule list.set_intros(2), assumption+)
qed

subsection \<open>Panics\<close>

text \<open>A step that may panic is a value of \<open>run\<close>, whose error is the panic.\<close>

datatype panic = IndexOutOfBounds | ArithmeticOverflow | Expected string

type_synonym 'a run = "('a, panic) result"

definition run_expect :: "string \<Rightarrow> 'a option \<Rightarrow> 'a run" where
  "run_expect msg r = ok_or (Expected msg) r"

subsection \<open>Machine integers\<close>

text \<open>
  \<open>i64\<close> arithmetic on \<open>int\<close>: \<open>idiv\<close> is Rust's \<open>/\<close>, which truncates towards zero,
  \<open>sat_i64\<close> is what the \<open>saturating_\<close> operations do at the bounds.
\<close>

definition i64_min :: int where "i64_min = - (2 ^ 63)"
definition i64_max :: int where "i64_max = 2 ^ 63 - 1"

definition in_i64 :: "int \<Rightarrow> bool" where
  "in_i64 x \<longleftrightarrow> i64_min \<le> x \<and> x \<le> i64_max"

definition sat_i64 :: "int \<Rightarrow> int" where
  "sat_i64 x = max i64_min (min i64_max x)"

definition idiv :: "int \<Rightarrow> int \<Rightarrow> int" where
  "idiv a b = (if a \<ge> 0 then a div b else - ((- a) div b))"

lemma idiv_nonneg [simp]: "0 \<le> a \<Longrightarrow> idiv a b = a div b"
  by (simp add: idiv_def)

lemma sat_i64_id: "in_i64 x \<Longrightarrow> sat_i64 x = x"
  by (simp add: sat_i64_def in_i64_def)

definition usize_max :: nat where "usize_max = 2 ^ 64 - 1"

definition checked_add_usize :: "nat \<Rightarrow> nat \<Rightarrow> nat option" where
  "checked_add_usize a b = (if a + b \<le> usize_max then Some (a + b) else None)"

definition checked_mul_usize :: "nat \<Rightarrow> nat \<Rightarrow> nat option" where
  "checked_mul_usize a b = (if a * b \<le> usize_max then Some (a * b) else None)"

definition saturating_add_usize :: "nat \<Rightarrow> nat \<Rightarrow> nat" where
  "saturating_add_usize a b = min usize_max (a + b)"

subsection \<open>Strings as UTF-8 bytes\<close>

definition is_digit :: "char \<Rightarrow> bool" where
  "is_digit c \<longleftrightarrow> CHR ''0'' \<le> c \<and> c \<le> CHR ''9''"

definition is_lower :: "char \<Rightarrow> bool" where
  "is_lower c \<longleftrightarrow> CHR ''a'' \<le> c \<and> c \<le> CHR ''z''"

definition is_upper :: "char \<Rightarrow> bool" where
  "is_upper c \<longleftrightarrow> CHR ''A'' \<le> c \<and> c \<le> CHR ''Z''"

definition is_alphanumeric :: "char \<Rightarrow> bool" where
  "is_alphanumeric c \<longleftrightarrow> is_digit c \<or> is_lower c \<or> is_upper c"

definition is_ascii :: "char \<Rightarrow> bool" where
  "is_ascii c \<longleftrightarrow> c < CHR 0x80"

definition is_continuation :: "char \<Rightarrow> bool" where
  "is_continuation c \<longleftrightarrow> CHR 0x80 \<le> c \<and> c < CHR 0xC0"

definition chars_count :: "string \<Rightarrow> nat" where
  "chars_count s = length (filter (\<lambda>c. \<not> is_continuation c) s)"

text \<open>\<open>str::from_utf8\<close>: the well-formed byte sequences of the Unicode standard.\<close>

definition byte_in :: "nat \<Rightarrow> nat \<Rightarrow> char \<Rightarrow> bool" where
  "byte_in lo hi c \<longleftrightarrow> lo \<le> of_char c \<and> of_char c \<le> hi"

fun utf8_valid :: "string \<Rightarrow> bool" where
  "utf8_valid [] = True"
| "utf8_valid (a # s) =
    (if byte_in 0x00 0x7F a then utf8_valid s
     else case s of [] \<Rightarrow> False | b # s \<Rightarrow>
       if byte_in 0xC2 0xDF a then byte_in 0x80 0xBF b \<and> utf8_valid s
       else case s of [] \<Rightarrow> False | c # s \<Rightarrow>
         if byte_in 0xE0 0xE0 a \<and> byte_in 0xA0 0xBF b \<or> byte_in 0xE1 0xEC a \<and> byte_in 0x80 0xBF b \<or>
            byte_in 0xED 0xED a \<and> byte_in 0x80 0x9F b \<or> byte_in 0xEE 0xEF a \<and> byte_in 0x80 0xBF b
         then byte_in 0x80 0xBF c \<and> utf8_valid s
         else case s of [] \<Rightarrow> False | d # s \<Rightarrow>
           (byte_in 0xF0 0xF0 a \<and> byte_in 0x90 0xBF b \<or> byte_in 0xF1 0xF3 a \<and> byte_in 0x80 0xBF b \<or>
            byte_in 0xF4 0xF4 a \<and> byte_in 0x80 0x8F b) \<and> byte_in 0x80 0xBF c \<and> byte_in 0x80 0xBF d \<and> utf8_valid s)"

lemma utf8_valid_ascii: "list_all is_ascii s \<Longrightarrow> utf8_valid s"
  by (induction s) (auto simp: is_ascii_def byte_in_def less_char_def)

text \<open>
  \<open>char::is_control\<close> holds for U+0000 to U+001F and U+007F to U+009F; the last 32 are the
  byte \<open>0xC2\<close> followed by a byte below \<open>0xA0\<close>.
\<close>

fun has_control :: "string \<Rightarrow> bool" where
  "has_control [] = False"
| "has_control [c] = (c < CHR 0x20 \<or> c = CHR 0x7F)"
| "has_control (c # d # s) =
     (c < CHR 0x20 \<or> c = CHR 0x7F \<or> (c = CHR 0xC2 \<and> d < CHR 0xA0) \<or> has_control (d # s))"

definition contains_nul :: "string \<Rightarrow> bool" where
  "contains_nul s \<longleftrightarrow> CHR 0x00 \<in> set s"

fun strip_prefix :: "string \<Rightarrow> string \<Rightarrow> string option" where
  "strip_prefix [] s = Some s"
| "strip_prefix (p # ps) [] = None"
| "strip_prefix (p # ps) (c # s) = (if p = c then strip_prefix ps s else None)"

definition strip_suffix_char :: "char \<Rightarrow> string \<Rightarrow> string option" where
  "strip_suffix_char c s = (if s \<noteq> [] \<and> last s = c then Some (butlast s) else None)"

fun split_once :: "char \<Rightarrow> string \<Rightarrow> (string \<times> string) option" where
  "split_once c [] = None"
| "split_once c (x # xs) =
     (if x = c then Some ([], xs)
      else (case split_once c xs of None \<Rightarrow> None | Some (a, b) \<Rightarrow> Some (x # a, b)))"

fun split_on :: "char \<Rightarrow> string \<Rightarrow> string list" where
  "split_on c [] = [[]]"
| "split_on c (x # xs) =
     (if x = c then [] # split_on c xs
      else (case split_on c xs of [] \<Rightarrow> [[x]] | p # ps \<Rightarrow> (x # p) # ps))"

lemma no_controlI:
  "(\<And>c. c \<in> set s \<Longrightarrow> CHR 0x20 \<le> c \<and> c \<noteq> CHR 0x7F \<and> c \<noteq> CHR 0xC2) \<Longrightarrow> has_control s = False"
  by (induction s rule: has_control.induct) (auto simp: not_less)

lemma strip_prefix_eq_Some [simp]: "strip_prefix p s = Some t \<longleftrightarrow> s = p @ t"
  by (induction p s rule: strip_prefix.induct) auto

lemma strip_suffix_char_eq_Some [simp]: "strip_suffix_char c s = Some t \<longleftrightarrow> s = t @ [c]"
  by (cases s rule: rev_cases) (auto simp: strip_suffix_char_def)

lemma split_once_append [simp]: "c \<notin> set a \<Longrightarrow> split_once c (a @ c # b) = Some (a, b)"
  by (induction a) auto

lemma split_once_SomeD: "split_once c s = Some (a, b) \<Longrightarrow> s = a @ c # b \<and> c \<notin> set a"
proof (induction s arbitrary: a)
  case (Cons x xs)
  show ?case
  proof (cases "x = c")
    case False
    with Cons.prems obtain a' where "split_once c xs = Some (a', b)" "a = x # a'"
      by (cases "split_once c xs") auto
    with Cons.IH False show ?thesis by auto
  qed (use Cons.prems in simp)
qed simp

lemma split_once_eq_Some: "split_once c s = Some (a, b) \<longleftrightarrow> s = a @ c # b \<and> c \<notin> set a"
  using split_once_SomeD split_once_append by metis

lemma split_once_eq_None: "split_once c s = None \<longleftrightarrow> c \<notin> set s"
  by (induction s) (auto split: option.splits)

lemma split_on_nonempty [simp]: "split_on c s \<noteq> []"
  by (induction s) (auto split: list.splits)

lemma split_on_free: "c \<notin> set s \<Longrightarrow> split_on c s = [s]"
  by (induction s) auto

lemma split_on_append: "c \<notin> set a \<Longrightarrow> split_on c (a @ c # b) = a # split_on c b"
  by (induction a) auto

lemma split_on_pieces: "p \<in> set (split_on c s) \<Longrightarrow> c \<notin> set p"
proof (induction s arbitrary: p)
  case (Cons x xs)
  show ?case
  proof (cases "x = c")
    case False
    obtain q qs where q: "split_on c xs = q # qs"
      by (cases "split_on c xs") auto
    with Cons False show ?thesis by auto
  qed (use Cons in auto)
qed simp

text \<open>The pieces joined by the separator give the text back.\<close>

fun join_with :: "'a \<Rightarrow> 'a list list \<Rightarrow> 'a list" where
  "join_with c [] = []"
| "join_with c [p] = p"
| "join_with c (p # q # ps) = p @ c # join_with c (q # ps)"

lemma join_split_on: "join_with c (split_on c s) = s"
proof (induction s)
  case (Cons x xs)
  obtain q qs where q: "split_on c xs = q # qs"
    by (cases "split_on c xs") auto
  with Cons show ?case by (cases qs) auto
qed simp

lemma split_join: "cs \<noteq> [] \<Longrightarrow> (\<forall>c \<in> set cs. x \<notin> set c) \<Longrightarrow> split_on x (join_with x cs) = cs"
  by (induction x cs rule: join_with.induct) (auto simp: split_on_free split_on_append)

lemma piece_subset: "c \<in> set (split_on x s) \<Longrightarrow> set c \<subseteq> set s"
proof -
  have "set c \<subseteq> set (join_with x cs)" if "c \<in> set cs" for cs
    using that by (induction x cs rule: join_with.induct) auto
  then show "c \<in> set (split_on x s) \<Longrightarrow> set c \<subseteq> set s" using join_split_on [of x s] by metis
qed

subsection \<open>Decimal numerals\<close>

text \<open>\<open>show_nat\<close> is \<open>Display\<close> of an unsigned integer; \<open>parse_nat\<close> reads a non-empty run of digits.\<close>

definition digit_char :: "nat \<Rightarrow> char" where
  "digit_char n = char_of (48 + n)"

definition digit_val :: "char \<Rightarrow> nat" where
  "digit_val c = of_char c - 48"

fun show_nat :: "nat \<Rightarrow> string" where
  "show_nat n = (if n < 10 then [digit_char n] else show_nat (n div 10) @ [digit_char (n mod 10)])"

declare show_nat.simps [simp del]

definition digits_value :: "string \<Rightarrow> nat" where
  "digits_value s = foldl (\<lambda>n c. 10 * n + digit_val c) 0 s"

definition parse_nat :: "string \<Rightarrow> nat option" where
  "parse_nat s = (if s \<noteq> [] \<and> list_all is_digit s then Some (digits_value s) else None)"

definition show_int :: "int \<Rightarrow> string" where
  "show_int i = (if i < 0 then CHR ''-'' # show_nat (nat (- i)) else show_nat (nat i))"

lemma of_char_digit [simp]: "n < 10 \<Longrightarrow> of_char (digit_char n) = 48 + n"
  by (simp add: digit_char_def)

lemma digit_val_char [simp]: "n < 10 \<Longrightarrow> digit_val (digit_char n) = n"
  by (simp add: digit_val_def)

lemma is_digit_iff: "is_digit c \<longleftrightarrow> 48 \<le> (of_char c :: nat) \<and> (of_char c :: nat) \<le> 57"
  by (simp add: is_digit_def less_eq_char_def)

lemma is_digit_char [simp]: "n < 10 \<Longrightarrow> is_digit (digit_char n)"
  by (simp add: is_digit_iff)

lemma digit_val_less [simp]: "is_digit c \<Longrightarrow> digit_val c < 10"
  unfolding is_digit_iff digit_val_def by linarith

lemma digit_char_0: "digit_char 0 = CHR ''0''"
  by code_simp

lemma digit_char_val [simp]: "is_digit c \<Longrightarrow> digit_char (digit_val c) = c"
  by (simp add: is_digit_iff digit_val_def digit_char_def)

lemma digits_value_snoc [simp]: "digits_value (s @ [c]) = 10 * digits_value s + digit_val c"
  by (simp add: digits_value_def)

lemma digits_value_Nil [simp]: "digits_value [] = 0"
  by (simp add: digits_value_def)

lemma digits_value_single [simp]: "digits_value [c] = digit_val c"
  by (simp add: digits_value_def)

lemma digits_value_less: "list_all is_digit s \<Longrightarrow> digits_value s < 10 ^ length s"
proof (induction s rule: rev_induct)
  case (snoc c s)
  then have "digits_value s < 10 ^ length s" "digit_val c < 10" by simp_all
  then show ?case by simp
qed simp

lemma show_nat_digits: "list_all is_digit (show_nat n)"
  by (induction n rule: show_nat.induct) (subst show_nat.simps, simp)

lemma show_nat_not_Nil [simp]: "show_nat n \<noteq> []"
  by (subst show_nat.simps) simp

lemma digits_value_show [simp]: "digits_value (show_nat n) = n"
  by (induction n rule: show_nat.induct) (subst show_nat.simps, simp)

lemma parse_show_nat [simp]: "parse_nat (show_nat n) = Some n"
  by (simp add: parse_nat_def show_nat_digits)

lemma show_nat_inject [simp]: "show_nat m = show_nat n \<longleftrightarrow> m = n"
  using digits_value_show by metis

text \<open>Digit strings of one length are determined by their value, so zero-padding is canonical.\<close>

lemma digits_value_inject:
  "length s = length t \<Longrightarrow> list_all is_digit s \<Longrightarrow> list_all is_digit t \<Longrightarrow>
   digits_value s = digits_value t \<Longrightarrow> s = t"
proof (induction s arbitrary: t rule: rev_induct)
  case (snoc c s)
  obtain t' d where t: "t = t' @ [d]" using snoc.prems(1) by (cases t rule: rev_cases) auto
  with snoc.prems have eq: "10 * digits_value s + digit_val c = 10 * digits_value t' + digit_val d"
    and c: "is_digit c" "is_digit d" by simp_all
  from c have "digit_val c < 10" "digit_val d < 10" by simp_all
  with arg_cong [OF eq, of "\<lambda>n. n mod 10"] have d: "digit_val c = digit_val d" by simp
  with eq have "s = t'" using snoc.prems t by (intro snoc.IH) simp_all
  moreover have "c = d" using arg_cong [OF d, of digit_char] c by simp
  ultimately show ?case using t by simp
qed simp

definition pad_zero :: "nat \<Rightarrow> nat \<Rightarrow> string" where
  "pad_zero w n = replicate (w - length (show_nat n)) CHR ''0'' @ show_nat n"

lemma digits_value_zeros [simp]: "digits_value (replicate k CHR ''0'' @ s) = digits_value s"
  by (induction k) (simp_all add: digits_value_def digit_val_def)

lemma pad_zero_digits [simp]: "list_all is_digit (pad_zero w n)"
proof -
  have "is_digit CHR ''0''" by (simp add: is_digit_iff)
  then show ?thesis by (simp add: pad_zero_def show_nat_digits list_all_iff [of _ "replicate _ _"])
qed

lemma digits_value_pad [simp]: "digits_value (pad_zero w n) = n"
  by (simp add: pad_zero_def)

lemma length_show_nat: "n < 10 ^ w \<Longrightarrow> 0 < w \<Longrightarrow> length (show_nat n) \<le> w"
proof (induction n arbitrary: w rule: show_nat.induct)
  case (1 n)
  show ?case
  proof (cases "n < 10")
    case False
    with 1(2,3) obtain v where w: "w = Suc v" "0 < v" by (cases w; cases "w - 1") auto
    with 1(2) have "n div 10 < 10 ^ v" by (simp add: less_mult_imp_div_less mult.commute)
    from 1(1) [OF False this w(2)] show ?thesis using w False by (subst show_nat.simps) simp
  qed (use 1 in \<open>simp add: show_nat.simps\<close>)
qed

lemma length_pad_zero [simp]: "n < 10 ^ w \<Longrightarrow> 0 < w \<Longrightarrow> length (pad_zero w n) = w"
  using length_show_nat by (fastforce simp: pad_zero_def)

lemma pad_zero_value: "list_all is_digit s \<Longrightarrow> s \<noteq> [] \<Longrightarrow> pad_zero (length s) (digits_value s) = s"
  by (rule digits_value_inject) (auto simp: digits_value_less)

text \<open>A digit string without a leading zero is the numeral of its value.\<close>

lemma show_digits_value:
  "list_all is_digit s \<Longrightarrow> s \<noteq> [] \<Longrightarrow> hd s \<noteq> CHR ''0'' \<or> length s = 1 \<Longrightarrow> show_nat (digits_value s) = s"
proof (induction s rule: rev_induct)
  case (snoc c s)
  show ?case
  proof (cases "s = []")
    case True
    with snoc.prems show ?thesis by (subst show_nat.simps) simp
  next
    case False
    with snoc.prems have s: "hd s \<noteq> CHR ''0''" "list_all is_digit s" "is_digit c" by simp_all
    with snoc.IH False have IH: "show_nat (digits_value s) = s" by simp
    have "digits_value s \<noteq> 0"
    proof
      assume "digits_value s = 0"
      with IH have "s = [digit_char 0]" by (simp add: show_nat.simps)
      with s(1) show False by (simp add: digit_char_0)
    qed
    with s IH show ?thesis by (subst show_nat.simps) simp
  qed
qed simp

subsection \<open>Ordered maps\<close>

type_synonym ('k, 'v) btree = "('k \<times> 'v) list"

definition bt_wf :: "('k::linorder, 'v) btree \<Rightarrow> bool" where
  "bt_wf m \<longleftrightarrow> sorted_wrt (<) (map fst m)"

definition bt_get :: "('k, 'v) btree \<Rightarrow> 'k \<Rightarrow> 'v option" where
  "bt_get m k = map_of m k"

fun bt_insert :: "'k::linorder \<Rightarrow> 'v \<Rightarrow> ('k, 'v) btree \<Rightarrow> ('k, 'v) btree" where
  "bt_insert k v [] = [(k, v)]"
| "bt_insert k v ((k', v') # m) =
     (if k < k' then (k, v) # (k', v') # m
      else if k = k' then (k, v) # m
      else (k', v') # bt_insert k v m)"

definition bt_remove :: "'k \<Rightarrow> ('k, 'v) btree \<Rightarrow> ('k, 'v) btree" where
  "bt_remove k m = filter (\<lambda>e. fst e \<noteq> k) m"

text \<open>
  What a client of a map relies on. Besides the lookup laws, two well-formed maps with the same
  entries are equal: iteration cannot depend on the order of the insertions.
\<close>

locale ordered_map =
  fixes wf :: "'m \<Rightarrow> bool" and empty :: 'm and get :: "'m \<Rightarrow> 'k \<Rightarrow> 'v option"
    and insert :: "'k \<Rightarrow> 'v \<Rightarrow> 'm \<Rightarrow> 'm" and remove :: "'k \<Rightarrow> 'm \<Rightarrow> 'm"
  assumes wf_empty: "wf empty" and get_empty: "get empty = Map.empty"
    and wf_insert: "wf m \<Longrightarrow> wf (insert k v m)"
    and get_insert: "wf m \<Longrightarrow> get (insert k v m) = (get m)(k \<mapsto> v)"
    and wf_remove: "wf m \<Longrightarrow> wf (remove k m)"
    and get_remove: "wf m \<Longrightarrow> get (remove k m) = (get m)(k := None)"
    and map_eqI: "wf m \<Longrightarrow> wf m' \<Longrightarrow> get m = get m' \<Longrightarrow> m = m'"
begin

lemma insert_commute:
  "wf m \<Longrightarrow> k \<noteq> k' \<Longrightarrow> insert k v (insert k' v' m) = insert k' v' (insert k v m)"
  by (rule map_eqI) (auto simp: wf_insert get_insert fun_upd_twist)

lemma insert_overwrite: "wf m \<Longrightarrow> insert k v (insert k v' m) = insert k v m"
  by (rule map_eqI) (auto simp: wf_insert get_insert)

lemma remove_insert_fresh: "wf m \<Longrightarrow> get m k = None \<Longrightarrow> remove k (insert k v m) = m"
  by (rule map_eqI) (auto simp: wf_insert get_insert wf_remove get_remove)

lemma wf_build: "wf m \<Longrightarrow> wf (foldl (\<lambda>m e. insert (fst e) (snd e) m) m es)"
  by (induction es arbitrary: m) (auto simp: wf_insert)

lemma get_build:
  "wf m \<Longrightarrow> get (foldl (\<lambda>m e. insert (fst e) (snd e) m) m es) = get m ++ map_of (rev es)"
proof (induction es arbitrary: m)
  case (Cons e es)
  then show ?case by (cases e) (simp add: wf_insert get_insert map_add_upd_left map_add_def fun_eq_iff split: option.splits)
qed simp

lemma build_cong:
  assumes "map_of (rev es) = map_of (rev es')"
  shows "foldl (\<lambda>m e. insert (fst e) (snd e) m) empty es = foldl (\<lambda>m e. insert (fst e) (snd e) m) empty es'"
  by (rule map_eqI) (simp_all add: wf_build wf_empty get_build get_empty assms)

end

lemma bt_wf_Nil [simp]: "bt_wf []"
  by (simp add: bt_wf_def)

lemma bt_wf_Cons: "bt_wf (e # m) \<longleftrightarrow> (\<forall>k \<in> fst ` set m. fst e < k) \<and> bt_wf m"
  by (auto simp: bt_wf_def)

lemma bt_wf_distinct: "bt_wf m \<Longrightarrow> distinct (map fst m)"
  by (simp add: bt_wf_def strict_sorted_iff)

lemma bt_keys_insert [simp]: "fst ` set (bt_insert k v m) = insert k (fst ` set m)"
  by (induction k v m rule: bt_insert.induct) auto

lemma bt_wf_insert [simp, intro]: "bt_wf m \<Longrightarrow> bt_wf (bt_insert k v m)"
  by (induction k v m rule: bt_insert.induct) (auto simp: bt_wf_Cons)

lemma bt_get_insert [simp]: "bt_get (bt_insert k v m) = (bt_get m)(k \<mapsto> v)"
  by (induction k v m rule: bt_insert.induct) (auto simp: bt_get_def fun_eq_iff)

lemma bt_wf_remove [simp, intro]: "bt_wf m \<Longrightarrow> bt_wf (bt_remove k m)"
  by (induction m) (auto simp: bt_wf_Cons bt_remove_def)

lemma bt_get_remove [simp]: "bt_get (bt_remove k m) = (bt_get m)(k := None)"
  by (induction m) (auto simp: bt_get_def bt_remove_def fun_eq_iff)

lemma bt_get_Nil [simp]: "bt_get [] k = None"
  by (simp add: bt_get_def)

lemma bt_get_mem: "bt_wf m \<Longrightarrow> bt_get m k = Some v \<longleftrightarrow> (k, v) \<in> set m"
  by (simp add: bt_get_def bt_wf_distinct)

lemma bt_get_None: "bt_get m k = None \<longleftrightarrow> k \<notin> fst ` set m"
  by (simp add: bt_get_def map_of_eq_None_iff)

lemma bt_eqI:
  assumes "bt_wf m" "bt_wf m'" "bt_get m = bt_get m'"
  shows "m = m'"
proof (rule map_sorted_distinct_set_unique [where f = fst])
  have "set m = set m'" using assms bt_get_mem by (metis subrelI subset_antisym)
  then show "set m = set m'" .
  show "inj_on fst (set m \<union> set m')"
    using assms \<open>set m = set m'\<close> bt_wf_distinct distinct_map by fastforce
qed (use assms in \<open>simp_all add: bt_wf_def strict_sorted_iff\<close>)

lemma bt_wf_filter: "bt_wf m \<Longrightarrow> bt_wf (filter P m)"
  by (induction m) (auto simp: bt_wf_Cons)

lemma bt_get_filter: "bt_get (filter (\<lambda>e. P (fst e)) m) k = (if P k then bt_get m k else None)"
  by (induction m) (auto simp: bt_get_def)

interpretation bt: ordered_map bt_wf "[]" bt_get bt_insert bt_remove
  by unfold_locales (auto intro: bt_eqI)

text \<open>A \<open>BTreeSet\<close> is the ordered map to the unit value, as in the standard library.\<close>

type_synonym 'k bset = "('k, unit) btree"

definition bs_insert :: "'k::linorder \<Rightarrow> 'k bset \<Rightarrow> 'k bset" where
  "bs_insert k s = bt_insert k () s"

definition bs_contains :: "'k bset \<Rightarrow> 'k \<Rightarrow> bool" where
  "bs_contains s k \<longleftrightarrow> k \<in> fst ` set s"

definition bs_iter :: "'k bset \<Rightarrow> 'k list" where
  "bs_iter s = map fst s"

lemma bs_contains_get: "bs_contains s k \<longleftrightarrow> bt_get s k \<noteq> None"
  by (simp add: bs_contains_def bt_get_None)

lemma bs_contains_insert [simp]: "bs_contains (bs_insert k s) x \<longleftrightarrow> x = k \<or> bs_contains s x"
  by (simp add: bs_contains_get bs_insert_def)

lemma bs_contains_remove [simp]: "bs_contains (bt_remove k s) x \<longleftrightarrow> x \<noteq> k \<and> bs_contains s x"
  by (auto simp: bs_contains_get)

lemma bs_contains_Nil [simp]: "\<not> bs_contains [] x"
  by (simp add: bs_contains_def)

lemma bs_iter_set [simp]: "set (bs_iter s) = {k. bs_contains s k}"
  by (auto simp: bs_iter_def bs_contains_def)

lemma bs_wf_insert [simp]: "bt_wf s \<Longrightarrow> bt_wf (bs_insert k s)"
  by (simp add: bs_insert_def)

lemma bs_length_insert: "bt_wf s \<Longrightarrow> length (bs_insert k s) = (if bs_contains s k then length s else Suc (length s))"
  by (induction k "()" s rule: bt_insert.induct)
    (auto simp: bs_insert_def bs_contains_def bt_wf_Cons)

subsection \<open>Canonical encodings\<close>

text \<open>
  An encoder and a decoder that are inverse to each other on both sides: every value has one
  encoding, and the decoder accepts no other text for it.
\<close>

locale codec =
  fixes valid :: "'a \<Rightarrow> bool" and encode :: "'a \<Rightarrow> 's" and decode :: "'s \<Rightarrow> 'a option"
  assumes decode_encode: "valid x \<Longrightarrow> decode (encode x) = Some x"
    and encode_decode: "decode s = Some x \<Longrightarrow> valid x \<and> encode x = s"
begin

lemma decode_iff: "decode s = Some x \<longleftrightarrow> valid x \<and> s = encode x"
  using decode_encode encode_decode by blast

lemma encode_inject: "valid x \<Longrightarrow> valid y \<Longrightarrow> encode x = encode y \<longleftrightarrow> x = y"
  by (metis decode_encode option.inject)

lemma decode_inject: "decode s = Some x \<Longrightarrow> decode t = Some x \<Longrightarrow> s = t"
  using encode_decode by blast

lemma decode_None: "decode s = None \<longleftrightarrow> (\<forall>x. valid x \<longrightarrow> encode x \<noteq> s)"
  using decode_iff by (metis not_None_eq)

end

text \<open>
  The enums whose \<open>as_str\<close> gives a fixed token and whose parser compares the text with the tokens
  of all variants.
\<close>

locale token_enum =
  fixes all_variants :: "'a list" and as_str :: "'a \<Rightarrow> string" and parse :: "string \<Rightarrow> 'a option"
  assumes complete: "x \<in> set all_variants"
    and tokens_distinct: "distinct (map as_str all_variants)"
    and parse_find: "parse s = find (\<lambda>x. as_str x = s) all_variants"
begin

lemma as_str_inject: "as_str x = as_str y \<longleftrightarrow> x = y"
  using tokens_distinct complete by (auto simp: distinct_map inj_on_def)

lemma parse_sound: "parse s = Some x \<Longrightarrow> as_str x = s"
  by (auto simp: parse_find find_Some_iff)

lemma parse_as_str: "parse (as_str x) = Some x"
proof (cases "parse (as_str x)")
  case None
  with complete [of x] show ?thesis by (auto simp: parse_find find_None_iff)
next
  case (Some y)
  from parse_sound [OF Some] Some show ?thesis by (simp add: as_str_inject)
qed

end

sublocale token_enum \<subseteq> tok: codec "\<lambda>_. True" as_str parse
  by unfold_locales (auto simp: parse_as_str dest: parse_sound)

end
