(* ===== verification/Calendar.thy ===== *)
theory Calendar
  imports Prelude
begin

text \<open>
  The proleptic Gregorian calendar of \<open>proto/proto/src/metadata.rs\<close>: \<open>days_in_month\<close>,
  \<open>days_from_civil\<close> and \<open>civil_from_days\<close>. The lemmas show that the two conversions are inverse to
  each other on the valid dates and bound the day numbers of the years 0 to 9999.
\<close>

subsection \<open>Conversions\<close>

definition is_leap_year :: "nat \<Rightarrow> bool" where
  "is_leap_year year \<longleftrightarrow> year mod 4 = 0 \<and> (year mod 100 \<noteq> 0 \<or> year mod 400 = 0)"

definition days_in_month :: "nat \<Rightarrow> nat \<Rightarrow> nat" where
  "days_in_month year month =
     (if month \<in> {1, 3, 5, 7, 8, 10, 12} then 31
      else if month \<in> {4, 6, 9, 11} then 30
      else if month = 2 \<and> is_leap_year year then 29
      else if month = 2 then 28
      else 0)"

definition days_from_civil :: "int \<Rightarrow> int \<Rightarrow> int \<Rightarrow> int" where
  "days_from_civil year month day =
    (let year = year - (if month \<le> 2 then 1 else 0);
         era = year div 400;
         year_of_era = year - era * 400;
         month = month + (if month > 2 then -3 else 9);
         day_of_year = idiv (153 * month + 2) 5 + day - 1;
         day_of_era = year_of_era * 365 + idiv year_of_era 4 - idiv year_of_era 100 + day_of_year
     in era * 146097 + day_of_era - 719468)"

definition civil_from_days :: "int \<Rightarrow> int \<times> int \<times> int" where
  "civil_from_days days =
    (let z = days + 719468;
         era = z div 146097;
         day_of_era = z - era * 146097;
         year_of_era =
           idiv (day_of_era - idiv day_of_era 1460 + idiv day_of_era 36524 - idiv day_of_era 146096) 365;
         year = year_of_era + era * 400;
         day_of_year = day_of_era - (365 * year_of_era + idiv year_of_era 4 - idiv year_of_era 100);
         month_prime = idiv (5 * day_of_year + 2) 153;
         day = day_of_year - idiv (153 * month_prime + 2) 5 + 1;
         month = month_prime + (if month_prime < 10 then 3 else -9)
     in (year + (if month \<le> 2 then 1 else 0), month, day))"

subsection \<open>Calendar arithmetic\<close>

text \<open>
  The era of 400 years starts on 1 March; \<open>year_start\<close> is the first day of a year of the era and
  \<open>year_index\<close> the closed formula of the code for the year of a day of the era. The formula is
  monotone, so it is enough to evaluate it at both ends of each of the 400 years.
\<close>

definition year_start :: "int \<Rightarrow> int" where
  "year_start y = 365 * y + y div 4 - y div 100"

definition year_index :: "int \<Rightarrow> int" where
  "year_index doe = (doe - doe div 1460 + doe div 36524 - doe div 146096) div 365"

definition month_start :: "int \<Rightarrow> int" where
  "month_start m = (153 * m + 2) div 5"

definition month_index :: "int \<Rightarrow> int" where
  "month_index doy = (5 * doy + 2) div 153"

lemma minus_div_mono:
  assumes "0 < (n::int)" "a \<le> b"
  shows "a - a div n \<le> b - b div n"
proof -
  have "(b - a) * 1 \<le> (b - a) * n" using assms by (intro mult_left_mono) auto
  then have "b div n \<le> (a + (b - a) * n) div n" using assms by (intro zdiv_mono1) auto
  then show ?thesis using assms(1) by simp
qed

lemma year_index_mono:
  assumes "0 \<le> a" "a \<le> b" "b < 146096"
  shows "year_index a \<le> year_index b"
proof -
  have *: "(x + y - 0) div 365 \<le> (x' + y' - 0) div 365" if "x \<le> x'" "y \<le> y'" for x y x' y' :: int
    using that by (intro zdiv_mono1) auto
  have z: "a div 146096 = 0" "b div 146096 = 0" using assms by (auto intro: div_pos_pos_trivial)
  show ?thesis unfolding year_index_def z
    by (rule * [OF minus_div_mono [OF _ assms(2)] zdiv_mono1 [OF assms(2)]]) simp_all
qed

lemma year_index_ends:
  "list_all (\<lambda>y. year_index (year_start y) = y \<and> year_index (year_start (y + 1) - 1) = y \<and>
     0 \<le> year_start y \<and> year_start (y + 1) \<le> 146096) [0..399]"
  by code_simp

lemma year_index_eq:
  assumes "0 \<le> y" "y < 400" "year_start y \<le> doe" "doe < year_start (y + 1)"
  shows "year_index doe = y"
proof -
  have y: "year_index (year_start y) = y" "year_index (year_start (y + 1) - 1) = y"
    "0 \<le> year_start y" "year_start (y + 1) \<le> 146096"
    using year_index_ends assms(1,2) by (auto simp: list_all_iff)
  have "year_index (year_start y) \<le> year_index doe"
    using assms y by (intro year_index_mono) auto
  moreover have "year_index doe \<le> year_index (year_start (y + 1) - 1)"
    using assms y by (intro year_index_mono) auto
  ultimately show ?thesis using y by simp
qed

lemma year_of_day:
  assumes "0 \<le> doe" "doe < year_start (int n)"
  shows "\<exists>y. 0 \<le> y \<and> y < int n \<and> year_start y \<le> doe \<and> doe < year_start (y + 1)"
  using assms
proof (induction n)
  case (Suc n)
  show ?case
  proof (cases "doe < year_start (int n)")
    case True
    then obtain y where "0 \<le> y" "y < int n" "year_start y \<le> doe" "doe < year_start (y + 1)"
      using Suc by blast
    then show ?thesis by (intro exI [of _ y]) simp
  next
    case False
    with Suc.prems show ?thesis by (intro exI [of _ "int n"]) (simp add: add.commute)
  qed
qed (simp add: year_start_def)

definition leap_shifted :: "int \<Rightarrow> bool" where
  "leap_shifted y \<longleftrightarrow> (y + 1) mod 4 = 0 \<and> ((y + 1) mod 100 \<noteq> 0 \<or> (y + 1) mod 400 = 0)"

lemma div_step:
  assumes "0 \<le> (y::int)" "0 < n"
  shows "(y + 1) div int n = y div int n + (if (y + 1) mod int n = 0 then 1 else 0)"
proof -
  obtain k where y: "y = int k" using assms(1) nonneg_int_cases by blast
  have "(y + 1) div int n = int (Suc k div n)" "(y + 1) mod int n = int (Suc k mod n)" "y div int n = int (k div n)"
    by (simp_all add: y zdiv_int zmod_int add.commute)
  then show ?thesis using assms(2) by (simp add: div_Suc)
qed

lemma year_start_step:
  assumes "0 \<le> y"
  shows "year_start (y + 1) = year_start y + 365 + (if (y + 1) mod 4 = 0 then 1 else 0)
     - (if (y + 1) mod 100 = 0 then 1 else 0)"
  using div_step [OF assms, of 4] div_step [OF assms, of 100] by (simp add: year_start_def)

text \<open>Every day of the era is a day of the year the formula names, and conversely.\<close>

lemma year_index_range:
  assumes "0 \<le> doe" "doe < 146097"
  defines "y \<equiv> year_index doe"
  shows "0 \<le> y" "y < 400" "0 \<le> doe - year_start y"
    "doe - year_start y \<le> (if leap_shifted y then 365 else 364)"
proof -
  have "0 \<le> y \<and> y < 400 \<and> 0 \<le> doe - year_start y \<and> doe - year_start y \<le> (if leap_shifted y then 365 else 364)"
  proof (cases "doe = 146096")
    case True
    then show ?thesis by (simp add: y_def year_index_def year_start_def leap_shifted_def)
  next
    case False
    with assms have "doe < year_start (int 400)" by (simp add: year_start_def)
    from year_of_day [OF assms(1) this] obtain x
      where x: "0 \<le> x" "x < 400" "year_start x \<le> doe" "doe < year_start (x + 1)" by auto
    with year_index_eq have "y = x" by (simp add: y_def)
    then show ?thesis using x year_start_step [OF x(1)]
      by (auto simp: leap_shifted_def split: if_splits)
  qed
  then show "0 \<le> y" "y < 400" "0 \<le> doe - year_start y"
    "doe - year_start y \<le> (if leap_shifted y then 365 else 364)" by simp_all
qed

lemma year_index_inverse:
  assumes "0 \<le> y" "y < 400" "0 \<le> doy" "doy \<le> (if leap_shifted y then 365 else 364)"
  shows "year_index (year_start y + doy) = y" "0 \<le> year_start y + doy" "year_start y + doy < 146097"
proof -
  have ys: "0 \<le> year_start y" "year_start (y + 1) \<le> 146096"
    using year_index_ends assms(1,2) by (auto simp: list_all_iff)
  have *: "year_index (year_start y + doy) = y \<and> year_start y + doy < 146097"
  proof (cases "doy < year_start (y + 1) - year_start y")
    case True
    then show ?thesis using assms ys by (intro conjI year_index_eq) auto
  next
    case False
    then have "(y + 1) mod 400 = 0" "doy = 365"
      using assms year_start_step [OF assms(1)] by (auto simp: leap_shifted_def split: if_splits)
    moreover from this(1) assms(1,2) have "y = 399" by (cases "y = 399") (auto simp: mod_pos_pos_trivial)
    ultimately show ?thesis by (simp add: year_index_def year_start_def)
  qed
  then show "year_index (year_start y + doy) = y" "year_start y + doy < 146097" by simp_all
  show "0 \<le> year_start y + doy" using ys assms by simp
qed

lemma month_index_cases:
  "list_all (\<lambda>doy. 0 \<le> month_index doy \<and> month_index doy \<le> 11 \<and>
     month_start (month_index doy) \<le> doy \<and> doy < month_start (month_index doy + 1)) [0..365]"
  by code_simp

lemma month_index_ends:
  "list_all (\<lambda>m. 0 \<le> month_start m \<and> month_index (month_start m) = m \<and>
     month_index (month_start (m + 1) - 1) = m) [0..11]"
  by code_simp

lemma month_index_range:
  assumes "0 \<le> doy" "doy \<le> 365"
  shows "0 \<le> month_index doy" "month_index doy \<le> 11"
    "month_start (month_index doy) \<le> doy" "doy < month_start (month_index doy + 1)"
  using month_index_cases assms by (simp_all add: list_all_iff)

lemma month_index_inverse:
  assumes "0 \<le> m" "m \<le> 11" "month_start m \<le> doy" "doy < month_start (m + 1)"
  shows "month_index doy = m"
proof -
  have mono: "a \<le> b \<Longrightarrow> month_index a \<le> month_index b" for a b
    unfolding month_index_def by (intro zdiv_mono1) simp_all
  have m: "month_index (month_start m) = m" "month_index (month_start (m + 1) - 1) = m"
    using month_index_ends assms by (simp_all add: list_all_iff)
  with mono [OF assms(3)] mono [of doy "month_start (m + 1) - 1"] assms(4) show ?thesis by simp
qed

lemma civil_from_days_eq:
  fixes days :: int
  defines "era \<equiv> (days + 719468) div 146097"
  defines "doe \<equiv> (days + 719468) mod 146097"
  defines "doy \<equiv> doe - year_start (year_index doe)"
  defines "mp \<equiv> month_index doy"
  defines "m \<equiv> mp + (if mp < 10 then 3 else -9)"
  shows "civil_from_days days =
    (year_index doe + era * 400 + (if m \<le> 2 then 1 else 0), m, doy - month_start mp + 1)"
proof -
  have doe: "0 \<le> doe" "doe < 146097" by (simp_all add: doe_def)
  note y = year_index_range [OF doe]
  have doy: "0 \<le> doy" "doy \<le> 365" using y(3,4) by (auto simp: doy_def split: if_splits)
  note mp = month_index_range [OF doy, folded mp_def]
  have num: "0 \<le> doe - doe div 1460 + doe div 36524 - doe div 146096"
    using y(1) unfolding year_index_def by (simp only: pos_imp_zdiv_nonneg_iff zero_less_numeral)
  have z: "days + 719468 - era * 146097 = doe"
    unfolding era_def doe_def by (rule minus_div_mult_eq_mod)
  have i: "idiv doe 1460 = doe div 1460" "idiv doe 36524 = doe div 36524" "idiv doe 146096 = doe div 146096"
    by (rule idiv_nonneg [OF doe(1)])+
  have j: "365 * year_index doe + idiv (year_index doe) 4 - idiv (year_index doe) 100 = year_start (year_index doe)"
    by (simp only: idiv_nonneg [OF y(1)] year_start_def)
  have k: "idiv (doe - doe div 1460 + doe div 36524 - doe div 146096) 365 = year_index doe"
    by (simp only: idiv_nonneg [OF num] year_index_def)
  have l: "idiv (5 * doy + 2) 153 = mp" "idiv (153 * mp + 2) 5 = month_start mp"
    unfolding mp_def [unfolded month_index_def] month_start_def
    using doy(1) mp(1) unfolding mp_def [unfolded month_index_def] by (simp_all only: idiv_nonneg add_nonneg_nonneg mult_nonneg_nonneg zero_le_numeral)
  show ?thesis
    unfolding civil_from_days_def Let_def era_def [symmetric] z i k j doy_def [symmetric] l m_def [symmetric] ..
qed

lemma days_from_civil_eq:
  fixes year month day :: int
  defines "Y \<equiv> year - (if month \<le> 2 then 1 else 0)"
  defines "mp \<equiv> month + (if month > 2 then -3 else 9)"
  assumes "1 \<le> month"
  shows "days_from_civil year month day =
    (Y div 400) * 146097 + (year_start (Y mod 400) + (month_start mp + day - 1)) - 719468"
proof -
  have Y: "Y - Y div 400 * 400 = Y mod 400" by (simp add: minus_div_mult_eq_mod)
  have mp: "0 \<le> mp" using assms by (auto simp: mp_def)
  show ?thesis
    unfolding days_from_civil_def Let_def Y_def [symmetric] mp_def [symmetric] Y
    using mp by (simp add: year_start_def month_start_def)
qed

lemma civil_from_days_parts:
  assumes "civil_from_days days = (year, month, day)"
  obtains era doe doy mp where "days + 719468 = era * 146097 + doe" "0 \<le> doe" "doe < 146097"
    "doy = doe - year_start (year_index doe)" "0 \<le> doy" "doy \<le> 365"
    "0 \<le> mp" "mp \<le> 11" "month_start mp \<le> doy" "doy < month_start (mp + 1)"
    "month = mp + (if mp < 10 then 3 else -9)"
    "year - (if month \<le> 2 then 1 else 0) = year_index doe + era * 400" "day = doy - month_start mp + 1"
proof -
  define era where "era = (days + 719468) div 146097"
  define doe where "doe = (days + 719468) mod 146097"
  define doy where "doy = doe - year_start (year_index doe)"
  define mp where "mp = month_index doy"
  have doe: "0 \<le> doe" "doe < 146097" by (simp_all add: doe_def)
  note y = year_index_range [OF doe]
  have doy: "0 \<le> doy" "doy \<le> 365" using y(3,4) by (auto simp: doy_def split: if_splits)
  note mp = month_index_range [OF doy, folded mp_def]
  have eq: "month = mp + (if mp < 10 then 3 else -9)"
    "year - (if month \<le> 2 then 1 else 0) = year_index doe + era * 400" "day = doy - month_start mp + 1"
    using assms civil_from_days_eq [of days]
    by (auto simp: era_def doe_def doy_def mp_def)
  have "days + 719468 = era * 146097 + doe" by (simp add: era_def doe_def)
  with doe doy mp eq doy_def that show thesis by blast
qed

text \<open>The two conversions are inverse to each other.\<close>

lemma days_from_civil_from_days:
  assumes "civil_from_days days = (year, month, day)"
  shows "days_from_civil year month day = days"
  using assms
proof (rule civil_from_days_parts)
  fix era doe doy mp
  assume era: "days + 719468 = era * 146097 + doe" and doe: "0 \<le> doe" "doe < 146097"
    and doy: "doy = doe - year_start (year_index doe)" and mp: "0 \<le> mp" "mp \<le> 11"
    and eq: "month = mp + (if mp < 10 then 3 else -9)"
    "year - (if month \<le> 2 then 1 else 0) = year_index doe + era * 400" "day = doy - month_start mp + 1"
  note y = year_index_range [OF doe]
  have "1 \<le> month" "month + (if month > 2 then -3 else 9) = mp" using eq(1) mp by auto
  then have "days_from_civil year month day
    = era * 146097 + (year_start (year_index doe) + (month_start mp + day - 1)) - 719468"
    using y(1,2) by (simp add: days_from_civil_eq eq(2))
  also have "\<dots> = days" using era by (simp add: eq(3) doy)
  finally show ?thesis .
qed

definition valid_date :: "int \<Rightarrow> int \<Rightarrow> int \<Rightarrow> bool" where
  "valid_date year month day \<longleftrightarrow> 0 \<le> year \<and> 1 \<le> month \<and> month \<le> 12 \<and>
     1 \<le> day \<and> day \<le> int (days_in_month (nat year) (nat month))"

lemma is_leap_year_iff: "0 \<le> y \<Longrightarrow> is_leap_year (nat y) \<longleftrightarrow> y mod 4 = 0 \<and> (y mod 100 \<noteq> 0 \<or> y mod 400 = 0)"
proof -
  assume "0 \<le> y"
  then obtain k where y: "y = int k" using nonneg_int_cases by blast
  have "y mod 4 = int (k mod 4)" "y mod 100 = int (k mod 100)" "y mod 400 = int (k mod 400)"
    by (simp_all add: y zmod_int)
  then show ?thesis by (simp add: is_leap_year_def y)
qed

lemma leap_shifted_mod: "leap_shifted (y mod 400) \<longleftrightarrow> leap_shifted y"
proof -
  have "(y mod 400 + 1) mod n = (y + 1) mod n" if "n dvd 400" for n
    using mod_add_left_eq [of "y mod 400" n 1] mod_add_left_eq [of y n 1] mod_mod_cancel [OF that] by metis
  from this [of 4] this [of 100] have "(y mod 400 + 1) mod 4 = (y + 1) mod 4" "(y mod 400 + 1) mod 100 = (y + 1) mod 100"
    by simp_all
  then show ?thesis by (simp add: leap_shifted_def mod_add_left_eq)
qed

text \<open>The length of a month is the distance to the start of the next one.\<close>

lemma month_length:
  assumes "1 \<le> month" "month \<le> 12" "0 \<le> year"
  defines "mp \<equiv> month + (if month > 2 then -3 else 9)"
  shows "month \<noteq> 2 \<Longrightarrow> int (days_in_month (nat year) (nat month)) = month_start (mp + 1) - month_start mp"
    and "month = 2 \<Longrightarrow> int (days_in_month (nat year) (nat month)) =
      (if leap_shifted (year - 1) then 29 else 28)"
proof -
  have "list_all (\<lambda>m. m \<noteq> 2 \<longrightarrow> int (days_in_month 0 (nat m)) =
      month_start (m + (if m > 2 then -3 else 9) + 1) - month_start (m + (if m > 2 then -3 else 9))) [1..12]"
    by code_simp
  with assms(1,2) have "month \<noteq> 2 \<longrightarrow> int (days_in_month 0 (nat month)) = month_start (mp + 1) - month_start mp"
    unfolding list_all_iff mp_def by (metis atLeastAtMost_iff set_upto)
  moreover have "month \<noteq> 2 \<longrightarrow> days_in_month (nat year) (nat month) = days_in_month 0 (nat month)"
    using assms(1) by (auto simp: days_in_month_def)
  ultimately show "month \<noteq> 2 \<Longrightarrow> int (days_in_month (nat year) (nat month)) = month_start (mp + 1) - month_start mp"
    by metis
  show "month = 2 \<Longrightarrow> int (days_in_month (nat year) (nat month)) = (if leap_shifted (year - 1) then 29 else 28)"
    using assms(3) by (auto simp: days_in_month_def is_leap_year_iff leap_shifted_def)
qed

lemma civil_from_days_from_civil:
  assumes "valid_date year month day"
  shows "civil_from_days (days_from_civil year month day) = (year, month, day)"
proof -
  define Y where "Y = year - (if month \<le> 2 then 1 else 0)"
  define mp where "mp = month + (if month > 2 then -3 else 9)"
  define doy where "doy = month_start mp + day - 1"
  have m: "1 \<le> month" "month \<le> 12" "0 \<le> year" "1 \<le> day"
    "day \<le> int (days_in_month (nat year) (nat month))" using assms by (auto simp: valid_date_def)
  have mp: "0 \<le> mp" "mp \<le> 11" using m by (auto simp: mp_def)
  have feb: "day \<le> (if leap_shifted Y then 29 else 28)" if "month = 2"
    using m(5) month_length(2) [OF m(1-3) that] that by (simp add: Y_def)
  have day: "day \<le> month_start (mp + 1) - month_start mp"
  proof (cases "month = 2")
    case True
    then have "month_start (mp + 1) - month_start mp = 30" by (simp add: mp_def month_start_def)
    with feb [OF True] show ?thesis by (simp split: if_splits)
  next
    case False
    from m(5) month_length(1) [OF m(1-3) False] show ?thesis unfolding mp_def by simp
  qed
  have doy: "0 \<le> doy" "doy \<le> (if leap_shifted (Y mod 400) then 365 else 364)"
    "month_start mp \<le> doy" "doy < month_start (mp + 1)"
  proof -
    show "month_start mp \<le> doy" "doy < month_start (mp + 1)" using m(4) day by (simp_all add: doy_def)
    have "0 \<le> month_start mp" using mp month_index_ends by (simp add: list_all_iff)
    then show "0 \<le> doy" using m(4) by (simp add: doy_def)
    show "doy \<le> (if leap_shifted (Y mod 400) then 365 else 364)"
    proof (cases "month = 2")
      case True
      then show ?thesis using feb by (auto simp: leap_shifted_mod doy_def mp_def month_start_def)
    next
      case False
      then have "month_start (mp + 1) \<le> month_start 11"
        using m(1,2) unfolding month_start_def by (intro zdiv_mono1) (auto simp: mp_def)
      then show ?thesis using day by (simp add: doy_def month_start_def)
    qed
  qed
  note yi = year_index_inverse [OF pos_mod_sign pos_mod_bound doy(1,2), simplified]
  note mi = month_index_inverse [OF mp doy(3,4)]
  have eq: "days_from_civil year month day + 719468 = (year_start (Y mod 400) + doy) + Y div 400 * 146097"
    using days_from_civil_eq [OF m(1)] by (simp add: Y_def mp_def doy_def)
  have *: "(days_from_civil year month day + 719468) div 146097 = Y div 400"
    "(days_from_civil year month day + 719468) mod 146097 = year_start (Y mod 400) + doy"
    unfolding eq using yi(2,3) by (simp_all only: div_mult_self1 mod_mult_self1 div_pos_pos_trivial mod_pos_pos_trivial; simp)+
  have "mp + (if mp < 10 then 3 else -9) = month" using m(1,2) by (auto simp: mp_def)
  moreover have "Y mod 400 + Y div 400 * 400 = Y" by simp
  moreover have "Y + (if month \<le> 2 then 1 else 0) = year" by (simp add: Y_def)
  moreover have "year_start (Y mod 400) + doy - year_start (Y mod 400) = doy" by simp
  ultimately show ?thesis
    by (simp only: civil_from_days_eq * yi(1) mi) (simp add: doy_def)
qed

lemma civil_from_days_valid:
  assumes "civil_from_days days = (year, month, day)" and year: "0 \<le> year"
  shows "valid_date year month day"
  using assms(1)
proof (rule civil_from_days_parts)
  fix era doe doy mp
  assume doe: "0 \<le> doe" "doe < 146097" and doy: "doy = doe - year_start (year_index doe)"
    and mp: "0 \<le> mp" "mp \<le> 11" "month_start mp \<le> doy" "doy < month_start (mp + 1)"
    and eq: "month = mp + (if mp < 10 then 3 else -9)"
    "year - (if month \<le> 2 then 1 else 0) = year_index doe + era * 400" "day = doy - month_start mp + 1"
  note y = year_index_range [OF doe]
  have m: "1 \<le> month" "month \<le> 12" "month + (if month > 2 then -3 else 9) = mp"
    using eq(1) mp(1,2) by (auto split: if_splits)
  have "day \<le> int (days_in_month (nat year) (nat month))"
  proof (cases "month = 2")
    case True
    then have "year - 1 = year_index doe + era * 400" using eq(2) by simp
    then have "leap_shifted (year - 1) = leap_shifted (year_index doe)"
      using leap_shifted_mod [of "year - 1"] y(1,2) by simp
    moreover have "month_start mp = 337" using m(3) True by (simp add: month_start_def)
    ultimately show ?thesis using month_length(2) [OF m(1,2) year True] y(4) eq(3) doy
      by (cases "leap_shifted (year_index doe)") simp_all
  next
    case False
    then show ?thesis using month_length(1) [OF m(1,2) year False] mp(4) eq(3) m(3) by simp
  qed
  then show ?thesis using m mp(3) eq(3) year by (simp add: valid_date_def)
qed

lemma year_start_before_last: "list_all (\<lambda>y. year_start y \<le> 145366) [0..398]"
  by code_simp

lemma days_from_civil_bounds:
  assumes "valid_date year month day" "year \<le> 9999"
  shows "-719528 \<le> days_from_civil year month day" "days_from_civil year month day \<le> 2932896"
proof -
  define Y where "Y = year - (if month \<le> 2 then 1 else 0)"
  define mp where "mp = month + (if month > 2 then -3 else 9)"
  have m: "1 \<le> month" "month \<le> 12" "0 \<le> year" "1 \<le> day"
    "day \<le> int (days_in_month (nat year) (nat month))" using assms(1) by (auto simp: valid_date_def)
  have "days_in_month (nat year) (nat month) \<le> 31" by (simp add: days_in_month_def)
  with m(5) have day: "day \<le> 31" by linarith
  have eq: "days_from_civil year month day =
    (Y div 400) * 146097 + (year_start (Y mod 400) + (month_start mp + day - 1)) - 719468"
    using days_from_civil_eq [OF m(1)] by (simp add: Y_def mp_def)
  have mp: "0 \<le> month_start mp" "month_start mp \<le> 337"
    using m(1,2) month_index_ends zdiv_mono1 [of "153 * mp + 2" 1685 5]
    by (auto simp: month_start_def mp_def list_all_iff)
  have ys: "0 \<le> year_start (Y mod 400)" "year_start (Y mod 400 + 1) \<le> 146096"
    using year_index_ends by (simp_all add: list_all_iff)
  show "-719528 \<le> days_from_civil year month day"
  proof (cases "0 \<le> Y")
    case True
    then have "0 \<le> Y div 400" by simp
    with eq mp ys m(4) show ?thesis by simp
  next
    case False
    then have "Y = -1" "month \<le> 2" using m(3) by (auto simp: Y_def split: if_splits)
    moreover from this have "month_start 10 \<le> month_start mp"
      unfolding month_start_def using m(1) by (intro zdiv_mono1) (auto simp: mp_def)
    ultimately show ?thesis using eq m(4) by (simp add: year_start_def month_start_def)
  qed
  show "days_from_civil year month day \<le> 2932896"
  proof (cases "Y = 9999")
    case True
    then have "2 < month" using assms(2) by (auto simp: Y_def split: if_splits)
    then have "month_start mp \<le> month_start 9" unfolding month_start_def
      using m(2) by (intro zdiv_mono1) (auto simp: mp_def)
    with True eq day show ?thesis by (simp add: year_start_def month_start_def)
  next
    case False
    then have Y: "Y < 9999" using assms(2) by (auto simp: Y_def split: if_splits)
    show ?thesis
    proof (cases "Y < 9600")
      case True
      then have "Y div 400 \<le> 23" by linarith
      moreover have "year_start (Y mod 400) \<le> 146096"
        using ys(2) year_start_step [of "Y mod 400"] by (simp split: if_splits)
      ultimately show ?thesis using eq mp day by simp
    next
      case False
      with Y have era: "Y div 400 = 24" by linarith
      with Y have "Y mod 400 \<le> 398" using minus_div_mult_eq_mod [of Y 400] by simp
      then have "year_start (Y mod 400) \<le> 145366"
        using year_start_before_last by (simp add: list_all_iff)
      with era show ?thesis using eq mp day by simp
    qed
  qed
qed

text \<open>The day numbers between the two bounds are exactly those of the years 0 to 9999.\<close>

lemma civil_from_days_year:
  assumes "civil_from_days days = (year, month, day)" and b: "-719528 \<le> days" "days \<le> 2932896"
  shows "0 \<le> year" "year \<le> 9999"
proof -
  from assms(1) obtain era doe doy mp where p: "days + 719468 = era * 146097 + doe" "0 \<le> doe" "doe < 146097"
    "doy = doe - year_start (year_index doe)" "0 \<le> doy" "doy \<le> 365"
    "0 \<le> mp" "mp \<le> 11" "month_start mp \<le> doy" "doy < month_start (mp + 1)"
    "month = mp + (if mp < 10 then 3 else -9)"
    "year - (if month \<le> 2 then 1 else 0) = year_index doe + era * 400"
    by (rule civil_from_days_parts)
  define yoe where "yoe = year_index doe"
  have yoe: "0 \<le> yoe" "yoe < 400" using year_index_range [OF p(2,3)] by (simp_all add: yoe_def)
  have doe: "doe = year_start yoe + doy" using p(4) by (simp add: yoe_def)
  have year: "year = yoe + era * 400 + (if mp \<ge> 10 then 1 else 0)" using p(7,8,11,12) by (auto simp: yoe_def split: if_splits)
  have era: "-1 \<le> era" "era \<le> 24" using b p(1-3) by auto
  show "0 \<le> year"
  proof (rule ccontr)
    assume "\<not> 0 \<le> year"
    with year yoe era(1) have e: "era = -1" "yoe < 399 \<or> yoe = 399 \<and> mp < 10" by (auto split: if_splits)
    have "doe < 146037"
    proof (cases "yoe = 399")
      case True
      with e(2) have "month_start (mp + 1) \<le> month_start 10" unfolding month_start_def by (intro zdiv_mono1) auto
      with True doe p(10) show ?thesis by (simp add: year_start_def month_start_def)
    next
      case False
      with yoe have "year_start yoe \<le> 145366" using year_start_before_last by (simp add: list_all_iff)
      with doe p(6) show ?thesis by simp
    qed
    with e(1) p(1) b(1) show False by simp
  qed
  show "year \<le> 9999"
  proof (rule ccontr)
    assume "\<not> year \<le> 9999"
    with year yoe era(2) have e: "era = 24" "yoe = 399" "10 \<le> mp" by (auto split: if_splits)
    from e(3) have "month_start 10 \<le> month_start mp" unfolding month_start_def by (intro zdiv_mono1) auto
    with doe p(9) e p(1) b(2) show False by (simp add: year_start_def month_start_def)
  qed
qed

end
