(* ===== verification/Metadata.thy ===== *)
theory Metadata
  imports Calendar "HOL-Library.Monad_Syntax"
begin

text \<open>
  The stream-independent parts of an event envelope, \<open>proto/proto/src/metadata.rs\<close>: the event
  type tokens, the session identifier and the RFC 3339 timestamps over the calendar arithmetic.
  Calendar values are \<open>int\<close> (\<open>i64\<close> in the code, with the saturating operations written out) or
  \<open>nat\<close> (\<open>u16\<close>).
\<close>

subsection \<open>Event types\<close>

datatype EventType =
    SessionStarted | SessionPaused | SessionResumed | SessionCompleted | SessionFailed
  | FlowStarted | FlowCompleted | FlowFailed
  | PhaseEntered | PhaseCompleted | PhaseFailed
  | MessageDelta | MessageCompleted
  | ToolStarted | ToolProgress | ToolCompleted | ToolFailed | ToolTimedOut
  | ArtifactLogged | AttentionRequested | MetricSample | Error

definition EventType_ALL :: "EventType list" where
  "EventType_ALL =
    [SessionStarted, SessionPaused, SessionResumed, SessionCompleted, SessionFailed,
     FlowStarted, FlowCompleted, FlowFailed,
     PhaseEntered, PhaseCompleted, PhaseFailed,
     MessageDelta, MessageCompleted,
     ToolStarted, ToolProgress, ToolCompleted, ToolFailed, ToolTimedOut,
     ArtifactLogged, AttentionRequested, MetricSample, Error]"

definition requires_flow_id :: "EventType \<Rightarrow> bool" where
  "requires_flow_id t \<longleftrightarrow> t \<in>
     {FlowStarted, FlowCompleted, FlowFailed, PhaseEntered, PhaseCompleted, PhaseFailed,
      MessageDelta, MessageCompleted, ToolStarted, ToolProgress, ToolCompleted, ToolFailed, ToolTimedOut}"

primrec EventType_as_str :: "EventType \<Rightarrow> string" where
  "EventType_as_str SessionStarted = ''session.started''"
| "EventType_as_str SessionPaused = ''session.paused''"
| "EventType_as_str SessionResumed = ''session.resumed''"
| "EventType_as_str SessionCompleted = ''session.completed''"
| "EventType_as_str SessionFailed = ''session.failed''"
| "EventType_as_str FlowStarted = ''flow.started''"
| "EventType_as_str FlowCompleted = ''flow.completed''"
| "EventType_as_str FlowFailed = ''flow.failed''"
| "EventType_as_str PhaseEntered = ''phase.entered''"
| "EventType_as_str PhaseCompleted = ''phase.completed''"
| "EventType_as_str PhaseFailed = ''phase.failed''"
| "EventType_as_str MessageDelta = ''message.delta''"
| "EventType_as_str MessageCompleted = ''message.completed''"
| "EventType_as_str ToolStarted = ''tool.started''"
| "EventType_as_str ToolProgress = ''tool.progress''"
| "EventType_as_str ToolCompleted = ''tool.completed''"
| "EventType_as_str ToolFailed = ''tool.failed''"
| "EventType_as_str ToolTimedOut = ''tool.timed_out''"
| "EventType_as_str ArtifactLogged = ''artifact.logged''"
| "EventType_as_str AttentionRequested = ''attention.requested''"
| "EventType_as_str MetricSample = ''metric.sample''"
| "EventType_as_str Error = ''error''"

datatype UnknownEventType = UnknownEventType string

definition EventType_try_from :: "string \<Rightarrow> (EventType, UnknownEventType) result" where
  "EventType_try_from value =
     ok_or (UnknownEventType value) (find (\<lambda>event_type. EventType_as_str event_type = value) EventType_ALL)"

definition EventType_parse :: "string \<Rightarrow> EventType option" where
  "EventType_parse value = (case EventType_try_from value of Ok t \<Rightarrow> Some t | Err _ \<Rightarrow> None)"

subsection \<open>Session identifiers\<close>

definition MAX_SESSION_ID_BYTES :: nat where "MAX_SESSION_ID_BYTES = 128"

definition is_windows_dos_device_basename :: "string \<Rightarrow> bool" where
  "is_windows_dos_device_basename value \<longleftrightarrow>
     value \<in> {''con'', ''prn'', ''aux'', ''nul''} \<or>
     (case (case strip_prefix ''com'' value of None \<Rightarrow> strip_prefix ''lpt'' value | Some s \<Rightarrow> Some s) of
        None \<Rightarrow> False
      | Some suffix \<Rightarrow>
          (case suffix of [b] \<Rightarrow> CHR ''1'' \<le> b \<and> b \<le> CHR ''9'' | _ \<Rightarrow> False))"

definition is_session_id_byte :: "char \<Rightarrow> bool" where
  "is_session_id_byte byte \<longleftrightarrow> is_lower byte \<or> is_digit byte \<or> byte = CHR ''_'' \<or> byte = CHR ''-''"

definition is_valid_session_id :: "string \<Rightarrow> bool" where
  "is_valid_session_id value \<longleftrightarrow>
     value \<noteq> [] \<and> length value \<le> MAX_SESSION_ID_BYTES \<and>
     list_all is_session_id_byte value \<and> \<not> is_windows_dos_device_basename value"

subsection \<open>Timestamps\<close>

definition parse_digits :: "string \<Rightarrow> nat \<Rightarrow> nat option" where
  "parse_digits value len =
     (if length value = len \<and> list_all is_digit value
      then do { n \<leftarrow> parse_nat value; if n \<le> 65535 then Some n else None }
      else None)"

text \<open>The two halves of the parser: the date with its range checks, and the time of day.\<close>

definition parse_date_part :: "string \<Rightarrow> (nat \<times> nat \<times> nat) option" where
  "parse_date_part date =
     (case split_on CHR ''-'' date of
        y # m # d # rest \<Rightarrow> do {
          year \<leftarrow> parse_digits y 4;
          month \<leftarrow> parse_digits m 2;
          day \<leftarrow> parse_digits d 2;
          if rest \<noteq> [] \<or> \<not> (1 \<le> month \<and> month \<le> 12) then None
          else if day = 0 \<or> day > days_in_month year month then None
          else Some (year, month, day) }
      | _ \<Rightarrow> None)"

definition parse_time_part :: "string \<Rightarrow> (nat \<times> nat \<times> nat) option" where
  "parse_time_part time =
     (case split_on CHR '':'' time of
        h # m # second_part # rest \<Rightarrow> do {
          hour \<leftarrow> parse_digits h 2;
          minute \<leftarrow> parse_digits m 2;
          if rest \<noteq> [] then None
          else
            let (second, fraction) =
              (case split_once CHR ''.'' second_part of
                 None \<Rightarrow> (second_part, None)
               | Some (second, fraction) \<Rightarrow> (second, Some fraction))
            in do {
              second \<leftarrow> parse_digits second 2;
              if (case fraction of None \<Rightarrow> False | Some value \<Rightarrow> value = [] \<or> \<not> list_all is_digit value)
              then None
              else if hour > 23 \<or> minute > 59 \<or> second > 59 then None
              else Some (hour, minute, second) } }
      | _ \<Rightarrow> None)"

definition parse_rfc3339_utc_timestamp :: "string \<Rightarrow> int option" where
  "parse_rfc3339_utc_timestamp value = do {
     value \<leftarrow> strip_suffix_char CHR ''Z'' value;
     (date, time) \<leftarrow> split_once CHR ''T'' value;
     (year, month, day) \<leftarrow> parse_date_part date;
     (hour, minute, second) \<leftarrow> parse_time_part time;
     let days = days_from_civil (int year) (int month) (int day);
     Some (sat_i64 (sat_i64 (sat_i64 (sat_i64 (days * 86400) + int hour * 3600) + int minute * 60) + int second))
   }"

text \<open>\<open>{:0w}\<close> pads to \<open>w\<close> columns, the sign of a negative number before the zeros.\<close>

definition pad_i64 :: "nat \<Rightarrow> int \<Rightarrow> string" where
  "pad_i64 w i = (if i < 0 then CHR ''-'' # pad_zero (w - 1) (nat (- i)) else pad_zero w (nat i))"

definition format_rfc3339_utc_timestamp :: "int \<Rightarrow> string option" where
  "format_rfc3339_utc_timestamp seconds =
    (let days = seconds div 86400;
         seconds_of_day = seconds mod 86400;
         (year, month, day) = civil_from_days days
     in if \<not> (0 \<le> year \<and> year \<le> 9999) then None
        else
          let hour = idiv seconds_of_day 3600;
              minute = idiv (seconds_of_day mod 3600) 60;
              second = seconds_of_day mod 60
          in Some (pad_i64 4 year @ ''-'' @ pad_i64 2 month @ ''-'' @ pad_i64 2 day @ ''T'' @
                   pad_i64 2 hour @ '':'' @ pad_i64 2 minute @ '':'' @ pad_i64 2 second @ ''Z''))"

subsection \<open>Timestamps round trip\<close>

text \<open>
  The texts the parser accepts: six digit groups of fixed width with their separators and an
  optional fraction of the second.
\<close>

definition timestamp_text :: "string \<Rightarrow> string \<Rightarrow> string \<Rightarrow> string \<Rightarrow> string \<Rightarrow> string \<Rightarrow> string \<Rightarrow> string" where
  "timestamp_text y m d h mi s fraction =
     (y @ CHR ''-'' # m @ CHR ''-'' # d) @ CHR ''T'' # (h @ CHR '':'' # mi @ CHR '':'' # s @ fraction) @ [CHR ''Z'']"

definition timestamp_seconds :: "nat \<Rightarrow> nat \<Rightarrow> nat \<Rightarrow> nat \<Rightarrow> nat \<Rightarrow> nat \<Rightarrow> int" where
  "timestamp_seconds y m d h mi s =
     days_from_civil (int y) (int m) (int d) * 86400 + int h * 3600 + int mi * 60 + int s"

definition valid_parts :: "nat \<Rightarrow> nat \<Rightarrow> nat \<Rightarrow> nat \<Rightarrow> nat \<Rightarrow> nat \<Rightarrow> bool" where
  "valid_parts y m d h mi s \<longleftrightarrow> y \<le> 9999 \<and> 1 \<le> m \<and> m \<le> 12 \<and> 1 \<le> d \<and> d \<le> days_in_month y m \<and>
     h \<le> 23 \<and> mi \<le> 59 \<and> s \<le> 59"

definition valid_fraction :: "string \<Rightarrow> bool" where
  "valid_fraction fraction \<longleftrightarrow>
     fraction = [] \<or> hd fraction = CHR ''.'' \<and> tl fraction \<noteq> [] \<and> list_all is_digit (tl fraction)"

lemma not_digit_notin: "list_all is_digit s \<Longrightarrow> \<not> is_digit c \<Longrightarrow> c \<notin> set s"
  by (auto simp: list_all_iff)

lemma separators_not_digits [simp]:
  "\<not> is_digit CHR ''-''" "\<not> is_digit CHR ''T''" "\<not> is_digit CHR '':''" "\<not> is_digit CHR ''.''"
  by (simp_all add: is_digit_iff)

lemma parse_digits_eq_Some:
  assumes "len \<le> 4" "0 < len"
  shows "parse_digits v len = Some n \<longleftrightarrow> length v = len \<and> list_all is_digit v \<and> n = digits_value v"
proof -
  have "digits_value v \<le> 65535" if "length v = len" "list_all is_digit v"
  proof -
    have "digits_value v < 10 ^ len" using digits_value_less that by blast
    also have "(10::nat) ^ len \<le> 10 ^ 4" using assms(1) by (intro power_increasing) simp_all
    finally show ?thesis by simp
  qed
  then show ?thesis using assms by (auto simp: parse_digits_def parse_nat_def)
qed

lemma timestamp_seconds_bounds:
  assumes "valid_parts y m d h mi s"
  shows "-62167219200 \<le> timestamp_seconds y m d h mi s" "timestamp_seconds y m d h mi s \<le> 253402300799"
proof -
  have "valid_date (int y) (int m) (int d)" "int y \<le> 9999" using assms by (auto simp: valid_parts_def valid_date_def)
  note days_from_civil_bounds [OF this]
  then show "-62167219200 \<le> timestamp_seconds y m d h mi s" "timestamp_seconds y m d h mi s \<le> 253402300799"
    using assms by (auto simp: timestamp_seconds_def valid_parts_def)
qed

text \<open>The saturating operations never saturate.\<close>

lemma timestamp_no_saturation:
  assumes "valid_parts y m d h mi s"
  shows "sat_i64 (sat_i64 (sat_i64 (sat_i64 (days_from_civil (int y) (int m) (int d) * 86400) + int h * 3600)
     + int mi * 60) + int s) = timestamp_seconds y m d h mi s"
proof -
  have "valid_date (int y) (int m) (int d)" "int y \<le> 9999" using assms by (auto simp: valid_parts_def valid_date_def)
  note days_from_civil_bounds [OF this]
  then show ?thesis
    using assms by (simp add: timestamp_seconds_def valid_parts_def sat_i64_id in_i64_def i64_min_def i64_max_def)
qed

lemma parse_date_part_eq_Some:
  "parse_date_part date = Some (year, month, day) \<longleftrightarrow>
   (\<exists>y m d. date = y @ CHR ''-'' # m @ CHR ''-'' # d \<and> length y = 4 \<and> length m = 2 \<and> length d = 2 \<and>
      list_all is_digit y \<and> list_all is_digit m \<and> list_all is_digit d \<and>
      year = digits_value y \<and> month = digits_value m \<and> day = digits_value d \<and>
      1 \<le> month \<and> month \<le> 12 \<and> 1 \<le> day \<and> day \<le> days_in_month year month)" (is "?l \<longleftrightarrow> ?r")
proof
  assume ?l
  then obtain y m d where s: "split_on CHR ''-'' date = [y, m, d]"
    and p: "length y = 4 \<and> length m = 2 \<and> length d = 2 \<and>
      list_all is_digit y \<and> list_all is_digit m \<and> list_all is_digit d \<and>
      year = digits_value y \<and> month = digits_value m \<and> day = digits_value d \<and>
      1 \<le> month \<and> month \<le> 12 \<and> 1 \<le> day \<and> day \<le> days_in_month year month"
    by (auto simp: parse_date_part_def bind_eq_Some_conv parse_digits_eq_Some split: list.splits if_splits)
  have "date = y @ CHR ''-'' # m @ CHR ''-'' # d"
    using join_split_on [of "CHR ''-''" date] by (simp add: s)
  with p show ?r by blast
next
  assume ?r
  then obtain y m d where r: "date = y @ CHR ''-'' # m @ CHR ''-'' # d" "length y = 4" "length m = 2" "length d = 2"
    "list_all is_digit y" "list_all is_digit m" "list_all is_digit d"
    "year = digits_value y" "month = digits_value m" "day = digits_value d"
    "1 \<le> month" "month \<le> 12" "1 \<le> day" "day \<le> days_in_month year month" by blast
  then have "split_on CHR ''-'' date = [y, m, d]"
    by (simp add: split_on_append split_on_free not_digit_notin)
  moreover have "parse_digits y 4 = Some year" "parse_digits m 2 = Some month" "parse_digits d 2 = Some day"
    using r by (simp_all add: parse_digits_eq_Some)
  ultimately show ?l using r(11-14) by (simp add: parse_date_part_def)
qed

text \<open>The seconds with their fraction, as the parser splits them.\<close>

definition split_fraction :: "string \<Rightarrow> string \<times> string option" where
  "split_fraction sp = (case split_once CHR ''.'' sp of None \<Rightarrow> (sp, None) | Some (a, b) \<Rightarrow> (a, Some b))"

lemma split_fraction_digits:
  assumes "list_all is_digit s" "valid_fraction f"
  shows "split_fraction (s @ f) = (s, if f = [] then None else Some (tl f))"
proof (cases f)
  case Nil
  have "split_once CHR ''.'' s = None" using assms(1) by (simp add: split_once_eq_None not_digit_notin)
  with Nil show ?thesis by (simp add: split_fraction_def)
next
  case (Cons c g)
  with assms have "c = CHR ''.''" by (simp add: valid_fraction_def)
  with Cons assms(1) show ?thesis by (simp add: split_fraction_def not_digit_notin)
qed

lemma split_fraction_inverse:
  assumes "split_fraction sp = (s, fr)" "case fr of None \<Rightarrow> True | Some v \<Rightarrow> v \<noteq> [] \<and> list_all is_digit v"
  obtains f where "sp = s @ f" "valid_fraction f"
proof (cases fr)
  case None
  with assms that [of "[]"] show ?thesis by (auto simp: split_fraction_def valid_fraction_def split: option.splits)
next
  case (Some v)
  with assms(1) have "split_once CHR ''.'' sp = Some (s, v)" by (auto simp: split_fraction_def split: option.splits)
  then have "sp = s @ CHR ''.'' # v" by (simp add: split_once_eq_Some)
  with assms(2) Some that [of "CHR ''.'' # v"] show ?thesis by (simp add: valid_fraction_def)
qed

lemma parse_time_part_eq_Some:
  "parse_time_part time = Some (hour, minute, second) \<longleftrightarrow>
   (\<exists>h m s f. time = h @ CHR '':'' # m @ CHR '':'' # s @ f \<and> length h = 2 \<and> length m = 2 \<and> length s = 2 \<and>
      list_all is_digit h \<and> list_all is_digit m \<and> list_all is_digit s \<and> valid_fraction f \<and>
      hour = digits_value h \<and> minute = digits_value m \<and> second = digits_value s \<and>
      hour \<le> 23 \<and> minute \<le> 59 \<and> second \<le> 59)" (is "?l \<longleftrightarrow> ?r")
proof
  assume ?l
  then obtain h m sp s fr where s: "split_on CHR '':'' time = [h, m, sp]" and sp: "split_fraction sp = (s, fr)"
    and fr: "case fr of None \<Rightarrow> True | Some v \<Rightarrow> v \<noteq> [] \<and> list_all is_digit v"
    and p: "length h = 2 \<and> length m = 2 \<and> length s = 2 \<and>
      list_all is_digit h \<and> list_all is_digit m \<and> list_all is_digit s \<and>
      hour = digits_value h \<and> minute = digits_value m \<and> second = digits_value s \<and>
      hour \<le> 23 \<and> minute \<le> 59 \<and> second \<le> 59"
    unfolding parse_time_part_def split_fraction_def [symmetric]
    by (auto simp: bind_eq_Some_conv parse_digits_eq_Some Let_def split: list.splits if_splits prod.splits option.splits)
  from sp fr obtain f where f: "sp = s @ f" "valid_fraction f" by (rule split_fraction_inverse)
  have "time = h @ CHR '':'' # m @ CHR '':'' # s @ f"
    using join_split_on [of "CHR '':''" time] by (simp add: s f)
  with p f(2) show ?r by blast
next
  assume ?r
  then obtain h m s f where r: "time = h @ CHR '':'' # m @ CHR '':'' # s @ f" "length h = 2" "length m = 2" "length s = 2"
    "list_all is_digit h" "list_all is_digit m" "list_all is_digit s" "valid_fraction f"
    "hour = digits_value h" "minute = digits_value m" "second = digits_value s"
    "hour \<le> 23" "minute \<le> 59" "second \<le> 59" by blast
  have "CHR '':'' \<notin> set f"
    using r(8) not_digit_notin [of "tl f" "CHR '':''"] by (cases f) (auto simp: valid_fraction_def)
  then have "split_on CHR '':'' time = [h, m, s @ f]"
    using r(5-7) by (simp add: r(1) split_on_append split_on_free not_digit_notin)
  moreover have "parse_digits h 2 = Some hour" "parse_digits m 2 = Some minute" "parse_digits s 2 = Some second"
    using r by (simp_all add: parse_digits_eq_Some)
  ultimately show ?l
    using r(8,12-14) split_fraction_digits [OF r(7,8)]
    unfolding parse_time_part_def split_fraction_def [symmetric]
    by simp (auto simp: valid_fraction_def)
qed

lemma parse_timestamp_eq_Some:
  "parse_rfc3339_utc_timestamp t = Some secs \<longleftrightarrow>
   (\<exists>y m d h mi s f. t = timestamp_text y m d h mi s f \<and>
      length y = 4 \<and> length m = 2 \<and> length d = 2 \<and> length h = 2 \<and> length mi = 2 \<and> length s = 2 \<and>
      list_all is_digit (y @ m @ d @ h @ mi @ s) \<and> valid_fraction f \<and>
      valid_parts (digits_value y) (digits_value m) (digits_value d) (digits_value h) (digits_value mi) (digits_value s) \<and>
      secs = timestamp_seconds (digits_value y) (digits_value m) (digits_value d) (digits_value h) (digits_value mi) (digits_value s))"
  (is "?l \<longleftrightarrow> ?r")
proof
  assume ?l
  then obtain date time year month day hour minute second where
    t: "t = (date @ CHR ''T'' # time) @ [CHR ''Z'']" and
    d: "parse_date_part date = Some (year, month, day)" and
    c: "parse_time_part time = Some (hour, minute, second)" and
    secs: "secs = sat_i64 (sat_i64 (sat_i64 (sat_i64 (days_from_civil (int year) (int month) (int day) * 86400)
      + int hour * 3600) + int minute * 60) + int second)"
    by (auto simp: parse_rfc3339_utc_timestamp_def bind_eq_Some_conv split_once_eq_Some)
  from d obtain y m ds where d': "date = y @ CHR ''-'' # m @ CHR ''-'' # ds" "length y = 4" "length m = 2" "length ds = 2"
    "list_all is_digit y" "list_all is_digit m" "list_all is_digit ds"
    "year = digits_value y" "month = digits_value m" "day = digits_value ds"
    "1 \<le> month" "month \<le> 12" "1 \<le> day" "day \<le> days_in_month year month"
    unfolding parse_date_part_eq_Some by blast
  from c obtain h mi s f where c': "time = h @ CHR '':'' # mi @ CHR '':'' # s @ f" "length h = 2" "length mi = 2" "length s = 2"
    "list_all is_digit h" "list_all is_digit mi" "list_all is_digit s" "valid_fraction f"
    "hour = digits_value h" "minute = digits_value mi" "second = digits_value s"
    "hour \<le> 23" "minute \<le> 59" "second \<le> 59"
    unfolding parse_time_part_eq_Some by blast
  have "digits_value y < 10 ^ 4" using digits_value_less [OF d'(5)] by (simp add: d'(2))
  then have v: "valid_parts year month day hour minute second"
    using d' c' by (simp add: valid_parts_def)
  with secs have "secs = timestamp_seconds year month day hour minute second"
    by (simp add: timestamp_no_saturation)
  moreover have "t = timestamp_text y m ds h mi s f" using t d'(1) c'(1) by (simp add: timestamp_text_def)
  moreover have "list_all is_digit (y @ m @ ds @ h @ mi @ s)"
    using d'(5-7) c'(5-7) by (simp only: list_all_append)
  ultimately show ?r using d'(2-4) c'(2-4,8) v unfolding d'(8-10) c'(9-11) by blast
next
  assume ?r
  then obtain y m d h mi s f where t: "t = timestamp_text y m d h mi s f" and
    r: "length y = 4" "length m = 2" "length d = 2" "length h = 2" "length mi = 2" "length s = 2"
      "list_all is_digit (y @ m @ d @ h @ mi @ s)" "valid_fraction f" and
    v: "valid_parts (digits_value y) (digits_value m) (digits_value d) (digits_value h) (digits_value mi) (digits_value s)" and
    secs: "secs = timestamp_seconds (digits_value y) (digits_value m) (digits_value d) (digits_value h) (digits_value mi) (digits_value s)"
    by blast
  have date: "parse_date_part (y @ CHR ''-'' # m @ CHR ''-'' # d) = Some (digits_value y, digits_value m, digits_value d)"
    unfolding parse_date_part_eq_Some using r v by (intro exI [of _ y] exI [of _ m] exI [of _ d]) (simp add: valid_parts_def)
  have time: "parse_time_part (h @ CHR '':'' # mi @ CHR '':'' # s @ f) = Some (digits_value h, digits_value mi, digits_value s)"
    unfolding parse_time_part_eq_Some using r v
    by (intro exI [of _ h] exI [of _ mi] exI [of _ s] exI [of _ f]) (simp add: valid_parts_def)
  have strip: "strip_suffix_char CHR ''Z'' t
      = Some ((y @ CHR ''-'' # m @ CHR ''-'' # d) @ CHR ''T'' # (h @ CHR '':'' # mi @ CHR '':'' # s @ f))"
    by (simp add: timestamp_text_def t)
  have tsplit: "split_once CHR ''T'' ((y @ CHR ''-'' # m @ CHR ''-'' # d) @ CHR ''T'' # (h @ CHR '':'' # mi @ CHR '':'' # s @ f))
      = Some (y @ CHR ''-'' # m @ CHR ''-'' # d, h @ CHR '':'' # mi @ CHR '':'' # s @ f)"
    using r(7) by (intro split_once_append) (simp add: not_digit_notin)
  show ?l
    by (simp add: parse_rfc3339_utc_timestamp_def strip tsplit date time timestamp_no_saturation [OF v] secs del: append_assoc append_Cons)
qed

lemma pad_i64_int [simp]: "pad_i64 w (int n) = pad_zero w n"
  by (simp add: pad_i64_def)

lemma time_of_day:
  assumes "h \<le> 23" "mi \<le> 59" "s \<le> 59"
  defines "sod \<equiv> int h * 3600 + int mi * 60 + int s"
  shows "0 \<le> sod" "sod < 86400" "sod div 3600 = int h" "sod mod 3600 div 60 = int mi" "sod mod 60 = int s"
proof -
  show "0 \<le> sod" "sod < 86400" using assms by auto
  have *: "sod = (int mi * 60 + int s) + int h * 3600" "sod = int s + (int h * 60 + int mi) * 60"
    by (simp_all add: sod_def)
  have lt: "int mi * 60 + int s < 3600" "int s < 60" using assms(2,3) by auto
  show "sod div 3600 = int h" unfolding *(1) using lt(1) by simp
  show "sod mod 60 = int s" unfolding *(2) using lt(2) by (simp only: mod_mult_self1) simp
  have "sod mod 3600 = int mi * 60 + int s" unfolding *(1) using lt(1) by simp
  then show "sod mod 3600 div 60 = int mi" using lt(2) by simp
qed

text \<open>What the formatter prints: the text of the calendar parts of the instant.\<close>

definition parts_text :: "nat \<Rightarrow> nat \<Rightarrow> nat \<Rightarrow> nat \<Rightarrow> nat \<Rightarrow> nat \<Rightarrow> string" where
  "parts_text y m d h mi s = timestamp_text (pad_zero 4 y) (pad_zero 2 m) (pad_zero 2 d)
     (pad_zero 2 h) (pad_zero 2 mi) (pad_zero 2 s) []"

lemma format_timestamp_seconds:
  assumes v: "valid_parts y m d h mi s"
  shows "format_rfc3339_utc_timestamp (timestamp_seconds y m d h mi s) = Some (parts_text y m d h mi s)"
proof -
  define sod where "sod = int h * 3600 + int mi * 60 + int s"
  have tod: "h \<le> 23" "mi \<le> 59" "s \<le> 59" using v by (simp_all add: valid_parts_def)
  note sod = time_of_day [OF tod, folded sod_def]
  have date: "valid_date (int y) (int m) (int d)" "y \<le> 9999" using v by (auto simp: valid_parts_def valid_date_def)
  have secs: "timestamp_seconds y m d h mi s = sod + days_from_civil (int y) (int m) (int d) * 86400"
    by (simp add: timestamp_seconds_def sod_def)
  have div: "timestamp_seconds y m d h mi s div 86400 = days_from_civil (int y) (int m) (int d)"
    and mod: "timestamp_seconds y m d h mi s mod 86400 = sod"
    unfolding secs using sod(1,2) by simp_all
  show ?thesis
    unfolding format_rfc3339_utc_timestamp_def div mod Let_def civil_from_days_from_civil [OF date(1)]
    using date(2) sod(1) by (simp add: sod(3-5) parts_text_def timestamp_text_def)
qed

lemma format_timestamp_SomeE:
  assumes "format_rfc3339_utc_timestamp secs = Some t"
  obtains y m d h mi s where "valid_parts y m d h mi s" "secs = timestamp_seconds y m d h mi s" "t = parts_text y m d h mi s"
proof -
  define sod where "sod = secs mod 86400"
  obtain year month day where civil: "civil_from_days (secs div 86400) = (year, month, day)"
    by (cases "civil_from_days (secs div 86400)")
  with assms have y: "0 \<le> year" "year \<le> 9999"
    by (auto simp: format_rfc3339_utc_timestamp_def Let_def split: if_splits)
  have date: "valid_date year month day" using civil y(1) by (rule civil_from_days_valid)
  define h where "h = sod div 3600"
  define mi where "mi = sod mod 3600 div 60"
  define s where "s = sod mod 60"
  have "0 \<le> sod" "sod < 86400" by (simp_all add: sod_def)
  then have tod: "0 \<le> h" "h \<le> 23" "0 \<le> mi" "mi \<le> 59" "0 \<le> s" "s \<le> 59"
    using pos_mod_sign [of 3600 sod] pos_mod_bound [of 3600 sod] unfolding h_def mi_def s_def by linarith+
  have sod: "sod = h * 3600 + mi * 60 + s"
  proof -
    have "sod mod 3600 mod 60 = s" unfolding s_def by (simp add: mod_mod_cancel)
    then have "sod mod 3600 = mi * 60 + s" unfolding mi_def by (metis div_mult_mod_eq)
    then show ?thesis unfolding h_def by (metis add.assoc div_mult_mod_eq)
  qed
  have v: "valid_parts (nat year) (nat month) (nat day) (nat h) (nat mi) (nat s)"
    using date y tod by (auto simp: valid_parts_def valid_date_def)
  moreover have secs: "secs = timestamp_seconds (nat year) (nat month) (nat day) (nat h) (nat mi) (nat s)"
    using days_from_civil_from_days [OF civil] date tod sod div_mult_mod_eq [of secs 86400]
    by (simp add: timestamp_seconds_def valid_date_def sod_def)
  moreover have "t = parts_text (nat year) (nat month) (nat day) (nat h) (nat mi) (nat s)"
    using format_timestamp_seconds [OF v] assms secs by simp
  ultimately show thesis by (rule that)
qed

lemma valid_parts_small:
  assumes "valid_parts y m d h mi s"
  shows "y < 10 ^ 4" "m < 10 ^ 2" "d < 10 ^ 2" "h < 10 ^ 2" "mi < 10 ^ 2" "s < 10 ^ 2"
proof -
  have "days_in_month y m \<le> 31" by (simp add: days_in_month_def)
  then show "y < 10 ^ 4" "m < 10 ^ 2" "d < 10 ^ 2" "h < 10 ^ 2" "mi < 10 ^ 2" "s < 10 ^ 2"
    using assms by (auto simp: valid_parts_def)
qed

lemma parse_parts_text:
  assumes v: "valid_parts y m d h mi s"
  shows "parse_rfc3339_utc_timestamp (parts_text y m d h mi s) = Some (timestamp_seconds y m d h mi s)"
  unfolding parse_timestamp_eq_Some parts_text_def
  using valid_parts_small [OF v, THEN length_pad_zero]
  by (intro exI conjI) (rule refl, simp_all add: valid_fraction_def v)

lemma timestamp_text_take:
  assumes "length y = 4" "length m = 2" "length d = 2" "length h = 2" "length mi = 2" "length s = 2"
  shows "take 19 (timestamp_text y m d h mi s f) @ ''Z'' = timestamp_text y m d h mi s []"
  by (simp add: timestamp_text_def assms)

lemma parts_text_values:
  assumes "length y = 4" "length m = 2" "length d = 2" "length h = 2" "length mi = 2" "length s = 2"
    and "list_all is_digit (y @ m @ d @ h @ mi @ s)"
  shows "parts_text (digits_value y) (digits_value m) (digits_value d) (digits_value h) (digits_value mi) (digits_value s)
    = timestamp_text y m d h mi s []"
proof -
  have "pad_zero (length w) (digits_value w) = w" if "w \<in> {y, m, d, h, mi, s}" for w
    using that assms by (intro pad_zero_value) auto
  then show ?thesis using assms(1-6) unfolding parts_text_def by (metis insertCI)
qed

subsection \<open>Correctness\<close>

interpretation event_type: token_enum EventType_ALL EventType_as_str EventType_parse
proof unfold_locales
  show "x \<in> set EventType_ALL" for x by (cases x) (simp_all add: EventType_ALL_def)
  show "distinct (map EventType_as_str EventType_ALL)" by (simp add: EventType_ALL_def)
  show "EventType_parse s = find (\<lambda>x. EventType_as_str x = s) EventType_ALL" for s
    by (simp add: EventType_parse_def EventType_try_from_def split: result.splits option.splits)
qed

text \<open>
  The event type tokens round trip. A text parses as an event type exactly when it is the token
  of that type, and the error carries the text.
\<close>

theorem event_type_tokens:
  "(EventType_try_from s = Ok t \<longleftrightarrow> s = EventType_as_str t) \<and>
   (EventType_try_from s = Err e \<longleftrightarrow> e = UnknownEventType s \<and> s \<notin> range EventType_as_str)"
  using event_type.tok.decode_iff [of s t] event_type.tok.decode_None [of s]
  by (cases "EventType_try_from s") (auto simp: EventType_parse_def EventType_try_from_def)

text \<open>
  C32: formatting an instant and parsing the text gives the instant back.
\<close>

theorem rfc3339_parse_format:
  assumes "format_rfc3339_utc_timestamp seconds = Some text"
  shows "parse_rfc3339_utc_timestamp text = Some seconds"
  using assms by (rule format_timestamp_SomeE) (simp add: parse_parts_text)

theorem rfc3339_parse_format_witness:
  "parse_rfc3339_utc_timestamp ''2000-02-29T23:59:58Z'' = Some 951868798"
  by (rule rfc3339_parse_format) code_simp

text \<open>
  C33: parsing a timestamp and formatting the instant gives its first 19 characters and the
  \<open>Z\<close>: the text itself, up to the fraction of the second.
\<close>

theorem rfc3339_format_parse:
  assumes "parse_rfc3339_utc_timestamp text = Some seconds"
  shows "format_rfc3339_utc_timestamp seconds = Some (take 19 text @ ''Z'')"
proof -
  from assms obtain y m d h mi s f where t: "text = timestamp_text y m d h mi s f"
    and len: "length y = 4" "length m = 2" "length d = 2" "length h = 2" "length mi = 2" "length s = 2"
    and dig: "list_all is_digit (y @ m @ d @ h @ mi @ s)"
    and v: "valid_parts (digits_value y) (digits_value m) (digits_value d) (digits_value h) (digits_value mi) (digits_value s)"
    and secs: "seconds = timestamp_seconds (digits_value y) (digits_value m) (digits_value d) (digits_value h) (digits_value mi) (digits_value s)"
    unfolding parse_timestamp_eq_Some by blast
  show ?thesis
    unfolding t secs format_timestamp_seconds [OF v] timestamp_text_take [OF len] parts_text_values [OF len dig] ..
qed

theorem rfc3339_format_parse_witness:
  "format_rfc3339_utc_timestamp 951868798 = Some ''2000-02-29T23:59:58Z''"
proof -
  have "parse_rfc3339_utc_timestamp ''2000-02-29T23:59:58.25Z'' = Some 951868798" by code_simp
  from rfc3339_format_parse [OF this] show ?thesis by simp
qed

lemma format_in_range:
  assumes "-62167219200 \<le> seconds" "seconds \<le> 253402300799"
  shows "\<exists>t. format_rfc3339_utc_timestamp seconds = Some t"
proof -
  obtain year month day where c: "civil_from_days (seconds div 86400) = (year, month, day)"
    by (cases "civil_from_days (seconds div 86400)")
  have "-719528 \<le> seconds div 86400" "seconds div 86400 \<le> 2932896" using assms by linarith+
  from civil_from_days_year [OF c this] show ?thesis
    by (simp add: format_rfc3339_utc_timestamp_def c Let_def)
qed

text \<open>
  C34: an instant has a textual form exactly when it lies between the first second of the year 0 and
  the last second of the year 9999; the parser accepts no other instant.
\<close>

theorem rfc3339_range:
  "(format_rfc3339_utc_timestamp seconds \<noteq> None \<longleftrightarrow> -62167219200 \<le> seconds \<and> seconds \<le> 253402300799) \<and>
   ((\<exists>text. parse_rfc3339_utc_timestamp text = Some seconds) \<longleftrightarrow> -62167219200 \<le> seconds \<and> seconds \<le> 253402300799)"
  (is "?f \<and> ?p")
proof
  show ?f
  proof
    assume "format_rfc3339_utc_timestamp seconds \<noteq> None"
    then obtain t where "format_rfc3339_utc_timestamp seconds = Some t" by blast
    then show "-62167219200 \<le> seconds \<and> seconds \<le> 253402300799"
      by (rule format_timestamp_SomeE) (simp add: timestamp_seconds_bounds)
  qed (use format_in_range in auto)
  show ?p
  proof
    assume "\<exists>text. parse_rfc3339_utc_timestamp text = Some seconds"
    then show "-62167219200 \<le> seconds \<and> seconds \<le> 253402300799"
      unfolding parse_timestamp_eq_Some using timestamp_seconds_bounds by blast
  next
    assume "-62167219200 \<le> seconds \<and> seconds \<le> 253402300799"
    then obtain t where "format_rfc3339_utc_timestamp seconds = Some t" using format_in_range by blast
    then show "\<exists>text. parse_rfc3339_utc_timestamp text = Some seconds"
      by (rule format_timestamp_SomeE) (use parse_parts_text in blast)
  qed
qed

lemma session_id_byte_facts:
  assumes "is_session_id_byte c"
  shows "CHR 0x20 \<le> c" "c \<noteq> CHR 0x7F" "c \<noteq> CHR 0xC2" "\<not> is_continuation c" "\<not> is_upper c"
    "c \<notin> {CHR ''/'', CHR 0x5C, CHR ''.'', CHR '':'', CHR '' ''}"
proof -
  note defs = is_session_id_byte_def is_lower_def is_digit_def is_continuation_def is_upper_def less_eq_char_def less_char_def
  show "c \<noteq> CHR 0x7F" "c \<noteq> CHR 0xC2" "c \<notin> {CHR ''/'', CHR 0x5C, CHR ''.'', CHR '':'', CHR '' ''}"
    using assms by (auto simp: defs)
  show "CHR 0x20 \<le> c" "\<not> is_continuation c" "\<not> is_upper c"
    using assms unfolding defs by (elim disjE; simp)+
qed

text \<open>
  C40: a valid session identifier is a single portable path component: it is not empty, has at most 128
  bytes, no separator, no dot, no upper-case letter and no control byte, and it is not the name of
  a Windows device.
\<close>

theorem session_id_path_safe:
  assumes "is_valid_session_id value"
  shows "value \<noteq> [] \<and> length value \<le> 128 \<and> has_control value = False \<and> chars_count value = length value \<and>
    set value \<inter> {CHR ''/'', CHR 0x5C, CHR ''.'', CHR '':'', CHR '' ''} = {} \<and> filter is_upper value = [] \<and>
    value \<notin> {''con'', ''prn'', ''aux'', ''nul''} \<and>
    (\<forall>n \<in> {1..9}. value \<noteq> ''com'' @ show_nat n \<and> value \<noteq> ''lpt'' @ show_nat n)"
proof (intro conjI)
  have v: "value \<noteq> []" "length value \<le> 128" "list_all is_session_id_byte value"
    "\<not> is_windows_dos_device_basename value"
    using assms by (simp_all add: is_valid_session_id_def MAX_SESSION_ID_BYTES_def)
  note b = session_id_byte_facts
  show "value \<noteq> []" "length value \<le> 128" using v by simp_all
  show "has_control value = False" using v(3) b(1-3) unfolding list_all_iff by (intro no_controlI) blast
  show "chars_count value = length value"
    using v(3) b(4) unfolding chars_count_def list_all_iff by (metis (mono_tags, lifting) filter_True)
  show "set value \<inter> {CHR ''/'', CHR 0x5C, CHR ''.'', CHR '':'', CHR '' ''} = {}"
    using v(3) b(6) unfolding list_all_iff by blast
  show "filter is_upper value = []" using v(3) b(5) unfolding list_all_iff filter_empty_conv by blast
  show "value \<notin> {''con'', ''prn'', ''aux'', ''nul''}" using v(4) by (simp add: is_windows_dos_device_basename_def)
  show "\<forall>n \<in> {1..9}. value \<noteq> ''com'' @ show_nat n \<and> value \<noteq> ''lpt'' @ show_nat n"
  proof (intro ballI conjI notI)
    fix n :: nat assume n: "n \<in> {1..9}"
    then have d: "show_nat n = [digit_char n]" "CHR ''1'' \<le> digit_char n" "digit_char n \<le> CHR ''9''"
      by (simp_all add: show_nat.simps less_eq_char_def)
    show False if "value = ''com'' @ show_nat n" using v(4) that d by (simp add: is_windows_dos_device_basename_def)
    show False if "value = ''lpt'' @ show_nat n" using v(4) that d by (simp add: is_windows_dos_device_basename_def)
  qed
qed

theorem session_id_path_safe_witness:
  "is_valid_session_id ''run_01-a'' \<and> has_control ''run_01-a'' = False \<and> \<not> is_valid_session_id ''com1''"
proof -
  have "is_valid_session_id ''run_01-a''" by code_simp
  with session_id_path_safe [OF this] show ?thesis by code_simp
qed

end
