(* ===== verification/Json.thy ===== *)
theory Json
  imports Prelude "HOL-Library.Multiset"
begin

text \<open>
  JSON values and canonical JSON text, \<open>proto/proto/src/canonical.rs\<close>.

  A value is \<open>serde_json::Value\<close>; its object is an ordered map, here the list of its entries in
  increasing key order (\<open>json_wf\<close>). A number is an unsigned, a negative or a binary floating point
  number (kept as its 64 bits). Code outside the repository is the record \<open>text_env\<close> the
  operations take: the Unicode normaliser, the JSON string writer and the compact value writer of
  the JSON library, the debug form of a string and the printed forms of a floating point number.
\<close>

datatype json_number = PosInt nat | NegInt int | Float "64 word"

datatype json =
    JNull
  | JBool bool
  | JNumber json_number
  | JString string
  | JArray "json list"
  | JObject "(string \<times> json) list"

record text_env =
  nfc :: "string \<Rightarrow> string"
  quote :: "string \<Rightarrow> string"
  debug_str :: "string \<Rightarrow> string"
  f64_display :: "64 word \<Rightarrow> string"
  f64_scientific :: "64 word \<Rightarrow> string"
  f64_integral :: "64 word \<Rightarrow> bool"
  compact_chunks :: "json \<Rightarrow> string list"

subsection \<open>Accessors\<close>

fun as_str :: "json \<Rightarrow> string option" where
  "as_str (JString s) = Some s"
| "as_str _ = None"

fun as_array :: "json \<Rightarrow> json list option" where
  "as_array (JArray vs) = Some vs"
| "as_array _ = None"

fun as_object :: "json \<Rightarrow> (string \<times> json) list option" where
  "as_object (JObject m) = Some m"
| "as_object _ = None"

fun as_bool :: "json \<Rightarrow> bool option" where
  "as_bool (JBool b) = Some b"
| "as_bool _ = None"

definition is_object :: "json \<Rightarrow> bool" where
  "is_object v \<longleftrightarrow> as_object v \<noteq> None"

fun number_as_u64 :: "json_number \<Rightarrow> nat option" where
  "number_as_u64 (PosInt n) = Some n"
| "number_as_u64 _ = None"

fun number_as_i64 :: "json_number \<Rightarrow> int option" where
  "number_as_i64 (PosInt n) = (if int n \<le> i64_max then Some (int n) else None)"
| "number_as_i64 (NegInt i) = Some i"
| "number_as_i64 (Float _) = None"

fun as_u64 :: "json \<Rightarrow> nat option" where
  "as_u64 (JNumber n) = number_as_u64 n"
| "as_u64 _ = None"

fun is_number :: "json \<Rightarrow> bool" where
  "is_number (JNumber _) = True"
| "is_number _ = False"

lemma as_str_eq_Some [simp]: "as_str v = Some s \<longleftrightarrow> v = JString s"
  by (cases v) auto

lemma as_array_eq_Some [simp]: "as_array v = Some s \<longleftrightarrow> v = JArray s"
  by (cases v) auto

lemma as_object_eq_Some [simp]: "as_object v = Some s \<longleftrightarrow> v = JObject s"
  by (cases v) auto

lemma is_object_iff [simp]: "is_object v \<longleftrightarrow> (\<exists>m. v = JObject m)"
  by (cases v) (auto simp: is_object_def)

lemma as_u64_eq_Some [simp]: "as_u64 v = Some n \<longleftrightarrow> v = JNumber (PosInt n)"
  by (cases v rule: as_u64.cases; cases "case v of JNumber n \<Rightarrow> n") auto

lemma json_size_array [termination_simp]: "v \<in> set vs \<Longrightarrow> size v < Suc (size_list size vs)"
  by (simp add: size_list_estimation less_Suc_eq_le size_list_estimation')

lemma json_size_field [termination_simp]:
  "(k, v) \<in> set m \<Longrightarrow> size v < Suc (size_list (size_prod f size) m)"
  by (induction m) auto

text \<open>
  The invariant of a \<open>serde_json::Value\<close>: the keys of every object are strictly increasing, a
  number is an unsigned or a negative 64-bit integer or a finite floating point number.
\<close>

definition f64_finite :: "64 word \<Rightarrow> bool" where
  "f64_finite bits \<longleftrightarrow> unat bits div 2 ^ 52 mod 2048 \<noteq> 2047"

fun number_wf :: "json_number \<Rightarrow> bool" where
  "number_wf (PosInt n) \<longleftrightarrow> n < 2 ^ 64"
| "number_wf (NegInt i) \<longleftrightarrow> i64_min \<le> i \<and> i < 0"
| "number_wf (Float b) \<longleftrightarrow> f64_finite b"

fun json_wf :: "json \<Rightarrow> bool" where
  "json_wf (JArray vs) \<longleftrightarrow> (\<forall>v \<in> set vs. json_wf v)"
| "json_wf (JObject m) \<longleftrightarrow> bt_wf m \<and> (\<forall>(k, v) \<in> set m. json_wf v)"
| "json_wf (JNumber n) \<longleftrightarrow> number_wf n"
| "json_wf _ \<longleftrightarrow> True"

subsection \<open>Nesting\<close>

definition JSON_NESTING_LIMIT_V0 :: nat where "JSON_NESTING_LIMIT_V0 = 128"

text \<open>The worklist of \<open>json_nesting_reaches_limit\<close>; the head of the list is the top of the stack.\<close>

function nesting_loop :: "(json \<times> nat) list \<Rightarrow> bool" where
  "nesting_loop [] = False"
| "nesting_loop ((value, enclosing_depth) # pending) =
    (let depth = enclosing_depth + 1 in
     case value of
       JArray values \<Rightarrow>
         if depth \<ge> JSON_NESTING_LIMIT_V0 then True
         else nesting_loop (rev (map (\<lambda>v. (v, depth)) values) @ pending)
     | JObject values \<Rightarrow>
         if depth \<ge> JSON_NESTING_LIMIT_V0 then True
         else nesting_loop (rev (map (\<lambda>e. (snd e, depth)) values) @ pending)
     | _ \<Rightarrow> nesting_loop pending)"
  by pat_completeness auto

lemma size_values: "sum_list (map (\<lambda>v. Suc (size v)) vs) = size_list size (vs :: json list)"
  by (induction vs) auto

lemma size_fields:
  "sum_list (map (\<lambda>e. Suc (size (snd e))) m) \<le> size_list (size_prod f size) (m :: ('a \<times> json) list)"
  by (induction m) auto

termination nesting_loop
  by (relation "measure (\<lambda>w. sum_list (map (\<lambda>e. Suc (size (fst e))) w))")
    (auto simp: comp_def rev_map [symmetric] size_values intro!: le_less_trans [OF size_fields [where f = "\<lambda>_. 0"]])

definition json_nesting_reaches_limit :: "json \<Rightarrow> nat \<Rightarrow> bool" where
  "json_nesting_reaches_limit value enclosing_depth = nesting_loop [(value, enclosing_depth)]"

text \<open>The reference: the number of containers on the longest path into a value.\<close>

fun container_depth :: "json \<Rightarrow> nat" where
  "container_depth (JArray vs) = Suc (Max (insert 0 (container_depth ` set vs)))"
| "container_depth (JObject m) = Suc (Max (insert 0 ((\<lambda>(k, v). container_depth v) ` set m)))"
| "container_depth _ = 0"

definition reaches :: "json \<Rightarrow> nat \<Rightarrow> bool" where
  "reaches v d \<longleftrightarrow> 0 < container_depth v \<and> JSON_NESTING_LIMIT_V0 \<le> d + container_depth v"

lemma reaches_array:
  "reaches (JArray vs) d \<longleftrightarrow> JSON_NESTING_LIMIT_V0 \<le> d + 1 \<or> (\<exists>v \<in> set vs. reaches v (d + 1))"
proof -
  have "Max (insert 0 (container_depth ` set vs)) \<ge> n \<longleftrightarrow> n = 0 \<or> (\<exists>v \<in> set vs. n \<le> container_depth v)" for n
    by (subst Max_ge_iff) auto
  from this [of "JSON_NESTING_LIMIT_V0 - (d + 1)"] show ?thesis
    by (auto simp: reaches_def le_diff_conv) fastforce+
qed

lemma reaches_object:
  "reaches (JObject m) d \<longleftrightarrow> JSON_NESTING_LIMIT_V0 \<le> d + 1 \<or> (\<exists>e \<in> set m. reaches (snd e) (d + 1))"
proof -
  have "Max (insert 0 ((\<lambda>(k, v). container_depth v) ` set m)) \<ge> n \<longleftrightarrow> n = 0 \<or> (\<exists>e \<in> set m. n \<le> container_depth (snd e))" for n
    by (subst Max_ge_iff) (auto simp: case_prod_beta)
  from this [of "JSON_NESTING_LIMIT_V0 - (d + 1)"] show ?thesis
    by (auto simp: reaches_def le_diff_conv) fastforce+
qed

lemma nesting_loop_iff: "nesting_loop w \<longleftrightarrow> (\<exists>(v, d) \<in> set w. reaches v d)"
proof (induction w rule: nesting_loop.induct)
  case (2 v d pending)
  show ?case
  proof (cases v)
    case (JArray vs)
    with 2 show ?thesis by (auto simp: reaches_array Let_def)
  next
    case (JObject m)
    with 2 show ?thesis by (auto simp: reaches_object Let_def)
  qed (use 2 in \<open>auto simp: reaches_def Let_def\<close>)
qed simp

text \<open>
  C39: the worklist search decides the nesting of the value: it answers yes exactly when a container
  of the value lies at depth 128 or deeper, counting the containers around the value.
\<close>

theorem nesting_limit_correct:
  "json_nesting_reaches_limit v d \<longleftrightarrow> 0 < container_depth v \<and> 128 \<le> d + container_depth v"
  by (simp add: json_nesting_reaches_limit_def nesting_loop_iff reaches_def JSON_NESTING_LIMIT_V0_def)

subsection \<open>Unicode normalisation\<close>

definition is_nfc :: "text_env \<Rightarrow> string \<Rightarrow> bool" where
  "is_nfc env value \<longleftrightarrow> nfc env value = value"

definition nfc_string :: "text_env \<Rightarrow> string \<Rightarrow> string" where
  "nfc_string env value = (if is_nfc env value then value else nfc env value)"

fun nfc_json_string_values :: "text_env \<Rightarrow> json \<Rightarrow> json" where
  "nfc_json_string_values env (JString s) = JString (nfc_string env s)"
| "nfc_json_string_values env (JArray vs) = JArray (map (nfc_json_string_values env) vs)"
| "nfc_json_string_values env (JObject m) = JObject (map (\<lambda>(k, v). (k, nfc_json_string_values env v)) m)"
| "nfc_json_string_values env v = v"

text \<open>What the code relies on: normalising changes neither a normal form nor an ASCII text.\<close>

definition nfc_idempotent :: "text_env \<Rightarrow> bool" where
  "nfc_idempotent env \<longleftrightarrow> (\<forall>s. nfc env (nfc env s) = nfc env s)"

definition nfc_ascii :: "text_env \<Rightarrow> bool" where
  "nfc_ascii env \<longleftrightarrow> (\<forall>s. list_all is_ascii s \<longrightarrow> nfc env s = s)"

lemma nfc_string_eq [simp]: "nfc_string env s = nfc env s"
  by (simp add: nfc_string_def is_nfc_def)

subsection \<open>Canonical text\<close>

datatype EventValidationError = EventValidationError (error_field: string) (error_requirement: string)

datatype CanonicalJsonError =
    Serialize EventValidationError
  | InvalidEvent EventValidationError
  | NonObjectPayload
  | UnsupportedProtocolVersion string
  | JsonNestingLimitExceeded
  | DuplicateNormalizedObjectKey string

definition f64_is_zero :: "64 word \<Rightarrow> bool" where
  "f64_is_zero bits \<longleftrightarrow> bits = 0 \<or> bits = 0x8000000000000000"

definition canonical_number :: "text_env \<Rightarrow> json_number \<Rightarrow> string" where
  "canonical_number env n =
    (case number_as_u64 n of
       Some i \<Rightarrow> show_nat i
     | None \<Rightarrow>
         (case number_as_i64 n of
            Some i \<Rightarrow> show_int i
          | None \<Rightarrow>
              (case n of
                 Float bits \<Rightarrow>
                   if f64_is_zero bits then ''0''
                   else
                     let decimal = f64_display env bits in
                     if f64_integral env bits then decimal
                     else
                       let scientific = f64_scientific env bits in
                       if length scientific < length decimal then scientific else decimal
               | _ \<Rightarrow> [])))"

text \<open>The first loop over an object: normalise the keys and refuse a key that appears twice.\<close>

fun normalize_entries :: "text_env \<Rightarrow> string set \<Rightarrow> (string \<times> json) list \<Rightarrow>
    ((string \<times> json) list, CanonicalJsonError) result" where
  "normalize_entries env seen_keys [] = Ok []"
| "normalize_entries env seen_keys ((key, value) # m) =
    (let normalized_key = nfc env key in
     if normalized_key \<in> seen_keys then Err (DuplicateNormalizedObjectKey normalized_key)
     else and_then (normalize_entries env (insert normalized_key seen_keys) m)
            (\<lambda>entries. Ok ((normalized_key, value) # entries)))"

lemma normalize_entries_values:
  "normalize_entries env seen m = Ok es \<Longrightarrow> map snd es = map snd m \<and> map fst es = map (nfc env \<circ> fst) m"
  by (induction env seen m arbitrary: es rule: normalize_entries.induct) (auto simp: Let_def split: if_splits)

lemma sum_list_map_perm:
  fixes f :: "'a \<Rightarrow> nat"
  assumes "mset xs = mset ys"
  shows "sum_list (map f xs) = sum_list (map f ys)"
proof -
  have "sum_list (map f zs) = sum_mset (image_mset f (mset zs))" for zs
    by (simp flip: sum_mset_sum_list)
  with assms show ?thesis by simp
qed

lemma size_entries:
  assumes "normalize_entries env seen m = Ok es"
  shows "sum_list (map (\<lambda>e. Suc (size (snd e))) (sort_key fst es)) \<le> size_list (size_prod f size) m"
proof -
  have "map snd es = map snd m" using normalize_entries_values [OF assms] by blast
  then have eq: "map (\<lambda>v. Suc (size v)) (map snd es) = map (\<lambda>v. Suc (size v)) (map snd m)" by (rule arg_cong)
  have "sum_list (map (\<lambda>e. Suc (size (snd e))) (sort_key fst es)) = sum_list (map (\<lambda>e. Suc (size (snd e))) es)"
    by (rule sum_list_map_perm) simp
  also have "map (\<lambda>e. Suc (size (snd e))) es = map (\<lambda>e. Suc (size (snd e))) m" using eq by (simp add: comp_def)
  finally show ?thesis using size_fields by simp
qed

text \<open>
  \<open>append_canonical_json\<close> with its two loops. The output string is threaded through; \<open>index\<close> counts
  the elements written.
\<close>

function append_canonical_json :: "text_env \<Rightarrow> json \<Rightarrow> string \<Rightarrow> (string, CanonicalJsonError) result"
  and append_canonical_values :: "text_env \<Rightarrow> nat \<Rightarrow> json list \<Rightarrow> string \<Rightarrow> (string, CanonicalJsonError) result"
  and append_canonical_entries :: "text_env \<Rightarrow> nat \<Rightarrow> (string \<times> json) list \<Rightarrow> string \<Rightarrow> (string, CanonicalJsonError) result"
  where
  "append_canonical_json env JNull output = Ok (output @ ''null'')"
| "append_canonical_json env (JBool b) output = Ok (output @ (if b then ''true'' else ''false''))"
| "append_canonical_json env (JNumber n) output = Ok (output @ canonical_number env n)"
| "append_canonical_json env (JString s) output = Ok (output @ quote env (nfc env s))"
| "append_canonical_json env (JArray vs) output =
     and_then (append_canonical_values env 0 vs (output @ ''['')) (\<lambda>output. Ok (output @ '']''))"
| "append_canonical_json env (JObject m) output =
     (case normalize_entries env {} m of
        Err e \<Rightarrow> Err e
      | Ok entries \<Rightarrow>
          and_then (append_canonical_entries env 0 (sort_key fst entries) (output @ ''{''))
            (\<lambda>output. Ok (output @ ''}'')))"
| "append_canonical_values env index [] output = Ok output"
| "append_canonical_values env index (v # vs) output =
     and_then (append_canonical_json env v (if index > 0 then output @ '','' else output))
       (append_canonical_values env (index + 1) vs)"
| "append_canonical_entries env index [] output = Ok output"
| "append_canonical_entries env index ((k, v) # es) output =
     and_then (append_canonical_json env v ((if index > 0 then output @ '','' else output) @ quote env k @ '':''))
       (append_canonical_entries env (index + 1) es)"
  by pat_completeness auto

termination
  by (relation "measure (\<lambda>x. case x of
        Inl (env, v, out) \<Rightarrow> Suc (2 * size v)
      | Inr (Inl (env, i, vs, out)) \<Rightarrow> 2 * sum_list (map (\<lambda>v. Suc (size v)) vs)
      | Inr (Inr (env, i, es, out)) \<Rightarrow> 2 * sum_list (map (\<lambda>e. Suc (size (snd e))) es))")
    (auto simp: size_values le_imp_less_Suc dest!: size_entries [where f = "\<lambda>_. 0"])

definition canonical_json :: "text_env \<Rightarrow> json \<Rightarrow> (string, CanonicalJsonError) result" where
  "canonical_json env value =
     (if json_nesting_reaches_limit value 0 then Err JsonNestingLimitExceeded
      else append_canonical_json env value [])"

subsection \<open>The normal form behind the text\<close>

text \<open>
  A canonical text spells a normal form: strings and keys are normalised, the entries of an object
  are in key order and a number is its canonical spelling.
\<close>

datatype cjson =
    CNull | CBool bool | CNumber string | CString string
  | CArray "cjson list" | CObject "(string \<times> cjson) list"

fun normal_form :: "text_env \<Rightarrow> json \<Rightarrow> cjson" where
  "normal_form env JNull = CNull"
| "normal_form env (JBool b) = CBool b"
| "normal_form env (JNumber n) = CNumber (canonical_number env n)"
| "normal_form env (JString s) = CString (nfc env s)"
| "normal_form env (JArray vs) = CArray (map (normal_form env) vs)"
| "normal_form env (JObject m) = CObject (sort_key fst (map (\<lambda>(k, v). (nfc env k, normal_form env v)) m))"

fun unique_keys :: "text_env \<Rightarrow> json \<Rightarrow> bool" where
  "unique_keys env (JArray vs) \<longleftrightarrow> (\<forall>v \<in> set vs. unique_keys env v)"
| "unique_keys env (JObject m) \<longleftrightarrow> distinct (map (nfc env \<circ> fst) m) \<and> (\<forall>(k, v) \<in> set m. unique_keys env v)"
| "unique_keys env _ \<longleftrightarrow> True"

fun comma_separated :: "string list \<Rightarrow> string" where
  "comma_separated [] = []"
| "comma_separated (x # xs) = x @ concat (map (\<lambda>y. CHR '','' # y) xs)"

fun render :: "text_env \<Rightarrow> cjson \<Rightarrow> string" where
  "render env CNull = ''null''"
| "render env (CBool b) = (if b then ''true'' else ''false'')"
| "render env (CNumber t) = t"
| "render env (CString s) = quote env s"
| "render env (CArray vs) = ''['' @ comma_separated (map (render env) vs) @ '']''"
| "render env (CObject m) = ''{'' @ comma_separated (map (\<lambda>(k, v). quote env k @ '':'' @ render env v) m) @ ''}''"

lemma normalize_entries_eq_Ok:
  "normalize_entries env seen m = Ok es \<longleftrightarrow>
     distinct (map (nfc env \<circ> fst) m) \<and> seen \<inter> set (map (nfc env \<circ> fst) m) = {} \<and>
     es = map (\<lambda>(k, v). (nfc env k, v)) m"
  by (induction env seen m arbitrary: es rule: normalize_entries.induct) (auto simp: Let_def)

lemma insort_key_map: "(\<And>x. f' (g x) = f x) \<Longrightarrow> insort_key f' (g x) (map g xs) = map g (insort_key f x xs)"
  by (induction xs) auto

lemma sort_key_map: "(\<And>x. f' (g x) = f x) \<Longrightarrow> sort_key f' (map g xs) = map g (sort_key f xs)"
  by (induction xs) (simp_all add: insort_key_map)

text \<open>What each loop appends, and when it succeeds.\<close>

lemma append_canonical_eq_Ok:
  "append_canonical_json env v out = Ok t \<longleftrightarrow> unique_keys env v \<and> t = out @ render env (normal_form env v)"
  "append_canonical_values env i vs out = Ok t \<longleftrightarrow> (\<forall>v \<in> set vs. unique_keys env v) \<and>
     t = out @ (let ts = map (render env \<circ> normal_form env) vs in
       if i > 0 then concat (map (\<lambda>y. CHR '','' # y) ts) else comma_separated ts)"
  "append_canonical_entries env i es out = Ok t \<longleftrightarrow> (\<forall>(k, v) \<in> set es. unique_keys env v) \<and>
     t = out @ (let ts = map (\<lambda>(k, v). quote env k @ '':'' @ render env (normal_form env v)) es in
       if i > 0 then concat (map (\<lambda>y. CHR '','' # y) ts) else comma_separated ts)"
proof (induction env v out and env i vs out and env i es out arbitrary: t and t and t
    rule: append_canonical_json_append_canonical_values_append_canonical_entries.induct)
  case (6 env m out)
  show ?case
  proof (cases "normalize_entries env {} m")
    case (Ok es)
    then have d: "distinct (map (nfc env \<circ> fst) m)" and es: "es = map (\<lambda>(k, v). (nfc env k, v)) m"
      by (auto simp: normalize_entries_eq_Ok)
    have sorted: "sort_key fst (map (\<lambda>(k, v). (nfc env k, normal_form env v)) m)
        = map (\<lambda>(k, v). (k, normal_form env v)) (sort_key fst es)"
    proof -
      have "map (\<lambda>(k, v). (nfc env k, normal_form env v)) m = map (\<lambda>(k, v). (k, normal_form env v)) es"
        by (simp add: es comp_def case_prod_beta)
      then show ?thesis
        using sort_key_map [of fst "\<lambda>(k, v). (k, normal_form env v)" fst es] by (simp add: case_prod_beta)
    qed
    show ?thesis
      using 6 [OF Ok] d by (simp add: Ok es sorted Let_def comp_def case_prod_beta) blast
  next
    case (Err e)
    then have "\<not> distinct (map (nfc env \<circ> fst) m)"
      using normalize_entries_eq_Ok [of env "{}" m] by auto
    with Err show ?thesis by simp
  qed
next
  case (8 env i v vs out)
  then show ?case by (simp add: Let_def ex_simps [symmetric] del: ex_simps)
next
  case (10 env i k v es out)
  then show ?case by (simp add: Let_def)
qed (auto simp: Let_def)

text \<open>
  C19: canonical JSON exists exactly for the values nested less than 128 deep whose keys stay
  distinct after normalisation, and it is then the text of the normal form: normalised strings,
  sorted keys, no white space.
\<close>

theorem canonical_json_correct:
  "canonical_json env v = Ok t \<longleftrightarrow>
     container_depth v < 128 \<and> unique_keys env v \<and> t = render env (normal_form env v)"
  by (auto simp: canonical_json_def json_nesting_reaches_limit_def nesting_loop_iff reaches_def
      JSON_NESTING_LIMIT_V0_def append_canonical_eq_Ok)

text \<open>Normalising the string values first does not change the canonical text.\<close>

lemma normal_form_nfc_values:
  "nfc_idempotent env \<Longrightarrow> normal_form env (nfc_json_string_values env v) = normal_form env v"
proof (induction env v rule: nfc_json_string_values.induct)
  case (3 env m)
  then have "map (\<lambda>(k, v). (nfc env k, normal_form env v)) (map (\<lambda>(k, v). (k, nfc_json_string_values env v)) m)
    = map (\<lambda>(k, v). (nfc env k, normal_form env v)) m" by auto
  then show ?case by (simp only: nfc_json_string_values.simps normal_form.simps)
qed (auto simp: nfc_idempotent_def)

lemma unique_keys_nfc_values: "unique_keys env (nfc_json_string_values env v) = unique_keys env v"
  by (induction env v rule: nfc_json_string_values.induct) (auto simp: comp_def case_prod_beta)

lemma container_depth_nfc_values: "container_depth (nfc_json_string_values env v) = container_depth v"
proof (induction env v rule: nfc_json_string_values.induct)
  case (2 env vs)
  then have "container_depth ` nfc_json_string_values env ` set vs = container_depth ` set vs"
    by (auto simp: image_comp intro!: image_cong)
  then show ?case by simp
next
  case (3 env m)
  then have "(\<lambda>e. container_depth (nfc_json_string_values env (snd e))) ` set m = (\<lambda>e. container_depth (snd e)) ` set m"
    by (intro image_cong) auto
  then show ?case by (simp add: image_comp comp_def case_prod_beta)
qed simp_all

subsection \<open>The text determines the normal form\<close>

text \<open>
  What the code relies on: a quoted string starts with a quotation mark and shows where it ends, and
  the printed form of a finite number is a non-empty word over the characters of a number.
\<close>

definition is_number_char :: "char \<Rightarrow> bool" where
  "is_number_char c \<longleftrightarrow> is_digit c \<or> c \<in> {CHR ''-'', CHR ''+'', CHR ''.'', CHR ''e''}"

definition number_text :: "string \<Rightarrow> bool" where
  "number_text t \<longleftrightarrow> t \<noteq> [] \<and> list_all is_number_char t \<and> (is_digit (hd t) \<or> hd t = CHR ''-'')"

definition json_text_laws :: "text_env \<Rightarrow> bool" where
  "json_text_laws env \<longleftrightarrow>
     (\<forall>s. quote env s \<noteq> [] \<and> hd (quote env s) = CHR 0x22) \<and>
     (\<forall>a b x y. quote env a @ x = quote env b @ y \<longrightarrow> a = b) \<and>
     (\<forall>b. f64_finite b \<longrightarrow> number_text (f64_display env b) \<and> number_text (f64_scientific env b))"

fun cjson_ok :: "cjson \<Rightarrow> bool" where
  "cjson_ok (CNumber t) \<longleftrightarrow> number_text t"
| "cjson_ok (CArray vs) \<longleftrightarrow> (\<forall>v \<in> set vs. cjson_ok v)"
| "cjson_ok (CObject m) \<longleftrightarrow> (\<forall>(k, v) \<in> set m. cjson_ok v)"
| "cjson_ok _ \<longleftrightarrow> True"

lemma number_text_show_nat: "number_text (show_nat n)"
proof -
  have d: "list_all is_digit (show_nat n)" by (rule show_nat_digits)
  then have "list_all is_number_char (show_nat n)" by (rule list.pred_mono_strong) (simp add: is_number_char_def)
  moreover have "is_digit (hd (show_nat n))" using d show_nat_not_Nil [of n] by (cases "show_nat n") auto
  ultimately show ?thesis by (simp add: number_text_def)
qed

lemma number_text_canonical:
  assumes "json_text_laws env" "number_wf n"
  shows "number_text (canonical_number env n)"
proof (cases n)
  case (NegInt i)
  with assms(2) have "show_int i = CHR ''-'' # show_nat (nat (- i))" by (simp add: show_int_def)
  with NegInt number_text_show_nat show ?thesis
    by (simp add: canonical_number_def number_text_def is_number_char_def)
next
  case (Float b)
  have "number_text ''0''" using number_text_show_nat [of 0] by (simp add: show_nat.simps digit_char_0)
  with assms Float show ?thesis by (auto simp: canonical_number_def json_text_laws_def Let_def)
qed (simp add: canonical_number_def number_text_show_nat)

lemma cjson_ok_normal_form: "json_text_laws env \<Longrightarrow> json_wf v \<Longrightarrow> cjson_ok (normal_form env v)"
  by (induction env v rule: normal_form.induct) (auto simp: number_text_canonical)

text \<open>What may follow a value inside a text.\<close>

definition value_end :: "string \<Rightarrow> bool" where
  "value_end s \<longleftrightarrow> s = [] \<or> hd s \<in> {CHR '','', CHR '']'', CHR ''}''}"

lemma number_chars_facts:
  "\<not> is_number_char CHR '',''" "\<not> is_number_char CHR '']''" "\<not> is_number_char CHR ''}''"
  by (simp_all add: is_number_char_def is_digit_iff)

lemma number_text_prefix:
  assumes "number_text a" "number_text b" "a @ s = b @ t" "value_end s" "value_end t"
  shows "a = b \<and> s = t"
proof -
  have take: "takeWhile is_number_char (a @ s) = a" if "number_text a" "value_end s" for a s
  proof -
    have "takeWhile is_number_char s = []" using that(2) number_chars_facts by (cases s) (auto simp: value_end_def)
    then show ?thesis using that(1) by (simp add: number_text_def list_all_iff takeWhile_append2)
  qed
  from take [of a s] take [of b t] assms show ?thesis by (metis same_append_eq)
qed

text \<open>The first character tells the kind of the value.\<close>

lemma render_hd:
  assumes "json_text_laws env" "cjson_ok v"
  shows "render env v \<noteq> [] \<and> hd (render env v) =
    (case v of CNull \<Rightarrow> CHR ''n'' | CBool b \<Rightarrow> if b then CHR ''t'' else CHR ''f'' | CNumber t \<Rightarrow> hd t
     | CString _ \<Rightarrow> CHR 0x22 | CArray _ \<Rightarrow> CHR ''['' | CObject _ \<Rightarrow> CHR ''{'')"
proof -
  have "quote env s \<noteq> [] \<and> hd (quote env s) = CHR 0x22" for s using assms(1) unfolding json_text_laws_def by blast
  then show ?thesis using assms(2) by (cases v) (simp_all add: number_text_def)
qed

definition kind_of_char :: "char \<Rightarrow> nat" where
  "kind_of_char c =
     (if c = CHR ''n'' then 0 else if c = CHR ''t'' then 1 else if c = CHR ''f'' then 2
      else if c = CHR 0x22 then 3 else if c = CHR ''['' then 4 else if c = CHR ''{'' then 5 else 6)"

fun cjson_kind :: "cjson \<Rightarrow> nat" where
  "cjson_kind CNull = 0"
| "cjson_kind (CBool b) = (if b then 1 else 2)"
| "cjson_kind (CString s) = 3"
| "cjson_kind (CArray vs) = 4"
| "cjson_kind (CObject m) = 5"
| "cjson_kind (CNumber t) = 6"

lemma number_text_kind: "number_text t \<Longrightarrow> kind_of_char (hd t) = 6"
  by (auto simp: number_text_def is_digit_iff kind_of_char_def)

lemma kind_of_char_simps:
  "kind_of_char CHR ''n'' = 0" "kind_of_char CHR ''t'' = 1" "kind_of_char CHR ''f'' = 2"
  "kind_of_char CHR 0x22 = 3" "kind_of_char CHR ''['' = 4" "kind_of_char CHR ''{'' = 5"
  by (simp_all add: kind_of_char_def)

lemma render_same_kind:
  assumes "json_text_laws env" "cjson_ok v" "cjson_ok w" "render env v @ s = render env w @ t"
  shows "cjson_kind v = cjson_kind w"
proof -
  have cjson_kind: "kind_of_char (hd (render env v)) = cjson_kind v" if "cjson_ok v" for v
    using render_hd [OF assms(1) that] that by (cases v) (simp_all add: number_text_kind kind_of_char_simps)
  have "hd (render env v) = hd (render env w)"
    using arg_cong [OF assms(4), of hd] render_hd [OF assms(1,2)] render_hd [OF assms(1,3)] by simp
  with cjson_kind [OF assms(2)] cjson_kind [OF assms(3)] show ?thesis by simp
qed

lemma kind_cases:
  "cjson_kind v = 0 \<Longrightarrow> v = CNull" "cjson_kind v = 1 \<Longrightarrow> v = CBool True" "cjson_kind v = 2 \<Longrightarrow> v = CBool False"
  "cjson_kind v = 3 \<Longrightarrow> \<exists>s. v = CString s" "cjson_kind v = 4 \<Longrightarrow> \<exists>vs. v = CArray vs"
  "cjson_kind v = 5 \<Longrightarrow> \<exists>m. v = CObject m" "cjson_kind v = 6 \<Longrightarrow> \<exists>t. v = CNumber t"
  by (cases v; simp split: if_splits)+

lemma separated_tail_prefix:
  assumes elem: "\<And>x y s t. x \<in> set xs \<Longrightarrow> y \<in> set ys \<Longrightarrow> r x @ s = r y @ t \<Longrightarrow> value_end s \<Longrightarrow> value_end t \<Longrightarrow> x = y \<and> s = t"
    and c: "c \<in> {CHR '']'', CHR ''}''}"
    and eq: "concat (map (\<lambda>x. CHR '','' # r x) xs) @ c # s = concat (map (\<lambda>x. CHR '','' # r x) ys) @ c # t"
  shows "xs = ys \<and> s = t"
  using elem eq
proof (induction xs arbitrary: ys)
  case Nil
  then show ?case using c by (cases ys) auto
next
  case (Cons x xs)
  then obtain y ys' where ys: "ys = y # ys'" using c by (cases ys) auto
  have ends: "value_end (concat (map (\<lambda>x. CHR '','' # r x) zs) @ c # u)" for zs u
    using c by (cases zs) (auto simp: value_end_def)
  from Cons.prems(2) ys have "r x @ (concat (map (\<lambda>x. CHR '','' # r x) xs) @ c # s)
      = r y @ (concat (map (\<lambda>x. CHR '','' # r x) ys') @ c # t)" by simp
  from Cons.prems(1) [OF _ _ this ends ends] ys have xy: "x = y"
    and rest: "concat (map (\<lambda>x. CHR '','' # r x) xs) @ c # s = concat (map (\<lambda>x. CHR '','' # r x) ys') @ c # t"
    by simp_all
  have "xs = ys' \<and> s = t"
    by (rule Cons.IH [OF _ rest]) (rule Cons.prems(1), simp_all add: ys)
  with xy ys show ?case by simp
qed

lemma separated_prefix:
  assumes elem: "\<And>x y s t. x \<in> set xs \<Longrightarrow> y \<in> set ys \<Longrightarrow> r x @ s = r y @ t \<Longrightarrow> value_end s \<Longrightarrow> value_end t \<Longrightarrow> x = y \<and> s = t"
    and c: "c \<in> {CHR '']'', CHR ''}''}"
    and hd: "\<And>x. x \<in> set xs \<union> set ys \<Longrightarrow> r x \<noteq> [] \<and> hd (r x) \<notin> {CHR '']'', CHR ''}''}"
    and eq: "comma_separated (map r xs) @ c # s = comma_separated (map r ys) @ c # t"
  shows "xs = ys \<and> s = t"
proof -
  have ne: "comma_separated (map r (z # zs)) @ u \<noteq> c # u'" if "z \<in> set xs \<union> set ys" for z zs u u'
    using hd [OF that] c by (cases "r z") auto
  show ?thesis
  proof (cases xs)
    case Nil
    then show ?thesis using eq ne by (cases ys) (auto, metis list.set_intros(1) UnI2 ne list.simps(9))
  next
    case (Cons x xs')
    then obtain y ys' where ys: "ys = y # ys'" using eq ne [of x xs' "c # s" t] by (cases ys) auto
    have "concat (map (\<lambda>x. CHR '','' # r x) (x # xs')) @ c # s = concat (map (\<lambda>x. CHR '','' # r x) (y # ys')) @ c # t"
      using eq Cons ys by (simp add: comp_def)
    from separated_tail_prefix [OF _ c this] elem Cons ys show ?thesis by blast
  qed
qed

lemma render_not_close:
  assumes "json_text_laws env" "cjson_ok v"
  shows "render env v \<noteq> [] \<and> hd (render env v) \<notin> {CHR '']'', CHR ''}''}"
  using render_hd [OF assms] assms(2) by (cases v) (auto simp: number_text_def is_digit_iff)

lemma quote_prefix: "json_text_laws env \<Longrightarrow> quote env a @ x = quote env b @ y \<Longrightarrow> a = b"
  unfolding json_text_laws_def by blast

text \<open>A value shows where it ends, so a text has one reading.\<close>

lemma render_prefix:
  assumes laws: "json_text_laws env"
  shows "cjson_ok v \<Longrightarrow> cjson_ok w \<Longrightarrow> render env v @ s = render env w @ t \<Longrightarrow> value_end s \<Longrightarrow> value_end t \<Longrightarrow> v = w \<and> s = t"
proof (induction v arbitrary: w s t)
  case CNull
  have "w = CNull" using render_same_kind [OF laws CNull(1-3)] by (intro kind_cases) simp
  with CNull(3) show ?case by simp
next
  case (CBool b)
  have "cjson_kind w = cjson_kind (CBool b)" using render_same_kind [OF laws CBool(1-3)] by simp
  then have "w = CBool b" by (cases b) (simp_all add: kind_cases(2,3))
  with CBool(3) show ?case by simp
next
  case (CNumber x)
  from render_same_kind [OF laws CNumber(1-3)] kind_cases(7) [of w] obtain y where "w = CNumber y" by auto
  with CNumber number_text_prefix [of x y s t] show ?case by simp
next
  case (CString x)
  from render_same_kind [OF laws CString(1-3)] kind_cases(4) [of w] obtain y where w: "w = CString y" by auto
  with CString(3) quote_prefix [OF laws] have "x = y" by simp
  with CString(3) w show ?case by simp
next
  case (CArray xs)
  from render_same_kind [OF laws CArray(2-4)] kind_cases(5) [of w] obtain ys where w: "w = CArray ys" by auto
  have "xs = ys \<and> s = t"
  proof (rule separated_prefix [where c = "CHR '']''" and r = "render env"])
    show "comma_separated (map (render env) xs) @ CHR '']'' # s = comma_separated (map (render env) ys) @ CHR '']'' # t"
      using CArray(4) w by simp
    show "x = y \<and> s = t" if "x \<in> set xs" "y \<in> set ys" "render env x @ s = render env y @ t" "value_end s" "value_end t" for x y s t
      using CArray.IH [OF that(1) _ _ that(3-5)] CArray.prems(1,2) that(1,2) w by simp
    show "render env x \<noteq> [] \<and> hd (render env x) \<notin> {CHR '']'', CHR ''}''}" if "x \<in> set xs \<union> set ys" for x
      using render_not_close [OF laws] that CArray.prems(1,2) w by auto
  qed simp
  with w show ?case by simp
next
  case (CObject m)
  from render_same_kind [OF laws CObject(2-4)] kind_cases(6) [of w] obtain n where w: "w = CObject n" by auto
  let ?r = "\<lambda>(k, v). quote env k @ '':'' @ render env v"
  have "m = n \<and> s = t"
  proof (rule separated_prefix [where c = "CHR ''}''" and r = ?r])
    show "comma_separated (map ?r m) @ CHR ''}'' # s = comma_separated (map ?r n) @ CHR ''}'' # t"
      using CObject(4) w by simp
    show "x = y \<and> s = t" if "x \<in> set m" "y \<in> set n" "?r x @ s = ?r y @ t" "value_end s" "value_end t" for x y s t
    proof -
      obtain k v k' v' where x: "x = (k, v)" and y: "y = (k', v')" by (cases x; cases y)
      have "k = k'" using quote_prefix [OF laws, of k _ k'] that(3) by (simp add: x y)
      then have "render env v @ s = render env v' @ t" using that(3) by (simp add: x y)
      then have "v = v' \<and> s = t"
        using CObject.IH [of x v v' s t] CObject.prems(1,2) that w by (auto simp: x y)
      with \<open>k = k'\<close> show ?thesis by (simp add: x y)
    qed
    show "?r x \<noteq> [] \<and> hd (?r x) \<notin> {CHR '']'', CHR ''}''}" for x
      using laws by (cases x) (auto simp: json_text_laws_def hd_append)
  qed simp
  with w show ?case by simp
qed

subsection \<open>Compact text\<close>

text \<open>
  The compact writer of the JSON library emits an object in map order. On the values without
  numbers its text is \<open>compact_text\<close>; the chunks it passes to the writer concatenate to that text.
\<close>

fun number_free :: "json \<Rightarrow> bool" where
  "number_free (JNumber n) \<longleftrightarrow> False"
| "number_free (JArray vs) \<longleftrightarrow> (\<forall>v \<in> set vs. number_free v)"
| "number_free (JObject m) \<longleftrightarrow> (\<forall>(k, v) \<in> set m. number_free v)"
| "number_free _ \<longleftrightarrow> True"

fun all_nfc :: "text_env \<Rightarrow> json \<Rightarrow> bool" where
  "all_nfc env (JString s) \<longleftrightarrow> is_nfc env s"
| "all_nfc env (JArray vs) \<longleftrightarrow> (\<forall>v \<in> set vs. all_nfc env v)"
| "all_nfc env (JObject m) \<longleftrightarrow> (\<forall>(k, v) \<in> set m. is_nfc env k \<and> all_nfc env v)"
| "all_nfc env _ \<longleftrightarrow> True"

fun compact_text :: "(string \<Rightarrow> string) \<Rightarrow> json \<Rightarrow> string" where
  "compact_text q JNull = ''null''"
| "compact_text q (JBool b) = (if b then ''true'' else ''false'')"
| "compact_text q (JNumber n) = []"
| "compact_text q (JString s) = q s"
| "compact_text q (JArray vs) = ''['' @ comma_separated (map (compact_text q) vs) @ '']''"
| "compact_text q (JObject m) = ''{'' @ comma_separated (map (\<lambda>(k, v). q k @ '':'' @ compact_text q v) m) @ ''}''"

definition compact_laws :: "text_env \<Rightarrow> bool" where
  "compact_laws env \<longleftrightarrow> (\<forall>v. number_free v \<longrightarrow> concat (compact_chunks env v) = compact_text (quote env) v)"

lemma sorted_by_fst: "bt_wf m \<Longrightarrow> sort_key fst m = m"
  by (rule sort_key_id_if_sorted) (simp add: bt_wf_def strict_sorted_iff)

lemma compact_text_canonical:
  "json_wf v \<Longrightarrow> all_nfc env v \<Longrightarrow> number_free v \<Longrightarrow> render env (normal_form env v) = compact_text (quote env) v"
proof (induction env v rule: normal_form.induct)
  case (5 env vs)
  then have "map (render env) (map (normal_form env) vs) = map (compact_text (quote env)) vs" by auto
  then show ?case by (simp only: normal_form.simps render.simps compact_text.simps)
next
  case (6 env m)
  have nf: "map (\<lambda>(k, v). (nfc env k, normal_form env v)) m = map (\<lambda>(k, v). (k, normal_form env v)) m"
    using 6(3) by (auto simp: is_nfc_def)
  have "sort_key fst (map (\<lambda>(k, v). (k, normal_form env v)) m) = map (\<lambda>(k, v). (k, normal_form env v)) m"
    using sort_key_map [of fst "\<lambda>(k, v). (k, normal_form env v)" fst m] 6(2) by (simp add: case_prod_beta sorted_by_fst)
  moreover have "map (\<lambda>(k, v). quote env k @ '':'' @ render env v) (map (\<lambda>(k, v). (k, normal_form env v)) m)
      = map (\<lambda>(k, v). quote env k @ '':'' @ compact_text (quote env) v) m"
  proof -
    have "render env (normal_form env v) = compact_text (quote env) v" if "(k, v) \<in> set m" for k v
    proof (rule 6(1) [OF that refl])
      show "json_wf v" "all_nfc env v" "number_free v" using 6(2-4) that by fastforce+
    qed
    then show ?thesis by auto
  qed
  ultimately show ?case by (simp only: normal_form.simps render.simps compact_text.simps nf)
qed (simp_all add: is_nfc_def)

subsection \<open>A concrete text environment\<close>

text \<open>
  An environment in which the hypotheses above hold, for the witnesses: normalisation is the
  identity, a string is quoted with backslashes, a floating point number prints as its bits.
\<close>

fun escape :: "string \<Rightarrow> string" where
  "escape [] = [CHR 0x22]"
| "escape (c # s) = (if c = CHR 0x22 \<or> c = CHR 0x5C then CHR 0x5C # c # escape s else c # escape s)"

definition plain_quote :: "string \<Rightarrow> string" where
  "plain_quote s = CHR 0x22 # escape s"

definition plain_env :: text_env where
  "plain_env = \<lparr> nfc = (\<lambda>s. s), quote = plain_quote, debug_str = plain_quote,
     f64_display = (\<lambda>b. show_nat (unat b)), f64_scientific = (\<lambda>b. show_nat (unat b)),
     f64_integral = (\<lambda>b. True), compact_chunks = (\<lambda>v. [compact_text plain_quote v]) \<rparr>"

lemma escape_prefix: "escape a @ x = escape b @ y \<Longrightarrow> a = b"
proof (induction a arbitrary: b)
  case Nil
  then show ?case by (cases b) (auto split: if_splits)
next
  case (Cons c a)
  then show ?case by (cases b) (auto split: if_splits)
qed

lemma plain_env_laws: "json_text_laws plain_env" "nfc_idempotent plain_env" "compact_laws plain_env" "nfc_ascii plain_env"
  using escape_prefix
  by (auto simp: json_text_laws_def plain_env_def plain_quote_def number_text_show_nat nfc_idempotent_def compact_laws_def nfc_ascii_def)

text \<open>
  C20: canonical JSON is injective on values up to normalisation: two values with the same canonical
  text have the same normal form.
\<close>

theorem canonical_json_injective:
  assumes "json_text_laws env" "json_wf v" "json_wf w"
    and "canonical_json env v = Ok t" "canonical_json env w = Ok t"
  shows "normal_form env v = normal_form env w"
proof -
  have "render env (normal_form env v) @ [] = render env (normal_form env w) @ []"
    using assms(4,5) by (auto simp: canonical_json_def append_canonical_eq_Ok split: if_splits)
  then show ?thesis
    using render_prefix [OF assms(1)] cjson_ok_normal_form [OF assms(1)] assms(2,3)
    by (metis value_end_def)
qed

theorem canonical_json_injective_witness:
  "normal_form plain_env (JObject [(''a'', JNumber (PosInt 1)), (''b'', JArray [JNull])]) =
   normal_form plain_env (JObject [(''a'', JNumber (Float 1)), (''b'', JArray [JNull])])"
proof (rule canonical_json_injective [OF plain_env_laws(1)])
  let ?t = "[CHR ''{'', CHR 0x22, CHR ''a'', CHR 0x22, CHR '':'', CHR ''1'', CHR '','', CHR 0x22, CHR ''b'', CHR 0x22,
    CHR '':'', CHR ''['', CHR ''n'', CHR ''u'', CHR ''l'', CHR ''l'', CHR '']'', CHR ''}'']"
  show "canonical_json plain_env (JObject [(''a'', JNumber (PosInt 1)), (''b'', JArray [JNull])]) = Ok ?t" by code_simp
  show "canonical_json plain_env (JObject [(''a'', JNumber (Float 1)), (''b'', JArray [JNull])]) = Ok ?t" by code_simp
  show "json_wf (JObject [(''a'', JNumber (PosInt 1)), (''b'', JArray [JNull])])" by code_simp
  show "json_wf (JObject [(''a'', JNumber (Float 1)), (''b'', JArray [JNull])])" by code_simp
qed

end
