(* ===== verification/Encodings.thy ===== *)
theory Encodings
  imports Prelude "HOL-Library.Monad_Syntax"
begin

text \<open>
  The textual encodings of bytes in the protocol: the session-object URI with its hexadecimal digest
  (\<open>proto/proto/src/session_object.rs\<close>) and the base64 form of a Tool stream
  (\<open>proto/proto/src/executor/stream.rs\<close>). A byte is an \<open>8 word\<close>; the code's shifts and masks are
  the word operations.
\<close>

unbundle bit_operations_syntax

type_synonym u8 = "8 word"

definition char_u8 :: "char \<Rightarrow> u8" where
  "char_u8 c = of_nat (of_char c)"

subsection \<open>Hexadecimal digests\<close>

definition SESSION_OBJECT_URI_PREFIX :: string where
  "SESSION_OBJECT_URI_PREFIX = ''session-object:sha256:''"

datatype SessionObjectUriError = NonCanonicalUri | InvalidDigest

definition nibble :: "char \<Rightarrow> u8 option" where
  "nibble byte =
     (if CHR ''0'' \<le> byte \<and> byte \<le> CHR ''9'' then Some (char_u8 byte - char_u8 CHR ''0'')
      else if CHR ''a'' \<le> byte \<and> byte \<le> CHR ''f'' then Some (char_u8 byte - char_u8 CHR ''a'' + 10)
      else None)"

fun hex_pairs :: "string \<Rightarrow> u8 list option" where
  "hex_pairs (h # l # rest) = do {
     hi \<leftarrow> nibble h;
     lo \<leftarrow> nibble l;
     bytes \<leftarrow> hex_pairs rest;
     Some ((push_bit 4 hi OR lo) # bytes) }"
| "hex_pairs _ = Some []"

definition decode_lowercase_sha256_hex :: "string \<Rightarrow> u8 list option" where
  "decode_lowercase_sha256_hex value = (if length value = 64 then hex_pairs value else None)"

definition validate_digest :: "string \<Rightarrow> (unit, SessionObjectUriError) result" where
  "validate_digest digest =
     (if decode_lowercase_sha256_hex digest \<noteq> None then Ok () else Err InvalidDigest)"

definition parse_session_object_uri :: "string \<Rightarrow> (string, SessionObjectUriError) result" where
  "parse_session_object_uri uri =
     and_then (ok_or NonCanonicalUri (strip_prefix SESSION_OBJECT_URI_PREFIX uri)) (\<lambda>digest.
     and_then (validate_digest digest) (\<lambda>_.
     Ok digest))"

definition build_session_object_uri :: "string \<Rightarrow> (string, SessionObjectUriError) result" where
  "build_session_object_uri digest =
     and_then (validate_digest digest) (\<lambda>_. Ok (SESSION_OBJECT_URI_PREFIX @ digest))"

subsection \<open>Base64 streams\<close>

definition ALPHABET :: string where
  "ALPHABET = ''ABCDEFGHIJKLMNOPQRSTUVWXYZabcdefghijklmnopqrstuvwxyz0123456789+/''"

definition alphabet_at :: "u8 \<Rightarrow> char" where
  "alphabet_at w = ALPHABET ! unat w"

fun encode_executor_stream_v0 :: "u8 list \<Rightarrow> string" where
  "encode_executor_stream_v0 [] = []"
| "encode_executor_stream_v0 [first] =
     [alphabet_at (drop_bit 2 first), alphabet_at (push_bit 4 (first AND 0x03) OR drop_bit 4 0), CHR ''='', CHR ''='']"
| "encode_executor_stream_v0 [first, second] =
     [alphabet_at (drop_bit 2 first), alphabet_at (push_bit 4 (first AND 0x03) OR drop_bit 4 second),
      alphabet_at (push_bit 2 (second AND 0x0F) OR drop_bit 6 0), CHR ''='']"
| "encode_executor_stream_v0 (first # second # third # rest) =
     [alphabet_at (drop_bit 2 first), alphabet_at (push_bit 4 (first AND 0x03) OR drop_bit 4 second),
      alphabet_at (push_bit 2 (second AND 0x0F) OR drop_bit 6 third), alphabet_at (third AND 0x3F)]
     @ encode_executor_stream_v0 rest"

datatype StreamError = InvalidBase64

definition base64_value :: "char \<Rightarrow> (u8, StreamError) result" where
  "base64_value byte =
     (if CHR ''A'' \<le> byte \<and> byte \<le> CHR ''Z'' then Ok (char_u8 byte - char_u8 CHR ''A'')
      else if CHR ''a'' \<le> byte \<and> byte \<le> CHR ''z'' then Ok (char_u8 byte - char_u8 CHR ''a'' + 26)
      else if CHR ''0'' \<le> byte \<and> byte \<le> CHR ''9'' then Ok (char_u8 byte - char_u8 CHR ''0'' + 52)
      else if byte = CHR ''+'' then Ok 62
      else if byte = CHR ''/'' then Ok 63
      else Err InvalidBase64)"

text \<open>The body of the loop over the four-byte chunks, and the loop; \<open>chunks\<close> is their number.\<close>

definition decode_chunk :: "bool \<Rightarrow> char \<Rightarrow> char \<Rightarrow> char \<Rightarrow> char \<Rightarrow> (u8 list, StreamError) result" where
  "decode_chunk is_last c0 c1 c2 c3 =
     and_then (base64_value c0) (\<lambda>a.
     and_then (base64_value c1) (\<lambda>b.
     and_then
       (if c2 = CHR ''='' then
          if \<not> is_last \<or> c3 \<noteq> CHR ''='' \<or> b AND 0x0F \<noteq> 0 then Err InvalidBase64 else Ok None
        else and_then (base64_value c2) (\<lambda>v. Ok (Some v))) (\<lambda>c.
     and_then
       (if c3 = CHR ''='' then
          if \<not> is_last \<or> (case c of None \<Rightarrow> False | Some v \<Rightarrow> v AND 0x03 \<noteq> 0) then Err InvalidBase64 else Ok None
        else and_then (base64_value c3) (\<lambda>v. Ok (Some v))) (\<lambda>d.
     Ok ((push_bit 2 a OR drop_bit 4 b) #
         (case c of
            None \<Rightarrow> []
          | Some c \<Rightarrow>
              (push_bit 4 b OR drop_bit 2 c) #
              (case d of None \<Rightarrow> [] | Some d \<Rightarrow> [push_bit 6 c OR d])))))))"

fun decode_chunks :: "nat \<Rightarrow> nat \<Rightarrow> string \<Rightarrow> (u8 list, StreamError) result" where
  "decode_chunks chunks index (c0 # c1 # c2 # c3 # rest) =
     and_then (decode_chunk (index + 1 = chunks) c0 c1 c2 c3) (\<lambda>bytes.
     and_then (decode_chunks chunks (index + 1) rest) (\<lambda>decoded.
     Ok (bytes @ decoded)))"
| "decode_chunks chunks index _ = Ok []"

definition decode_executor_stream_v0 :: "string \<Rightarrow> (u8 list, StreamError) result" where
  "decode_executor_stream_v0 encoded =
     (if length encoded mod 4 \<noteq> 0 \<or> \<not> list_all is_ascii encoded then Err InvalidBase64
      else decode_chunks (length encoded div 4) 0 encoded)"

subsection \<open>Characters and their values\<close>

lemma char_u8_char_of: "n < 256 \<Longrightarrow> char_u8 (char_of n) = of_nat n"
  by (simp add: char_u8_def)

lemma char_eqI: "of_char c = (n :: nat) \<Longrightarrow> c = char_of n"
  by (metis char_of_char)

definition is_hex :: "char \<Rightarrow> bool" where
  "is_hex c \<longleftrightarrow> is_digit c \<or> CHR ''a'' \<le> c \<and> c \<le> CHR ''f''"

definition hex_char :: "nat \<Rightarrow> char" where
  "hex_char k = char_of (if k < 10 then 48 + k else 87 + k)"

lemma nibble_hex_char: "k < 16 \<Longrightarrow> nibble (hex_char k) = Some (of_nat k)"
  by (auto simp: nibble_def hex_char_def less_eq_char_def char_u8_def)

lemma is_hexE:
  assumes "is_hex c"
  obtains k where "k < 16" "c = hex_char k"
proof -
  define n :: nat where "n = of_char c"
  have c: "c = char_of n" by (simp add: n_def)
  consider "48 \<le> n" "n \<le> 57" | "97 \<le> n" "n \<le> 102"
    using assms by (auto simp: is_hex_def is_digit_def less_eq_char_def n_def)
  then show thesis
  proof cases
    case 1
    then show thesis using c by (intro that [of "n - 48"]) (auto simp: hex_char_def)
  next
    case 2
    then show thesis using c by (intro that [of "n - 87"]) (auto simp: hex_char_def)
  qed
qed

lemma is_hex_char: "k < 16 \<Longrightarrow> is_hex (hex_char k)"
  by (auto simp: is_hex_def is_digit_def hex_char_def less_eq_char_def)

lemma nibble_eq_None: "nibble c = None \<longleftrightarrow> \<not> is_hex c"
  by (auto simp: nibble_def is_hex_def is_digit_def)

lemma nibble_eq_Some: "nibble c = Some v \<longleftrightarrow> (\<exists>k < 16. v = of_nat k \<and> c = hex_char k)"
proof
  assume v: "nibble c = Some v"
  then have "is_hex c" using nibble_eq_None [of c] by simp
  then obtain k where "k < 16" "c = hex_char k" by (rule is_hexE)
  with v nibble_hex_char show "\<exists>k < 16. v = of_nat k \<and> c = hex_char k" by auto
qed (auto simp: nibble_hex_char)

text \<open>The alphabet and its inverse.\<close>

definition alphabet_code :: "nat \<Rightarrow> nat" where
  "alphabet_code k = (if k < 26 then 65 + k else if k < 52 then 71 + k else if k < 62 then k - 4
     else if k = 62 then 43 else 47)"

lemma ALPHABET_table: "ALPHABET = map char_of (map alphabet_code [0..<64])"
  by code_simp

lemma alphabet_at_of_nat: "k < 64 \<Longrightarrow> alphabet_at (of_nat k) = char_of (alphabet_code k)"
  by (simp add: alphabet_at_def ALPHABET_table unat_of_nat)

lemma char_of_symbols: "char_of (43::nat) = CHR ''+''" "char_of (47::nat) = CHR ''/''"
  by code_simp+

lemma base64_value_code: "k < 64 \<Longrightarrow> base64_value (char_of (alphabet_code k)) = Ok (of_nat k)"
proof -
  assume "k < 64"
  then consider "k < 26" | "26 \<le> k" "k < 52" | "52 \<le> k" "k < 62" | "k = 62" | "k = 63" by linarith
  then show ?thesis
  proof cases
    case 2
    then obtain j where j: "k = 26 + j" using le_Suc_ex by blast
    with 2 have "j < 26" by simp
    with j show ?thesis by (simp add: base64_value_def alphabet_code_def less_eq_char_def char_u8_def)
  next
    case 3
    then obtain j where j: "k = 52 + j" using le_Suc_ex by blast
    with 3 have "j < 10" by simp
    with j show ?thesis by (simp add: base64_value_def alphabet_code_def less_eq_char_def char_u8_def)
  qed (simp_all add: base64_value_def alphabet_code_def less_eq_char_def char_u8_def char_of_symbols)
qed

lemma base64_value_eq_Ok: "base64_value c = Ok v \<longleftrightarrow> (\<exists>k < 64. v = of_nat k \<and> c = char_of (alphabet_code k))"
proof
  assume v: "base64_value c = Ok v"
  define n :: nat where "n = of_char c"
  have c: "c = char_of n" by (simp add: n_def)
  have "\<exists>k < 64. n = alphabet_code k"
  proof -
    consider "65 \<le> n" "n \<le> 90" | "97 \<le> n" "n \<le> 122" | "48 \<le> n" "n \<le> 57" | "n = 43" | "n = 47"
      using v by (auto simp: base64_value_def less_eq_char_def n_def split: if_splits)
    then show ?thesis
    proof cases
      case 1
      then show ?thesis by (intro exI [of _ "n - 65"]) (auto simp: alphabet_code_def)
    next
      case 2
      then show ?thesis by (intro exI [of _ "n - 71"]) (auto simp: alphabet_code_def)
    next
      case 3
      then show ?thesis by (intro exI [of _ "n + 4"]) (auto simp: alphabet_code_def)
    next
      case 4
      then show ?thesis by (intro exI [of _ 62]) (auto simp: alphabet_code_def)
    next
      case 5
      then show ?thesis by (intro exI [of _ 63]) (auto simp: alphabet_code_def)
    qed
  qed
  then obtain k where "k < 64" "c = char_of (alphabet_code k)" using c by blast
  with v base64_value_code show "\<exists>k < 64. v = of_nat k \<and> c = char_of (alphabet_code k)" by auto
qed (auto simp: base64_value_code)

lemma word_lt_of_nat: "(w :: u8) < 64 \<Longrightarrow> \<exists>k < 64. w = of_nat k"
  by (intro exI [of _ "unat w"]) (simp add: word_less_nat_alt)

lemma base64_value_alphabet [simp]: "w < 64 \<Longrightarrow> base64_value (alphabet_at w) = Ok w"
  using word_lt_of_nat [of w] by (auto simp: alphabet_at_of_nat base64_value_code)

lemma base64_value_OkD:
  assumes "base64_value c = Ok v"
  shows "v < 64 \<and> alphabet_at v = c \<and> c \<noteq> CHR ''=''"
proof -
  from assms obtain k where k: "k < 64" "v = of_nat k" "c = char_of (alphabet_code k)"
    unfolding base64_value_eq_Ok by blast
  then have "v < 64" by (simp add: word_less_nat_alt unat_of_nat)
  moreover have "base64_value CHR ''='' = Err InvalidBase64" by (simp add: base64_value_def less_eq_char_def)
  ultimately show ?thesis using k alphabet_at_of_nat assms by force
qed

lemma alphabet_at_facts [simp]: "w < 64 \<Longrightarrow> alphabet_at w \<noteq> CHR ''=''" "w < 64 \<Longrightarrow> is_ascii (alphabet_at w)"
proof -
  assume w: "w < 64"
  then show "alphabet_at w \<noteq> CHR ''=''" using base64_value_OkD [of "alphabet_at w" w] by simp
  from word_lt_of_nat [OF w] obtain k where k: "k < 64" "w = of_nat k" by blast
  then have "alphabet_code k < 128" by (auto simp: alphabet_code_def)
  with k show "is_ascii (alphabet_at w)" by (simp add: alphabet_at_of_nat is_ascii_def less_char_def)
qed

subsection \<open>Shifts and masks\<close>

lemma masks [simp]: "(a :: u8) AND 3 = take_bit 2 a" "(a :: u8) AND 15 = take_bit 4 a" "(a :: u8) AND 63 = take_bit 6 a"
  by (simp_all add: take_bit_eq_mask mask_eq_exp_minus_1)

lemma u8_eqI: "(\<And>n. n \<in> {0, 1, 2, 3, 4, 5, 6, 7} \<Longrightarrow> bit (a :: u8) n = bit b n) \<Longrightarrow> a = b"
proof (rule bit_word_eqI)
  fix n assume eq: "\<And>n. n \<in> {0, 1, 2, 3, 4, 5, 6, 7} \<Longrightarrow> bit a n = bit b n" and "n < LENGTH(8)"
  then have "n < 8" by simp
  then have "n \<in> {0, 1, 2, 3, 4, 5, 6, 7}" by auto
  then show "bit a n = bit b n" by (rule eq)
qed

lemmas u8_bits = bit_take_bit_iff bit_push_bit_iff bit_drop_bit_eq bit_or_iff bit_and_iff

lemma bit_u8_high: "8 \<le> n \<Longrightarrow> \<not> bit (a :: u8) n"
  using bit_imp_le_length [of a n] by auto

lemma bit_u8_index: "bit (a :: u8) (Suc (Suc 0)) = bit a 2" "bit (a :: u8) (Suc (Suc (Suc 0))) = bit a 3"
  by (simp_all add: numeral_2_eq_2 numeral_3_eq_3)

lemma less_64_bits: "(w :: u8) < 64 \<longleftrightarrow> \<not> bit w 6 \<and> \<not> bit w 7"
proof -
  have "w < 64 \<longleftrightarrow> take_bit 6 (unat w) = unat w" by (simp add: word_less_nat_alt take_bit_nat_eq_self_iff)
  also have "\<dots> \<longleftrightarrow> take_bit 6 w = w" by (metis unsigned_take_bit_eq unsigned_word_eqI)
  also have "\<dots> \<longleftrightarrow> \<not> bit w 6 \<and> \<not> bit w 7"
  proof
    assume "take_bit 6 w = w"
    then have "bit (take_bit 6 w) n = bit w n" for n by simp
    from this [of 6] this [of 7] show "\<not> bit w 6 \<and> \<not> bit w 7" by (simp add: bit_take_bit_iff)
  qed (auto intro!: u8_eqI simp: u8_bits)
  finally show ?thesis .
qed

lemma shift_bounds [simp]:
  "drop_bit 2 (a :: u8) < 64" "push_bit 4 (take_bit 2 a) OR drop_bit 4 b < (64 :: u8)"
  "push_bit 2 (take_bit 4 a) OR drop_bit 6 b < (64 :: u8)" "take_bit 6 a < (64 :: u8)"
  "push_bit 4 (take_bit 2 a) < (64 :: u8)" "push_bit 2 (take_bit 4 a) < (64 :: u8)"
  unfolding less_64_bits by (simp_all add: u8_bits bit_u8_high)

text \<open>Three bytes from their four sextets, and four sextets from the three bytes.\<close>

lemma join_sextets [simp]:
  "push_bit 2 (drop_bit 2 a) OR drop_bit 4 (push_bit 4 (take_bit 2 a) OR drop_bit 4 b) = (a :: u8)"
  "push_bit 2 (drop_bit 2 a) OR drop_bit 4 (push_bit 4 (take_bit 2 a)) = (a :: u8)"
  "push_bit 4 (push_bit 4 (take_bit 2 a) OR drop_bit 4 b) OR drop_bit 2 (push_bit 2 (take_bit 4 b) OR drop_bit 6 c) = (b :: u8)"
  "push_bit 4 (push_bit 4 (take_bit 2 a) OR drop_bit 4 b) OR drop_bit 2 (push_bit 2 (take_bit 4 b)) = (b :: u8)"
  "push_bit 6 (push_bit 2 (take_bit 4 b) OR drop_bit 6 c) OR take_bit 6 c = (c :: u8)"
  by (auto intro!: u8_eqI simp: u8_bits bit_u8_high bit_u8_index)

lemma split_sextets:
  assumes "(a :: u8) < 64" "b < 64" "c < 64" "d < 64"
  shows "drop_bit 2 (push_bit 2 a OR drop_bit 4 b) = a"
    and "push_bit 4 (take_bit 2 (push_bit 2 a OR drop_bit 4 b)) OR drop_bit 4 (push_bit 4 b OR drop_bit 2 c) = b"
    and "push_bit 2 (take_bit 4 (push_bit 4 b OR drop_bit 2 c)) OR drop_bit 6 (push_bit 6 c OR d) = c"
    and "take_bit 6 (push_bit 6 c OR d) = d"
  using assms unfolding less_64_bits by (auto intro!: u8_eqI simp: u8_bits bit_u8_high bit_u8_index)

lemma split_sextets_padded:
  assumes "(a :: u8) < 64" "b < 64" "c < 64"
  shows "take_bit 4 b = 0 \<Longrightarrow> push_bit 4 (take_bit 2 (push_bit 2 a OR drop_bit 4 b)) = b"
    and "take_bit 2 c = 0 \<Longrightarrow> push_bit 2 (take_bit 4 (push_bit 4 b OR drop_bit 2 c)) = c"
proof -
  assume "take_bit 4 b = 0"
  then have "bit (take_bit 4 b) n = False" for n by simp
  from this [of 0] this [of 1] this [of 2] this [of 3]
  show "push_bit 4 (take_bit 2 (push_bit 2 a OR drop_bit 4 b)) = b"
    using assms unfolding less_64_bits by (auto intro!: u8_eqI simp: u8_bits bit_u8_high bit_u8_index)
next
  assume "take_bit 2 c = 0"
  then have "bit (take_bit 2 c) n = False" for n by simp
  from this [of 0] this [of 1]
  show "push_bit 2 (take_bit 4 (push_bit 4 b OR drop_bit 2 c)) = c"
    using assms unfolding less_64_bits by (auto intro!: u8_eqI simp: u8_bits bit_u8_high bit_u8_index)
qed

lemma join_halves [simp]:
  "push_bit 4 (drop_bit 4 b) OR drop_bit 2 (push_bit 2 (take_bit 4 b)) = (b :: u8)"
  "push_bit 6 (drop_bit 6 b) OR take_bit 6 b = (b :: u8)"
  by (auto intro!: u8_eqI simp: u8_bits bit_u8_high bit_u8_index)

lemma padding_zero [simp]: "take_bit 4 (push_bit 4 (a :: u8)) = 0" "take_bit 2 (push_bit 2 (a :: u8)) = 0"
  by (auto intro!: u8_eqI simp: u8_bits bit_u8_high bit_u8_index)

subsection \<open>Base64 round trips\<close>

lemma length_encode: "length (encode_executor_stream_v0 bs) = 4 * ((length bs + 2) div 3)"
proof (induction bs rule: encode_executor_stream_v0.induct)
  case (4 a b c rest)
  have "(length (a # b # c # rest) + 2) div 3 = (length rest + 2) div 3 + 1" by simp
  with 4 show ?case by simp
qed simp_all

lemma encode_ascii: "list_all is_ascii (encode_executor_stream_v0 bs)"
proof -
  have "is_ascii CHR ''=''" by (simp add: is_ascii_def less_char_def)
  then show ?thesis by (induction bs rule: encode_executor_stream_v0.induct) auto
qed

lemma decode_chunks_encode:
  "index + (length bs + 2) div 3 = chunks \<Longrightarrow> decode_chunks chunks index (encode_executor_stream_v0 bs) = Ok bs"
proof (induction bs arbitrary: index rule: encode_executor_stream_v0.induct)
  case (4 a b c rest)
  then have "decode_chunks chunks (index + 1) (encode_executor_stream_v0 rest) = Ok rest" by simp
  then show ?case by (simp add: decode_chunk_def)
qed (simp_all add: decode_chunk_def)

text \<open>What an accepted chunk looks like.\<close>

lemma decode_chunk_OkE:
  assumes "decode_chunk is_last c0 c1 c2 c3 = Ok bs"
  obtains (full) x y z where "bs = [x, y, z]" "encode_executor_stream_v0 [x, y, z] = [c0, c1, c2, c3]"
  | (two) x y where "is_last" "bs = [x, y]" "encode_executor_stream_v0 [x, y] = [c0, c1, c2, c3]"
  | (one) x where "is_last" "bs = [x]" "encode_executor_stream_v0 [x] = [c0, c1, c2, c3]"
proof -
  from assms obtain a b where ab: "base64_value c0 = Ok a" "base64_value c1 = Ok b" by (auto simp: decode_chunk_def)
  note ab' = ab [THEN base64_value_OkD]
  consider (full) c d where "base64_value c2 = Ok c" "base64_value c3 = Ok d"
      "bs = [push_bit 2 a OR drop_bit 4 b, push_bit 4 b OR drop_bit 2 c, push_bit 6 c OR d]"
    | (two) c where "is_last" "base64_value c2 = Ok c" "c3 = CHR ''=''" "take_bit 2 c = 0"
      "bs = [push_bit 2 a OR drop_bit 4 b, push_bit 4 b OR drop_bit 2 c]"
    | (one) "is_last" "c2 = CHR ''=''" "c3 = CHR ''=''" "take_bit 4 b = 0" "bs = [push_bit 2 a OR drop_bit 4 b]"
    using assms by (auto simp: decode_chunk_def ab split: if_splits)
  then show thesis
  proof cases
    case (full c d)
    then show thesis using that(1) ab' base64_value_OkD [of c2 c] base64_value_OkD [of c3 d] split_sextets [of a b c d] by simp
  next
    case (two c)
    then show thesis using that(2) ab' base64_value_OkD [of c2 c] split_sextets [of a b c 0] split_sextets_padded [of a b c] by simp
  next
    case one
    then show thesis using that(3) ab' split_sextets [of a b 0 0] split_sextets_padded [of a b 0] by simp
  qed
qed

lemma encode_decode_chunks:
  "decode_chunks chunks index s = Ok bs \<Longrightarrow> length s = 4 * (chunks - index) \<Longrightarrow> index \<le> chunks \<Longrightarrow>
   encode_executor_stream_v0 bs = s"
proof (induction chunks index s arbitrary: bs rule: decode_chunks.induct)
  case (1 chunks index c0 c1 c2 c3 rest)
  from 1(2) obtain xs ys where x: "decode_chunk (index + 1 = chunks) c0 c1 c2 c3 = Ok xs"
    and y: "decode_chunks chunks (index + 1) rest = Ok ys" and bs: "bs = xs @ ys" by auto
  have len: "length rest = 4 * (chunks - (index + 1))" "index + 1 \<le> chunks" using 1(3) by auto
  have IH: "encode_executor_stream_v0 ys = rest" by (rule 1(1) [OF y len])
  have last: "rest = []" "ys = []" if "index + 1 = chunks"
    using that len(1) IH length_encode [of ys] by (simp_all, cases ys, simp_all)
  from x show ?case
  proof (cases rule: decode_chunk_OkE)
    case (full x y z)
    then show ?thesis using IH bs by simp
  qed (use last bs in auto)
qed (auto, presburger+)

definition stream_decode :: "string \<Rightarrow> u8 list option" where
  "stream_decode s = (case decode_executor_stream_v0 s of Ok bs \<Rightarrow> Some bs | Err _ \<Rightarrow> None)"

lemma decode_encode_stream: "decode_executor_stream_v0 (encode_executor_stream_v0 bs) = Ok bs"
  by (simp add: decode_executor_stream_v0_def encode_ascii length_encode decode_chunks_encode)

lemma encode_decode_stream: "decode_executor_stream_v0 s = Ok bs \<Longrightarrow> encode_executor_stream_v0 bs = s"
  by (rule encode_decode_chunks) (auto simp: decode_executor_stream_v0_def split: if_splits)

interpretation stream: codec "\<lambda>_. True" encode_executor_stream_v0 stream_decode
  by unfold_locales (auto simp: stream_decode_def decode_encode_stream encode_decode_stream split: result.splits)

text \<open>
  C35: the base64 form of a Tool stream is canonical. Every byte string decodes from its own encoding,
  the decoder accepts no other text for it, and two byte strings never share an encoding.
\<close>

theorem stream_base64_canonical:
  "(decode_executor_stream_v0 s = Ok bs \<longleftrightarrow> s = encode_executor_stream_v0 bs) \<and>
   (encode_executor_stream_v0 bs = encode_executor_stream_v0 bs' \<longleftrightarrow> bs = bs') \<and>
   length (encode_executor_stream_v0 bs) = 4 * ((length bs + 2) div 3)"
  using stream.decode_iff [of s bs] stream.encode_inject [of bs bs'] length_encode
  by (auto simp: decode_encode_stream encode_decode_stream)

subsection \<open>Digest round trips\<close>

lemma hex_pairs_eq_Some:
  "length s mod 2 = 0 \<Longrightarrow> hex_pairs s \<noteq> None \<longleftrightarrow> list_all is_hex s"
proof (induction s rule: hex_pairs.induct)
  case (1 h l rest)
  show ?case
  proof (cases "is_hex h \<and> is_hex l")
    case True
    then obtain x y where "nibble h = Some x" "nibble l = Some y"
      using nibble_eq_None [of h] nibble_eq_None [of l] by auto
    with 1 True show ?thesis by (auto simp: bind_eq_None_conv)
  next
    case False
    then show ?thesis using nibble_eq_None [of h] nibble_eq_None [of l] by (auto simp: bind_eq_None_conv split: option.splits)
  qed
qed auto

lemma nibble_pair_inject:
  assumes "nibble a = Some x" "nibble b = Some y" "nibble c = Some u" "nibble d = Some v"
    and "push_bit 4 x OR y = (push_bit 4 u OR v :: u8)"
  shows "a = c \<and> b = d"
proof -
  have small: "drop_bit 4 w = 0" if "nibble e = Some w" for e w
    using that by (auto simp: nibble_eq_Some drop_bit_eq_div unat_of_nat word_arith_nat_div)
  have "take_bit 4 (push_bit 4 p OR q) = q" "drop_bit 4 (push_bit 4 p OR q) = take_bit 4 p" if "drop_bit 4 q = 0" for p q :: u8
  proof -
    have "bit (drop_bit 4 q) n = False" for n using that by simp
    from this [of 0] this [of 1] this [of 2] this [of 3]
    show "take_bit 4 (push_bit 4 p OR q) = q" "drop_bit 4 (push_bit 4 p OR q) = take_bit 4 p"
      by (auto intro!: u8_eqI simp: u8_bits bit_u8_high bit_u8_index)
  qed
  moreover have "take_bit 4 w = w" if "drop_bit 4 w = 0" for w :: u8
  proof -
    have "bit (drop_bit 4 w) n = False" for n using that by simp
    from this [of 0] this [of 1] this [of 2] this [of 3] show ?thesis
      by (auto intro!: u8_eqI simp: u8_bits bit_u8_high bit_u8_index)
  qed
  ultimately have "x = u" "y = v" using assms(5) small assms(1-4) by metis+
  with assms(1-4) show ?thesis
    by (auto simp: nibble_eq_Some word_of_nat_eq_iff take_bit_nat_eq_self)
qed

lemma hex_pairs_length: "hex_pairs s = Some bs \<Longrightarrow> length bs = length s div 2"
  by (induction s arbitrary: bs rule: hex_pairs.induct) (auto simp: bind_eq_Some_conv)

lemma hex_pairs_inject:
  "hex_pairs s = Some bs \<Longrightarrow> hex_pairs t = Some bs \<Longrightarrow> length s = length t \<Longrightarrow> length s mod 2 = 0 \<Longrightarrow> s = t"
proof (induction s arbitrary: t bs rule: hex_pairs.induct)
  case (1 h l rest)
  obtain h' l' rest' where t: "t = h' # l' # rest'" using 1(4) by (cases t; cases "tl t") auto
  from 1(2) obtain x y ys where x: "nibble h = Some x" "nibble l = Some y" "hex_pairs rest = Some ys"
    "bs = (push_bit 4 x OR y) # ys" by (auto simp: bind_eq_Some_conv)
  from 1(3) t x(4) obtain u v where u: "nibble h' = Some u" "nibble l' = Some v" "hex_pairs rest' = Some ys"
    "push_bit 4 x OR y = push_bit 4 u OR v" by (auto simp: bind_eq_Some_conv)
  have "h = h' \<and> l = l'" by (rule nibble_pair_inject [OF x(1,2) u(1,2,4)])
  moreover have "rest = rest'" using 1(1) [OF x(1,2,3) u(3)] 1(4,5) t by simp
  ultimately show ?case using t by simp
qed auto

lemma validate_digest_eq_Ok: "validate_digest d = Ok () \<longleftrightarrow> length d = 64 \<and> list_all is_hex d"
  using hex_pairs_eq_Some [of d] by (auto simp: validate_digest_def decode_lowercase_sha256_hex_def)

text \<open>
  C36: a session-object URI is the fixed prefix and a digest of 64 lower-case hexadecimal characters;
  building and parsing are inverse to each other, and a digest decodes to 32 bytes that no other
  digest decodes to.
\<close>

theorem session_object_uri_roundtrip:
  "(parse_session_object_uri uri = Ok d \<longleftrightarrow> build_session_object_uri d = Ok uri) \<and>
   (build_session_object_uri d = Ok uri \<longleftrightarrow>
      length d = 64 \<and> list_all is_hex d \<and> uri = ''session-object:sha256:'' @ d) \<and>
   (decode_lowercase_sha256_hex d = Some bs \<and> decode_lowercase_sha256_hex d' = Some bs \<longrightarrow> length bs = 32 \<and> d = d')"
proof (intro conjI)
  show b: "build_session_object_uri d = Ok uri \<longleftrightarrow>
      length d = 64 \<and> list_all is_hex d \<and> uri = ''session-object:sha256:'' @ d"
    using validate_digest_eq_Ok [of d]
    by (auto simp: build_session_object_uri_def SESSION_OBJECT_URI_PREFIX_def)
  show "parse_session_object_uri uri = Ok d \<longleftrightarrow> build_session_object_uri d = Ok uri"
    unfolding b parse_session_object_uri_def SESSION_OBJECT_URI_PREFIX_def
    by (auto simp: validate_digest_eq_Ok)
  show "decode_lowercase_sha256_hex d = Some bs \<and> decode_lowercase_sha256_hex d' = Some bs \<longrightarrow> length bs = 32 \<and> d = d'"
    using hex_pairs_inject [of d bs d'] hex_pairs_length [of d bs]
    by (auto simp: decode_lowercase_sha256_hex_def split: if_splits)
qed

theorem session_object_uri_roundtrip_witness:
  "parse_session_object_uri (''session-object:sha256:'' @ replicate 64 CHR ''a'') = Ok (replicate 64 CHR ''a'') \<and>
   length (replicate 32 (0xAA :: u8)) = 32"
proof -
  have d: "decode_lowercase_sha256_hex (replicate 64 CHR ''a'') = Some (replicate 32 0xAA)" by code_simp
  from session_object_uri_roundtrip [of "''session-object:sha256:'' @ replicate 64 CHR ''a''" "replicate 64 CHR ''a''"
      "replicate 32 0xAA" "replicate 64 CHR ''a''"] d
  show ?thesis by (simp add: is_hex_def list_all_iff less_eq_char_def)
qed

end
