(* ===== verification/Flow_Value.thy ===== *)
theory Flow_Value
  imports Json Encodings
begin

text \<open>
  The validator of the closed wire values, \<open>proto/proto/src/flow_value.rs\<close>. Each message of the code
  is a constructor of \<open>FlowValueValidationError\<close> with the data it prints. The number of nodes seen so
  far, a mutable local of the code, is threaded through the recursion.

  The reference is the grammar \<open>flow\<close>: the values that have a wire form, with their depth and their
  number of nodes. The validator accepts exactly the wire forms within the bounds.
\<close>

definition FLOW_VALUE_MAX_DEPTH_V0 :: nat where "FLOW_VALUE_MAX_DEPTH_V0 = 16"
definition FLOW_VALUE_MAX_MEMBERS_V0 :: nat where "FLOW_VALUE_MAX_MEMBERS_V0 = 1024"
definition FLOW_VALUE_MAX_NODES_V0 :: nat where "FLOW_VALUE_MAX_NODES_V0 = 4096"
definition FLOW_VALUE_MAX_BYTES_V0 :: nat where "FLOW_VALUE_MAX_BYTES_V0 = 64 * 1024"
definition FLOW_VALUE_MAX_KEY_CHARS_V0 :: nat where "FLOW_VALUE_MAX_KEY_CHARS_V0 = 256"

lemmas flow_value_bounds = FLOW_VALUE_MAX_DEPTH_V0_def FLOW_VALUE_MAX_MEMBERS_V0_def
  FLOW_VALUE_MAX_NODES_V0_def FLOW_VALUE_MAX_BYTES_V0_def FLOW_VALUE_MAX_KEY_CHARS_V0_def

datatype FlowValueValidationError =
    DepthExceeded string nat
  | NodeCountExceeded
  | NotClosedWrapper string
  | TypeNotString string
  | UnrecognizedType string
  | ValueMustBe string string
  | IntegerNotDecimal string
  | IntegerNotCanonical string
  | UriNotCanonical string
  | UriDigestInvalid string
  | MemberCountExceeded string
  | KeyLengthInvalid string
  | NotNfc string
  | BytesExceeded

subsection \<open>Canonical integers\<close>

datatype CanonicalIntegerError = Invalid | NonCanonical

text \<open>\<open>str::parse::<i64>\<close>: an optional sign, at least one digit, and the range of the type.\<close>

definition parse_i64 :: "string \<Rightarrow> int option" where
  "parse_i64 s =
    (let (negative, digits) =
       (case s of c # cs \<Rightarrow> if c = CHR ''-'' then (True, cs) else if c = CHR ''+'' then (False, cs) else (False, s)
        | [] \<Rightarrow> (False, s))
     in case parse_nat digits of
          None \<Rightarrow> None
        | Some n \<Rightarrow>
            let i = (if negative then - int n else int n)
            in if in_i64 i then Some i else None)"

definition parse_canonical_i64 :: "string \<Rightarrow> (int, CanonicalIntegerError) result" where
  "parse_canonical_i64 value =
     and_then (ok_or Invalid (parse_i64 value)) (\<lambda>parsed.
     if show_int parsed \<noteq> value then Err NonCanonical else Ok parsed)"

definition i64_decode :: "string \<Rightarrow> int option" where
  "i64_decode s = (case parse_canonical_i64 s of Ok i \<Rightarrow> Some i | Err _ \<Rightarrow> None)"

subsection \<open>Leaves\<close>

definition type_error :: "string \<Rightarrow> string \<Rightarrow> FlowValueValidationError" where
  "type_error path expected = ValueMustBe path expected"

definition validate_nfc :: "text_env \<Rightarrow> string \<Rightarrow> string \<Rightarrow> (unit, FlowValueValidationError) result" where
  "validate_nfc env value path = ensure (is_nfc env value) (NotNfc path)"

definition validate_integer :: "json \<Rightarrow> string \<Rightarrow> (unit, FlowValueValidationError) result" where
  "validate_integer value path =
     and_then (ok_or (type_error path ''canonical signed 64-bit decimal string'') (as_str value)) (\<lambda>value.
     case parse_canonical_i64 value of
       Ok _ \<Rightarrow> Ok ()
     | Err Invalid \<Rightarrow> Err (IntegerNotDecimal path)
     | Err NonCanonical \<Rightarrow> Err (IntegerNotCanonical path))"

definition validate_text :: "text_env \<Rightarrow> json \<Rightarrow> string \<Rightarrow> (unit, FlowValueValidationError) result" where
  "validate_text env value path =
     and_then (ok_or (type_error path ''string'') (as_str value)) (\<lambda>value. validate_nfc env value path)"

definition validate_session_object :: "text_env \<Rightarrow> json \<Rightarrow> string \<Rightarrow> (unit, FlowValueValidationError) result" where
  "validate_session_object env value path =
     and_then (ok_or (type_error path ''session-object URI string'') (as_str value)) (\<lambda>uri.
     and_then (validate_nfc env uri path) (\<lambda>_.
     case parse_session_object_uri uri of
       Ok _ \<Rightarrow> Ok ()
     | Err NonCanonicalUri \<Rightarrow> Err (UriNotCanonical path)
     | Err InvalidDigest \<Rightarrow> Err (UriDigestInvalid path)))"

subsection \<open>Wrappers, lists and maps\<close>

lemma size_get: "bt_get m k = Some v \<Longrightarrow> size v < size_list (size_prod f size) m" for v :: json
  by (induction m) (auto simp: bt_get_def split: if_splits)

function validate_at :: "text_env \<Rightarrow> json \<Rightarrow> nat \<Rightarrow> nat \<Rightarrow> string \<Rightarrow> (nat, FlowValueValidationError) result"
  and validate_values :: "text_env \<Rightarrow> json list \<Rightarrow> nat \<Rightarrow> nat \<Rightarrow> nat \<Rightarrow> string \<Rightarrow> (nat, FlowValueValidationError) result"
  and validate_fields :: "text_env \<Rightarrow> (string \<times> json) list \<Rightarrow> nat \<Rightarrow> nat \<Rightarrow> string \<Rightarrow> (nat, FlowValueValidationError) result"
  where
  "validate_at env value depth nodes path =
    (if depth > FLOW_VALUE_MAX_DEPTH_V0 then Err (DepthExceeded path depth)
     else
       let nodes = saturating_add_usize nodes 1 in
       if nodes > FLOW_VALUE_MAX_NODES_V0 then Err NodeCountExceeded
       else
         case as_object value of
           None \<Rightarrow> Err (NotClosedWrapper path)
         | Some wrapper \<Rightarrow>
             case (bt_get wrapper ''type'', bt_get wrapper ''value'') of
               (Some tag_value, Some payload) \<Rightarrow>
                 if length wrapper \<noteq> 2 then Err (NotClosedWrapper path)
                 else
                   (case as_str tag_value of
                      None \<Rightarrow> Err (TypeNotString path)
                    | Some tag \<Rightarrow>
                        if tag = ''boolean'' then
                          (case as_bool payload of Some _ \<Rightarrow> Ok nodes | None \<Rightarrow> Err (type_error path ''boolean''))
                        else if tag = ''integer'' then and_then (validate_integer payload path) (\<lambda>_. Ok nodes)
                        else if tag = ''string'' then and_then (validate_text env payload path) (\<lambda>_. Ok nodes)
                        else if tag = ''session-object'' then and_then (validate_session_object env payload path) (\<lambda>_. Ok nodes)
                        else if tag = ''list'' then
                          (case as_array payload of
                             None \<Rightarrow> Err (type_error path ''list'')
                           | Some values \<Rightarrow>
                               if length values > FLOW_VALUE_MAX_MEMBERS_V0 then Err (MemberCountExceeded path)
                               else validate_values env values 0 depth nodes path)
                        else if tag = ''map'' then
                          (case as_object payload of
                             None \<Rightarrow> Err (type_error path ''map'')
                           | Some values \<Rightarrow>
                               if length values > FLOW_VALUE_MAX_MEMBERS_V0 then Err (MemberCountExceeded path)
                               else validate_fields env values depth nodes path)
                        else Err (UnrecognizedType path))
             | _ \<Rightarrow> Err (NotClosedWrapper path))"
| "validate_values env [] index depth nodes path = Ok nodes"
| "validate_values env (v # vs) index depth nodes path =
     and_then (validate_at env v (depth + 1) nodes (path @ ''['' @ show_nat index @ '']'')) (\<lambda>nodes.
     validate_values env vs (index + 1) depth nodes path)"
| "validate_fields env [] depth nodes path = Ok nodes"
| "validate_fields env ((key, v) # m) depth nodes path =
     (let key_path = path @ '' key'' in
      if key = [] \<or> chars_count key > FLOW_VALUE_MAX_KEY_CHARS_V0 then Err (KeyLengthInvalid key_path)
      else
        and_then (validate_nfc env key key_path) (\<lambda>_.
        and_then (validate_at env v (depth + 1) nodes (path @ ''.'' @ key)) (\<lambda>nodes.
        validate_fields env m depth nodes path)))"
  by pat_completeness auto

lemma size_get_array: "Some (JArray vs) = bt_get m k \<Longrightarrow> size_list size vs < size_list (size_prod (\<lambda>_. 0) size) m"
  using size_get [of m k "JArray vs" "\<lambda>_. 0"] by simp

lemma size_get_object:
  "Some (JObject n) = bt_get m k \<Longrightarrow> sum_list (map (\<lambda>e. Suc (size (snd e))) n) < size_list (size_prod (\<lambda>_. 0) size) m"
  using size_get [of m k "JObject n" "\<lambda>_. 0"] size_fields [of n "\<lambda>_. 0"] by simp

termination validate_at
  by (relation "measure (\<lambda>x. case x of
        Inl (env, v, d, n, p) \<Rightarrow> Suc (2 * size v)
      | Inr (Inl (env, vs, i, d, n, p)) \<Rightarrow> 2 * sum_list (map (\<lambda>v. Suc (size v)) vs)
      | Inr (Inr (env, m, d, n, p)) \<Rightarrow> 2 * sum_list (map (\<lambda>e. Suc (size (snd e))) m))")
    (auto simp: size_values dest!: size_get_array size_get_object)

declare validate_at.simps [simp del]

text \<open>\<open>ByteLimitWriter\<close>: the writer refuses the first chunk that would pass the limit.\<close>

record ByteLimitWriter =
  writer_bytes :: nat
  writer_exceeded :: bool

definition ByteLimitWriter_write :: "ByteLimitWriter \<Rightarrow> string \<Rightarrow> (ByteLimitWriter, ByteLimitWriter) result" where
  "ByteLimitWriter_write w buffer =
    (case checked_add_usize (writer_bytes w) (length buffer) of
       Some next \<Rightarrow>
         if next > FLOW_VALUE_MAX_BYTES_V0 then Err (w\<lparr>writer_exceeded := True\<rparr>) else Ok (w\<lparr>writer_bytes := next\<rparr>)
     | None \<Rightarrow> Err (w\<lparr>writer_exceeded := True\<rparr>))"

definition canonical_flow_value_fits_byte_limit :: "text_env \<Rightarrow> json \<Rightarrow> bool" where
  "canonical_flow_value_fits_byte_limit env value =
     is_ok (fold_ok ByteLimitWriter_write \<lparr>writer_bytes = 0, writer_exceeded = False\<rparr> (compact_chunks env value))"

definition validate_flow_value_v0 :: "text_env \<Rightarrow> json \<Rightarrow> (unit, FlowValueValidationError) result" where
  "validate_flow_value_v0 env value =
     and_then (validate_at env value 1 0 ''$'') (\<lambda>_.
     ensure (canonical_flow_value_fits_byte_limit env value) BytesExceeded)"

subsection \<open>Canonical integers round trip\<close>

lemma show_int_digits: "parse_i64 (show_int i) = (if in_i64 i then Some i else None)"
proof (cases "i < 0")
  case True
  then show ?thesis by (simp add: show_int_def parse_i64_def)
next
  case False
  then have s: "show_int i = show_nat (nat i)" by (simp add: show_int_def)
  obtain c cs where c: "show_nat (nat i) = c # cs" using show_nat_not_Nil by (meson neq_Nil_conv)
  with show_nat_digits [of "nat i"] have "is_digit c" by simp
  then have "c \<noteq> CHR ''-''" "c \<noteq> CHR ''+''" by (auto simp: is_digit_iff)
  moreover have "parse_nat (c # cs) = Some (nat i)" using parse_show_nat [of "nat i"] c by simp
  ultimately show ?thesis using False by (simp add: s c parse_i64_def)
qed

interpretation i64_text: codec in_i64 show_int i64_decode
proof
  show "in_i64 i \<Longrightarrow> i64_decode (show_int i) = Some i" for i
    by (simp add: i64_decode_def parse_canonical_i64_def show_int_digits)
  show "i64_decode s = Some i \<Longrightarrow> in_i64 i \<and> show_int i = s" for s i
    by (auto simp: i64_decode_def parse_canonical_i64_def parse_i64_def Let_def
        split: result.splits if_splits option.splits prod.splits)
qed

subsection \<open>The grammar of the wire values\<close>

datatype flow =
    FBool bool | FInt int | FString string | FObject string
  | FList "flow list" | FMap "(string \<times> flow) list"

definition wrap :: "string \<Rightarrow> json \<Rightarrow> json" where
  "wrap tag payload = JObject [(''type'', JString tag), (''value'', payload)]"

fun wire :: "flow \<Rightarrow> json" where
  "wire (FBool b) = wrap ''boolean'' (JBool b)"
| "wire (FInt i) = wrap ''integer'' (JString (show_int i))"
| "wire (FString s) = wrap ''string'' (JString s)"
| "wire (FObject d) = wrap ''session-object'' (JString (SESSION_OBJECT_URI_PREFIX @ d))"
| "wire (FList fs) = wrap ''list'' (JArray (map wire fs))"
| "wire (FMap m) = wrap ''map'' (JObject (map (\<lambda>(k, f). (k, wire f)) m))"

fun flow_ok :: "text_env \<Rightarrow> flow \<Rightarrow> bool" where
  "flow_ok env (FBool b) \<longleftrightarrow> True"
| "flow_ok env (FInt i) \<longleftrightarrow> in_i64 i"
| "flow_ok env (FString s) \<longleftrightarrow> is_nfc env s"
| "flow_ok env (FObject d) \<longleftrightarrow> length d = 64 \<and> list_all is_hex d \<and> is_nfc env (SESSION_OBJECT_URI_PREFIX @ d)"
| "flow_ok env (FList fs) \<longleftrightarrow> length fs \<le> 1024 \<and> (\<forall>f \<in> set fs. flow_ok env f)"
| "flow_ok env (FMap m) \<longleftrightarrow> length m \<le> 1024 \<and>
     (\<forall>(k, f) \<in> set m. k \<noteq> [] \<and> chars_count k \<le> 256 \<and> is_nfc env k \<and> flow_ok env f)"

fun flow_nodes :: "flow \<Rightarrow> nat" where
  "flow_nodes (FList fs) = Suc (sum_list (map flow_nodes fs))"
| "flow_nodes (FMap m) = Suc (sum_list (map (\<lambda>(k, f). flow_nodes f) m))"
| "flow_nodes _ = 1"

text \<open>\<open>flow_within d f\<close>: every node of \<open>f\<close> is at most at depth 16 when its root is at depth \<open>d\<close>.\<close>

fun flow_within :: "nat \<Rightarrow> flow \<Rightarrow> bool" where
  "flow_within d (FList fs) \<longleftrightarrow> d \<le> 16 \<and> (\<forall>f \<in> set fs. flow_within (Suc d) f)"
| "flow_within d (FMap m) \<longleftrightarrow> d \<le> 16 \<and> (\<forall>(k, f) \<in> set m. flow_within (Suc d) f)"
| "flow_within d _ \<longleftrightarrow> d \<le> 16"

lemma wrapper_shape:
  assumes "bt_wf m" "length m = 2" "bt_get m ''type'' = Some t" "bt_get m ''value'' = Some p"
  shows "m = [(''type'', t), (''value'', p)]"
proof -
  obtain a b where m: "m = [a, b]" using assms(2) by (cases m; cases "tl m") auto
  have "''type'' < ''value''" by code_simp
  with assms m show ?thesis by (cases a; cases b) (auto simp: bt_get_def bt_wf_def split: if_splits)
qed

lemma leaf_validators:
  "validate_integer v path = Ok u \<longleftrightarrow> (\<exists>i. in_i64 i \<and> v = JString (show_int i))"
  "validate_text env v path = Ok u \<longleftrightarrow> (\<exists>s. v = JString s \<and> is_nfc env s)"
  "validate_session_object env v path = Ok u \<longleftrightarrow>
     (\<exists>d. v = JString (SESSION_OBJECT_URI_PREFIX @ d) \<and> length d = 64 \<and> list_all is_hex d \<and>
        is_nfc env (SESSION_OBJECT_URI_PREFIX @ d))"
proof -
  have "parse_canonical_i64 s = Ok i \<longleftrightarrow> in_i64 i \<and> s = show_int i" for s i
    using i64_text.decode_iff [of s i] by (auto simp: i64_decode_def split: result.splits)
  moreover have "(case r of Ok _ \<Rightarrow> Ok () | Err Invalid \<Rightarrow> Err (IntegerNotDecimal path)
      | Err NonCanonical \<Rightarrow> Err (IntegerNotCanonical path)) = Ok u \<longleftrightarrow> (\<exists>i. r = Ok i)" for r :: "(int, _) result"
    by (cases r) (auto split: CanonicalIntegerError.splits)
  ultimately show "validate_integer v path = Ok u \<longleftrightarrow> (\<exists>i. in_i64 i \<and> v = JString (show_int i))"
    by (auto simp: validate_integer_def)
  show "validate_text env v path = Ok u \<longleftrightarrow> (\<exists>s. v = JString s \<and> is_nfc env s)"
    by (auto simp: validate_text_def validate_nfc_def)
  have "parse_session_object_uri s = Ok d \<longleftrightarrow> length d = 64 \<and> list_all is_hex d \<and> s = SESSION_OBJECT_URI_PREFIX @ d" for s d
    by (auto simp: parse_session_object_uri_def validate_digest_eq_Ok)
  moreover have "(case r of Ok _ \<Rightarrow> Ok () | Err NonCanonicalUri \<Rightarrow> Err (UriNotCanonical path)
      | Err InvalidDigest \<Rightarrow> Err (UriDigestInvalid path)) = Ok u \<longleftrightarrow> (\<exists>d. r = Ok d)" for r :: "(string, _) result"
    by (cases r) (auto split: SessionObjectUriError.splits)
  ultimately show "validate_session_object env v path = Ok u \<longleftrightarrow>
     (\<exists>d. v = JString (SESSION_OBJECT_URI_PREFIX @ d) \<and> length d = 64 \<and> list_all is_hex d \<and>
        is_nfc env (SESSION_OBJECT_URI_PREFIX @ d))"
    by (auto simp: validate_session_object_def validate_nfc_def)
qed

text \<open>The tags are pairwise different, so one lookup decides the kind of a wrapper.\<close>

lemma validate_at_wrap:
  assumes "depth \<le> 16" "nodes < 4096"
  shows "validate_at env (wrap tag payload) depth nodes path =
    (if tag = ''boolean'' then
       (case as_bool payload of Some _ \<Rightarrow> Ok (Suc nodes) | None \<Rightarrow> Err (type_error path ''boolean''))
     else if tag = ''integer'' then and_then (validate_integer payload path) (\<lambda>_. Ok (Suc nodes))
     else if tag = ''string'' then and_then (validate_text env payload path) (\<lambda>_. Ok (Suc nodes))
     else if tag = ''session-object'' then and_then (validate_session_object env payload path) (\<lambda>_. Ok (Suc nodes))
     else if tag = ''list'' then
       (case as_array payload of
          None \<Rightarrow> Err (type_error path ''list'')
        | Some values \<Rightarrow>
            if length values > 1024 then Err (MemberCountExceeded path)
            else validate_values env values 0 depth (Suc nodes) path)
     else if tag = ''map'' then
       (case as_object payload of
          None \<Rightarrow> Err (type_error path ''map'')
        | Some values \<Rightarrow>
            if length values > 1024 then Err (MemberCountExceeded path)
            else validate_fields env values depth (Suc nodes) path)
     else Err (UnrecognizedType path))"
  using assms
  by (subst validate_at.simps, unfold flow_value_bounds)
    (simp add: saturating_add_usize_def usize_max_def wrap_def bt_get_def Let_def cong: if_cong)

lemma validate_at_OkD:
  assumes "validate_at env v depth nodes path = Ok n" "json_wf v"
  shows "depth \<le> 16 \<and> nodes < 4096 \<and> (\<exists>tag payload. v = wrap tag payload \<and> json_wf payload)"
proof -
  from assms(1) have "depth \<le> 16" "nodes < 4096"
    by (subst (asm) validate_at.simps,
        simp add: flow_value_bounds saturating_add_usize_def usize_max_def Let_def split: if_splits)+
  moreover from assms(1) obtain m t p tag where "v = JObject m" "length m = 2" "bt_get m ''type'' = Some t"
    "bt_get m ''value'' = Some p" "t = JString tag"
    by (subst (asm) validate_at.simps) (auto simp: Let_def split: if_splits option.splits prod.splits)
  ultimately show ?thesis using assms(2) wrapper_shape by (fastforce simp: wrap_def)
qed

lemma as_bool_eq_Some: "as_bool v = Some b \<longleftrightarrow> v = JBool b"
  by (cases v) auto

lemma validate_sound:
  "validate_at env v depth nodes path = Ok n \<Longrightarrow> json_wf v \<Longrightarrow>
     \<exists>f. v = wire f \<and> flow_ok env f \<and> flow_within depth f \<and> n = nodes + flow_nodes f \<and> n \<le> 4096"
  "validate_values env vs index depth nodes path = Ok n \<Longrightarrow> (\<forall>v \<in> set vs. json_wf v) \<Longrightarrow> nodes \<le> 4096 \<Longrightarrow>
     \<exists>fs. vs = map wire fs \<and> (\<forall>f \<in> set fs. flow_ok env f \<and> flow_within (Suc depth) f) \<and>
       n = nodes + sum_list (map flow_nodes fs) \<and> n \<le> 4096"
  "validate_fields env m depth nodes path = Ok n \<Longrightarrow> (\<forall>(k, v) \<in> set m. json_wf v) \<Longrightarrow> nodes \<le> 4096 \<Longrightarrow>
     \<exists>fs. m = map (\<lambda>(k, f). (k, wire f)) fs \<and>
       (\<forall>(k, f) \<in> set fs. k \<noteq> [] \<and> chars_count k \<le> 256 \<and> is_nfc env k \<and> flow_ok env f \<and> flow_within (Suc depth) f) \<and>
       n = nodes + sum_list (map (\<lambda>(k, f). flow_nodes f) fs) \<and> n \<le> 4096"
proof (induction env v depth nodes path and env vs index depth nodes path and env m depth nodes path
    arbitrary: n and n and n rule: validate_at_validate_values_validate_fields.induct)
  case (1 env v depth nodes path)
  from validate_at_OkD [OF 1(3,4)] obtain tag payload
    where b: "depth \<le> 16" "nodes < 4096" and v: "v = wrap tag payload" and wf: "json_wf payload" by blast
  have n1: "saturating_add_usize nodes 1 = Suc nodes" using b(2) by (simp add: saturating_add_usize_def usize_max_def)
  let ?m = "[(''type'', JString tag), (''value'', payload)]"
  have obj: "as_object v = Some ?m" and get: "bt_get ?m ''type'' = Some (JString tag)" "bt_get ?m ''value'' = Some payload"
    and len: "\<not> length ?m \<noteq> 2" and str: "as_str (JString tag) = Some tag"
    and d: "\<not> FLOW_VALUE_MAX_DEPTH_V0 < depth" and c: "\<not> FLOW_VALUE_MAX_NODES_V0 < Suc nodes"
    using b by (simp_all add: v wrap_def bt_get_def flow_value_bounds)
  note ok = 1(3) [unfolded v validate_at_wrap [OF b]]
  consider (bool) x where "v = wire (FBool x)" "n = Suc nodes"
    | (int) i where "v = wire (FInt i)" "in_i64 i" "n = Suc nodes"
    | (str) t where "v = wire (FString t)" "is_nfc env t" "n = Suc nodes"
    | (obj) d where "v = wire (FObject d)" "flow_ok env (FObject d)" "n = Suc nodes"
    | (list) vs where "tag = ''list''" "payload = JArray vs" "length vs \<le> 1024"
        "validate_values env vs 0 depth (Suc nodes) path = Ok n"
    | (map) m where "tag = ''map''" "payload = JObject m" "length m \<le> 1024"
        "validate_fields env m depth (Suc nodes) path = Ok n"
    using ok by (auto simp: v leaf_validators as_bool_eq_Some split: if_splits option.splits)
  then show ?case
  proof cases
    case (bool x)
    with b show ?thesis by (intro exI [of _ "FBool x"]) simp
  next
    case (int i)
    with b show ?thesis by (intro exI [of _ "FInt i"]) simp
  next
    case (str t)
    with b show ?thesis by (intro exI [of _ "FString t"]) simp
  next
    case (obj d)
    with b show ?thesis by (intro exI [of _ "FObject d"]) simp
  next
    case (list vs)
    have "\<exists>fs. vs = map wire fs \<and> (\<forall>f \<in> set fs. flow_ok env f \<and> flow_within (Suc depth) f) \<and>
       n = Suc nodes + sum_list (map flow_nodes fs) \<and> n \<le> 4096"
      by (rule 1(1) [OF d n1 [symmetric] c obj refl get len str]) (use list wf b in \<open>simp_all add: flow_value_bounds\<close>)
    then obtain fs where fs: "vs = map wire fs" "\<forall>f \<in> set fs. flow_ok env f \<and> flow_within (Suc depth) f"
      "n = Suc nodes + sum_list (map flow_nodes fs)" "n \<le> 4096" by blast
    then show ?thesis using list v b by (intro exI [of _ "FList fs"]) simp
  next
    case (map m)
    have "\<exists>fs. m = map (\<lambda>(k, f). (k, wire f)) fs \<and>
       (\<forall>(k, f) \<in> set fs. k \<noteq> [] \<and> chars_count k \<le> 256 \<and> is_nfc env k \<and> flow_ok env f \<and> flow_within (Suc depth) f) \<and>
       n = Suc nodes + sum_list (map (\<lambda>(k, f). flow_nodes f) fs) \<and> n \<le> 4096"
      by (rule 1(2) [OF d n1 [symmetric] c obj refl get len str]) (use map wf b in \<open>simp_all add: flow_value_bounds\<close>)
    then obtain fs where fs: "m = map (\<lambda>(k, f). (k, wire f)) fs"
      "\<forall>(k, f) \<in> set fs. k \<noteq> [] \<and> chars_count k \<le> 256 \<and> is_nfc env k \<and> flow_ok env f \<and> flow_within (Suc depth) f"
      "n = Suc nodes + sum_list (map (\<lambda>(k, f). flow_nodes f) fs)" "n \<le> 4096" by blast
    then show ?thesis using map v b by (intro exI [of _ "FMap fs"]) (auto simp: case_prod_beta)
  qed
next
  case (3 env v vs index depth nodes path)
  from 3(3) obtain n1 where n1: "validate_at env v (depth + 1) nodes (path @ ''['' @ show_nat index @ '']'') = Ok n1"
    "validate_values env vs (index + 1) depth n1 path = Ok n" by auto
  from 3(1) [OF n1(1)] 3(4) obtain f where f: "v = wire f" "flow_ok env f" "flow_within (depth + 1) f"
    "n1 = nodes + flow_nodes f" "n1 \<le> 4096" by auto
  from 3(2) [OF n1(2)] 3(4) f(5) obtain fs where "vs = map wire fs"
    "\<forall>f \<in> set fs. flow_ok env f \<and> flow_within (Suc depth) f" "n = n1 + sum_list (map flow_nodes fs)" "n \<le> 4096" by auto
  with f show ?case by (intro exI [of _ "f # fs"]) simp
next
  case (5 env k v m depth nodes path)
  from 5(3) obtain n1 where n1: "validate_at env v (depth + 1) nodes (path @ ''.'' @ k) = Ok n1"
    "validate_fields env m depth n1 path = Ok n" and k: "k \<noteq> []" "chars_count k \<le> 256" "is_nfc env k"
    by (auto simp: Let_def validate_nfc_def flow_value_bounds split: if_splits)
  have u: "validate_nfc env k (path @ '' key'') = Ok ()" using k by (simp add: validate_nfc_def)
  from 5(1) [OF refl _ n1(1)] 5(4) k obtain f where f: "v = wire f" "flow_ok env f" "flow_within (depth + 1) f"
    "n1 = nodes + flow_nodes f" "n1 \<le> 4096" by (auto simp: flow_value_bounds)
  from 5(2) [OF refl _ n1(2)] 5(4) f(5) k obtain fs where "m = map (\<lambda>(k, f). (k, wire f)) fs"
    "\<forall>(k, f) \<in> set fs. k \<noteq> [] \<and> chars_count k \<le> 256 \<and> is_nfc env k \<and> flow_ok env f \<and> flow_within (Suc depth) f"
    "n = n1 + sum_list (map (\<lambda>(k, f). flow_nodes f) fs)" "n \<le> 4096" by (auto simp: flow_value_bounds)
  with f k show ?case by (intro exI [of _ "(k, f) # fs"]) simp
qed auto

lemma flow_nodes_pos: "0 < flow_nodes f"
  by (cases f) auto

lemma validate_values_complete:
  assumes "\<And>f nodes path. f \<in> set fs \<Longrightarrow> nodes + flow_nodes f \<le> 4096 \<Longrightarrow>
    validate_at env (wire f) (Suc depth) nodes path = Ok (nodes + flow_nodes f)"
    and "nodes + sum_list (map flow_nodes fs) \<le> 4096"
  shows "validate_values env (map wire fs) index depth nodes path = Ok (nodes + sum_list (map flow_nodes fs))"
  using assms by (induction fs arbitrary: nodes index) (simp_all add: add.assoc)

lemma validate_fields_complete:
  assumes "\<And>k f nodes path. (k, f) \<in> set m \<Longrightarrow> nodes + flow_nodes f \<le> 4096 \<Longrightarrow>
    validate_at env (wire f) (Suc depth) nodes path = Ok (nodes + flow_nodes f)"
    and "\<And>k f. (k, f) \<in> set m \<Longrightarrow> k \<noteq> [] \<and> chars_count k \<le> 256 \<and> is_nfc env k"
    and "nodes + sum_list (map (\<lambda>(k, f). flow_nodes f) m) \<le> 4096"
  shows "validate_fields env (map (\<lambda>(k, f). (k, wire f)) m) depth nodes path
    = Ok (nodes + sum_list (map (\<lambda>(k, f). flow_nodes f) m))"
  using assms
proof (induction m arbitrary: nodes)
  case (Cons e m)
  obtain k f where e: "e = (k, f)" by (cases e)
  have k: "k \<noteq> []" "chars_count k \<le> 256" "is_nfc env k" using Cons.prems(2) [of k f] e by auto
  have f: "validate_at env (wire f) (Suc depth) nodes path = Ok (nodes + flow_nodes f)" for path
    using Cons.prems(1) [of k f] Cons.prems(3) e by simp
  have "validate_fields env (map (\<lambda>(k, f). (k, wire f)) m) depth (nodes + flow_nodes f) path
      = Ok (nodes + flow_nodes f + sum_list (map (\<lambda>(k, f). flow_nodes f) m))"
  proof (rule Cons.IH)
    show "validate_at env (wire f) (Suc depth) nodes path = Ok (nodes + flow_nodes f)"
      if "(k, f) \<in> set m" "nodes + flow_nodes f \<le> 4096" for k f nodes path
      using Cons.prems(1) [of k f nodes path] that by simp
    show "k \<noteq> [] \<and> chars_count k \<le> 256 \<and> is_nfc env k" if "(k, f) \<in> set m" for k f
      using Cons.prems(2) [of k f] that by simp
  qed (use Cons.prems(3) e in simp)
  with k f show ?case by (simp add: e Let_def validate_nfc_def ensure_def flow_value_bounds)
qed simp

lemma validate_complete:
  "flow_ok env f \<Longrightarrow> flow_within depth f \<Longrightarrow> nodes + flow_nodes f \<le> 4096 \<Longrightarrow>
   validate_at env (wire f) depth nodes path = Ok (nodes + flow_nodes f)"
proof (induction f arbitrary: depth nodes path)
  case (FList fs)
  have "validate_values env (map wire fs) 0 depth (Suc nodes) path = Ok (Suc nodes + sum_list (map flow_nodes fs))"
    using FList by (intro validate_values_complete) auto
  with FList.prems show ?case by (simp add: validate_at_wrap)
next
  case (FMap m)
  have "validate_fields env (map (\<lambda>(k, f). (k, wire f)) m) depth (Suc nodes) path
      = Ok (Suc nodes + sum_list (map (\<lambda>(k, f). flow_nodes f) m))"
  proof (rule validate_fields_complete)
    fix k f n p assume kf: "(k, f) \<in> set m" and n: "n + flow_nodes f \<le> 4096"
    have "flow_ok env f" "flow_within (Suc depth) f" using FMap.prems(1,2) kf by auto
    then show "validate_at env (wire f) (Suc depth) n p = Ok (n + flow_nodes f)"
      using FMap.IH [OF kf] n by (simp add: prod_set_simps)
  qed (use FMap.prems in auto)
  with FMap.prems show ?case by (simp add: validate_at_wrap)
next
  case (FInt i)
  then have "validate_integer (JString (show_int i)) path = Ok ()" by (auto simp: leaf_validators)
  with FInt.prems show ?case by (simp add: validate_at_wrap)
next
  case (FString s)
  then have "validate_text env (JString s) path = Ok ()" by (auto simp: leaf_validators)
  with FString.prems show ?case by (simp add: validate_at_wrap)
next
  case (FObject d)
  then have "validate_session_object env (JString (SESSION_OBJECT_URI_PREFIX @ d)) path = Ok ()" by (auto simp: leaf_validators)
  with FObject.prems show ?case by (simp add: validate_at_wrap)
qed (simp add: validate_at_wrap)

lemma validate_at_correct:
  assumes "json_wf v"
  shows "validate_at env v depth 0 path = Ok n \<longleftrightarrow>
    (\<exists>f. v = wire f \<and> flow_ok env f \<and> flow_within depth f \<and> n = flow_nodes f \<and> flow_nodes f \<le> 4096)"
  using validate_sound(1) [of env v depth 0 path n, OF _ assms] validate_complete [of env _ depth 0 path] by auto

text \<open>The writer accepts the chunks exactly when their total length is within the limit.\<close>

lemma byte_limit_writer:
  "writer_bytes w \<le> 65536 \<Longrightarrow>
   is_ok (fold_ok ByteLimitWriter_write w chunks) \<longleftrightarrow> writer_bytes w + length (concat chunks) \<le> 65536"
proof (induction chunks arbitrary: w)
  case (Cons c chunks)
  show ?case
  proof (cases "writer_bytes w + length c \<le> 65536")
    case True
    with Cons.IH [of "w\<lparr>writer_bytes := writer_bytes w + length c\<rparr>"] show ?thesis
      by (simp add: ByteLimitWriter_write_def checked_add_usize_def usize_max_def flow_value_bounds add.assoc)
  next
    case False
    then show ?thesis by (simp add: ByteLimitWriter_write_def checked_add_usize_def flow_value_bounds)
  qed
qed simp

text \<open>A valid wire form has no numbers and only normalised text, so its compact text is canonical.\<close>

lemma ascii_nfc: "nfc_ascii env \<Longrightarrow> list_all is_ascii s \<Longrightarrow> is_nfc env s"
  by (simp add: nfc_ascii_def is_nfc_def)

lemma digits_ascii: "list_all is_digit s \<Longrightarrow> list_all is_ascii s"
  by (erule list.pred_mono_strong) (auto simp: is_digit_iff is_ascii_def less_char_def)

lemma show_int_ascii: "list_all is_ascii (show_int i)"
  using digits_ascii [OF show_nat_digits] by (simp add: show_int_def is_ascii_def less_char_def)

lemma ascii_words:
  "list_all is_ascii ''type''" "list_all is_ascii ''value''" "list_all is_ascii ''boolean''"
  "list_all is_ascii ''integer''" "list_all is_ascii ''string''" "list_all is_ascii ''session-object''"
  "list_all is_ascii ''list''" "list_all is_ascii ''map''"
  by (simp_all add: is_ascii_def less_char_def)

lemma all_nfc_wrap: "nfc_ascii env \<Longrightarrow> list_all is_ascii tag \<Longrightarrow> all_nfc env (wrap tag p) = all_nfc env p"
  using ascii_words by (simp add: wrap_def ascii_nfc)

lemma wire_text:
  assumes "nfc_ascii env"
  shows "flow_ok env f \<Longrightarrow> number_free (wire f) \<and> all_nfc env (wire f)"
proof (induction f)
  case (FInt i)
  then show ?case using ascii_words show_int_ascii by (simp add: all_nfc_wrap assms ascii_nfc) (simp add: wrap_def)
next
  case (FMap m)
  have "number_free (wire f) \<and> is_nfc env k \<and> all_nfc env (wire f)" if kf: "(k, f) \<in> set m" for k f
  proof -
    have "flow_ok env f" "is_nfc env k" using FMap.prems kf by auto
    then show ?thesis using FMap.IH [OF kf] by (simp add: prod_set_simps)
  qed
  then have "number_free (JObject (map (\<lambda>(k, f). (k, wire f)) m)) \<and> all_nfc env (JObject (map (\<lambda>(k, f). (k, wire f)) m))"
    by auto
  then show ?case using ascii_words by (simp add: all_nfc_wrap assms) (auto simp: wrap_def)
qed (use ascii_words in \<open>auto simp: all_nfc_wrap assms\<close>, auto simp: wrap_def)

text \<open>
  C21: the validator accepts exactly the wire forms of the grammar within the bounds of the protocol:
  at most 16 levels, at most 4096 nodes, and at most 65536 bytes of canonical JSON. In particular the
  length of the streamed text, which the code measures, is the length of the canonical text.
\<close>

theorem flow_value_validation:
  assumes "json_wf v" "compact_laws env" "nfc_ascii env"
  shows "validate_flow_value_v0 env v = Ok () \<longleftrightarrow>
    (\<exists>f. v = wire f \<and> flow_ok env f \<and> flow_within 1 f \<and> flow_nodes f \<le> 4096 \<and>
       length (render env (normal_form env v)) \<le> 65536)"
proof -
  have fits: "canonical_flow_value_fits_byte_limit env (wire f) \<longleftrightarrow> length (render env (normal_form env v)) \<le> 65536"
    if "v = wire f" "flow_ok env f" for f
  proof -
    have "render env (normal_form env v) = concat (compact_chunks env v)"
      using wire_text [OF assms(3) that(2)] assms(1,2) that(1) by (simp add: compact_text_canonical compact_laws_def)
    with that(1) show ?thesis by (simp add: canonical_flow_value_fits_byte_limit_def byte_limit_writer)
  qed
  show ?thesis
    using fits by (auto simp: validate_flow_value_v0_def validate_at_correct [OF assms(1)])
qed

theorem flow_value_validation_witness:
  "validate_flow_value_v0 plain_env (wire (FMap [(''k'', FList [FInt (- 7), FBool True])])) = Ok ()"
proof -
  let ?f = "FMap [(''k'', FList [FInt (- 7), FBool True])]"
  have "json_wf (wire ?f)" by code_simp
  moreover have "flow_ok plain_env ?f" "flow_within 1 ?f" "flow_nodes ?f \<le> 4096"
    "length (render plain_env (normal_form plain_env (wire ?f))) \<le> 65536" by code_simp+
  ultimately show ?thesis
    using flow_value_validation [OF _ plain_env_laws(3,4), of "wire ?f"] by blast
qed

end
