(* ===== verification/Event.thy ===== *)
theory Event
  imports Metadata Flow_Value
begin

text \<open>
  The event envelope and its validation, \<open>proto/proto/src/event.rs\<close> and
  \<open>proto/proto/src/event/payload.rs\<close>. The fields of \<open>EventEnvelope\<close> carry the prefix \<open>ev_\<close>. A
  validation error is the invalid field and the requirement, as in the code.
\<close>

subsection \<open>Payload tokens\<close>

datatype PhaseKind = Leaf | Composite

definition PhaseKind_ALL :: "PhaseKind list" where "PhaseKind_ALL = [Leaf, Composite]"

primrec PhaseKind_as_str :: "PhaseKind \<Rightarrow> string" where
  "PhaseKind_as_str Leaf = ''leaf''"
| "PhaseKind_as_str Composite = ''composite''"

definition PhaseKind_try_from :: "string \<Rightarrow> PhaseKind option" where
  "PhaseKind_try_from value = find (\<lambda>k. PhaseKind_as_str k = value) PhaseKind_ALL"

datatype ToolKind = PredefinedCommand | OwnScript

definition ToolKind_ALL :: "ToolKind list" where "ToolKind_ALL = [PredefinedCommand, OwnScript]"

primrec ToolKind_as_str :: "ToolKind \<Rightarrow> string" where
  "ToolKind_as_str PredefinedCommand = ''predefined-command''"
| "ToolKind_as_str OwnScript = ''own-script''"

definition ToolKind_try_from :: "string \<Rightarrow> ToolKind option" where
  "ToolKind_try_from value = find (\<lambda>k. ToolKind_as_str k = value) ToolKind_ALL"

interpretation phase_kind: token_enum PhaseKind_ALL PhaseKind_as_str PhaseKind_try_from
proof unfold_locales
  show "x \<in> set PhaseKind_ALL" for x by (cases x) (simp_all add: PhaseKind_ALL_def)
qed (simp_all add: PhaseKind_ALL_def PhaseKind_try_from_def)

interpretation tool_kind: token_enum ToolKind_ALL ToolKind_as_str ToolKind_try_from
proof unfold_locales
  show "x \<in> set ToolKind_ALL" for x by (cases x) (simp_all add: ToolKind_ALL_def)
qed (simp_all add: ToolKind_ALL_def ToolKind_try_from_def)

subsection \<open>Payload validation\<close>

type_synonym payload_map = "(string \<times> json) list"
type_synonym 'a checked = "('a, EventValidationError) result"

definition payload_error :: "string \<Rightarrow> string \<Rightarrow> EventValidationError" where
  "payload_error field requirement = EventValidationError (''payload.'' @ field) requirement"

definition require_string :: "payload_map \<Rightarrow> string \<Rightarrow> string checked" where
  "require_string payload field =
     (case Option.bind (bt_get payload field) as_str of
        Some value \<Rightarrow>
          if value \<noteq> [] then Ok value else Err (payload_error field ''must be a non-empty string'')
      | None \<Rightarrow> Err (payload_error field ''must be a non-empty string''))"

definition contains_key :: "('k, 'v) btree \<Rightarrow> 'k \<Rightarrow> bool" where
  "contains_key m k \<longleftrightarrow> bt_get m k \<noteq> None"

definition optional_string :: "payload_map \<Rightarrow> string \<Rightarrow> unit checked" where
  "optional_string payload field =
     (if contains_key payload field then and_then (require_string payload field) (\<lambda>_. Ok ()) else Ok ())"

definition require_phase_kind :: "payload_map \<Rightarrow> unit checked" where
  "require_phase_kind payload =
     and_then (require_string payload ''phase_kind'') (\<lambda>kind.
     ensure (PhaseKind_try_from kind \<noteq> None) (payload_error ''phase_kind'' ''must be leaf or composite''))"

definition optional_phase_kind :: "payload_map \<Rightarrow> unit checked" where
  "optional_phase_kind payload =
     (if contains_key payload ''phase_kind'' then require_phase_kind payload else Ok ())"

definition require_role :: "payload_map \<Rightarrow> unit checked" where
  "require_role payload =
     and_then (require_string payload ''role'') (\<lambda>role.
     ensure (role \<in> {''system'', ''user'', ''assistant'', ''tool''})
       (payload_error ''role'' ''must be system, user, assistant, or tool''))"

fun all_strings :: "string \<Rightarrow> json list \<Rightarrow> string list checked" where
  "all_strings field [] = Ok []"
| "all_strings field (v # vs) =
     and_then (ok_or (payload_error field ''must contain only strings'') (as_str v)) (\<lambda>s.
     and_then (all_strings field vs) (\<lambda>ss. Ok (s # ss)))"

definition require_string_array :: "payload_map \<Rightarrow> string \<Rightarrow> string list checked" where
  "require_string_array payload field =
     and_then (ok_or (payload_error field ''must be a string array'') (bt_get payload field)) (\<lambda>value.
     and_then (ok_or (payload_error field ''must be a string array'') (as_array value)) (\<lambda>values.
     all_strings field values))"

definition optional_integer :: "payload_map \<Rightarrow> string \<Rightarrow> unit checked" where
  "optional_integer payload field =
     (case bt_get payload field of
        None \<Rightarrow> Ok ()
      | Some value \<Rightarrow>
          ensure (case value of
                    JNumber n \<Rightarrow> number_as_i64 n \<noteq> None \<or> number_as_u64 n \<noteq> None
                  | _ \<Rightarrow> False)
            (payload_error field ''must be an integer''))"

definition require_positive_integer :: "payload_map \<Rightarrow> string \<Rightarrow> unit checked" where
  "require_positive_integer payload field =
     ensure (case Option.bind (bt_get payload field) as_u64 of Some n \<Rightarrow> n > 0 | None \<Rightarrow> False)
       (payload_error field ''must be a positive integer'')"

definition require_number :: "payload_map \<Rightarrow> string \<Rightarrow> unit checked" where
  "require_number payload field =
     ensure (case bt_get payload field of Some v \<Rightarrow> is_number v | None \<Rightarrow> False)
       (payload_error field ''must be a number'')"

definition optional_object :: "payload_map \<Rightarrow> string \<Rightarrow> unit checked" where
  "optional_object payload field =
     (case bt_get payload field of
        Some v \<Rightarrow> if \<not> is_object v then Err (payload_error field ''must be an object'') else Ok ()
      | None \<Rightarrow> Ok ())"

definition require_flow_value :: "text_env \<Rightarrow> payload_map \<Rightarrow> string \<Rightarrow> unit checked" where
  "require_flow_value env payload field =
     ensure (case bt_get payload field of Some v \<Rightarrow> is_ok (validate_flow_value_v0 env v) | None \<Rightarrow> False)
       (payload_error field ''must be a bounded flow-value-v0'')"

text \<open>A checked value that the caller drops.\<close>

definition checked :: "'a checked \<Rightarrow> unit checked" where
  "checked r = and_then r (\<lambda>_. Ok ())"

definition validate_tool_started :: "payload_map \<Rightarrow> unit checked" where
  "validate_tool_started payload =
    (case find (\<lambda>field. field \<notin> {''tool_id'', ''tool_kind'', ''tool_name'', ''allowed_parameters'', ''attempt_id''})
            (map fst payload) of
       Some field \<Rightarrow> Err (EventValidationError (''payload.'' @ field) ''unknown Tool invocation metadata field'')
     | None \<Rightarrow> all_ok
        [optional_string payload ''attempt_id'',
         checked (require_string payload ''tool_id''),
         checked (require_string payload ''tool_name''),
         and_then (require_string payload ''tool_kind'') (\<lambda>kind.
           ensure (ToolKind_try_from kind \<noteq> None)
             (payload_error ''tool_kind'' ''must be predefined-command or own-script'')),
         checked (require_string_array payload ''allowed_parameters'')])"

primrec validate_event_payload :: "text_env \<Rightarrow> payload_map \<Rightarrow> EventType \<Rightarrow> unit checked" where
  "validate_event_payload env m SessionStarted = optional_string m ''reason''"
| "validate_event_payload env m SessionPaused = optional_string m ''reason''"
| "validate_event_payload env m SessionResumed = optional_string m ''reason''"
| "validate_event_payload env m SessionCompleted = optional_string m ''reason''"
| "validate_event_payload env m SessionFailed = checked (require_string m ''reason'')"
| "validate_event_payload env m FlowStarted = all_ok
     [checked (require_string m ''flow_definition_id''), optional_string m ''flow_name'']"
| "validate_event_payload env m FlowCompleted = all_ok
     [checked (require_string m ''flow_definition_id''), optional_string m ''flow_name'']"
| "validate_event_payload env m FlowFailed = all_ok
     [checked (require_string m ''flow_definition_id''), optional_string m ''flow_name'',
      checked (require_string m ''error'')]"
| "validate_event_payload env m PhaseEntered = all_ok
     [checked (require_string m ''phase_id''), checked (require_string m ''phase_name''),
      checked (require_string m ''phase_execution_id''), require_phase_kind m,
      require_positive_integer m ''iteration'', checked (require_string_array m ''instruction_ids''),
      checked (require_string_array m ''tool_ids'')]"
| "validate_event_payload env m PhaseCompleted = all_ok
     [checked (require_string m ''phase_execution_id''), checked (require_string m ''phase_id''),
      optional_phase_kind m, require_positive_integer m ''iteration'', require_flow_value env m ''result'']"
| "validate_event_payload env m PhaseFailed = all_ok
     [checked (require_string m ''phase_execution_id''), checked (require_string m ''phase_id''),
      optional_phase_kind m, require_positive_integer m ''iteration'', checked (require_string m ''error'')]"
| "validate_event_payload env m MessageDelta = all_ok
     [checked (require_string m ''message_id''), require_role m, checked (require_string m ''content_delta'')]"
| "validate_event_payload env m MessageCompleted = all_ok
     [checked (require_string m ''message_id''), require_role m]"
| "validate_event_payload env m ToolStarted = validate_tool_started m"
| "validate_event_payload env m ToolProgress = all_ok
     [optional_string m ''attempt_id'', checked (require_string m ''tool_id''), checked (require_string m ''message'')]"
| "validate_event_payload env m ToolCompleted = all_ok
     [optional_string m ''attempt_id'', checked (require_string m ''tool_id''), optional_integer m ''exit_code'']"
| "validate_event_payload env m ToolFailed = all_ok
     [optional_string m ''attempt_id'', checked (require_string m ''tool_id''), checked (require_string m ''error'')]"
| "validate_event_payload env m ToolTimedOut = all_ok
     [optional_string m ''attempt_id'', checked (require_string m ''tool_id''), checked (require_string m ''error'')]"
| "validate_event_payload env m ArtifactLogged = all_ok
     [checked (require_string m ''artifact_id''), checked (require_string m ''artifact_type''),
      checked (require_string m ''uri'')]"
| "validate_event_payload env m AttentionRequested = all_ok
     [checked (require_string m ''request_id''), checked (require_string m ''reason'')]"
| "validate_event_payload env m MetricSample = all_ok
     [checked (require_string m ''metric_name''), require_number m ''value'']"
| "validate_event_payload env m Error = all_ok
     [checked (require_string m ''code''), checked (require_string m ''message''), optional_object m ''data'']"

subsection \<open>The envelope\<close>

definition PROTOCOL_VERSION_V0 :: string where "PROTOCOL_VERSION_V0 = ''0''"

definition JSON_NESTING_REQUIREMENT_V0 :: string where
  "JSON_NESTING_REQUIREMENT_V0 = ''must stay below the protocol v0 JSON nesting limit''"

record EventEnvelope =
  ev_additional_fields :: "(string, json) btree"
  ev_correlation_id :: "string option"
  ev_event_id :: string
  ev_event_type :: EventType
  ev_flow_id :: "string option"
  ev_parent_flow_id :: "string option"
  ev_payload :: json
  ev_protocol_version :: string
  ev_sequence :: nat
  ev_session_id :: string
  ev_source :: string
  ev_timestamp :: string

definition is_reserved_envelope_field :: "string \<Rightarrow> bool" where
  "is_reserved_envelope_field field \<longleftrightarrow> field \<in>
     {''correlation_id'', ''event_id'', ''event_type'', ''flow_id'', ''parent_flow_id'', ''payload'',
      ''protocol_version'', ''sequence'', ''session_id'', ''source'', ''timestamp''}"

text \<open>The location of the first null, and of the first text that is not normalised.\<close>

fun first_some :: "('a \<Rightarrow> 'b option) \<Rightarrow> 'a list \<Rightarrow> 'b option" where
  "first_some f [] = None"
| "first_some f (x # xs) = (case f x of None \<Rightarrow> first_some f xs | Some y \<Rightarrow> Some y)"

lemma first_some_cong [fundef_cong]:
  "xs = ys \<Longrightarrow> (\<And>x. x \<in> set ys \<Longrightarrow> f x = g x) \<Longrightarrow> first_some f xs = first_some g ys"
  by (induction xs arbitrary: ys) (auto split: option.splits)

lemma first_some_eq_None: "first_some f xs = None \<longleftrightarrow> (\<forall>x \<in> set xs. f x = None)"
  by (induction xs) (auto split: option.splits)

definition index_location :: "string \<Rightarrow> nat \<Rightarrow> string" where
  "index_location location index = location @ ''['' @ show_nat index @ '']''"

definition field_location :: "string \<Rightarrow> string \<Rightarrow> string" where
  "field_location location field = location @ ''.'' @ field"

lemma enumerate_snd_mem: "(i, v) \<in> set (enumerate n xs) \<Longrightarrow> v \<in> set xs"
  by (metis in_set_zip enumerate_eq_zip nth_mem snd_conv)

lemma json_size_enumerate [termination_simp]: "(i, v) \<in> set (enumerate n vs) \<Longrightarrow> size v < Suc (size_list size vs)"
  by (rule json_size_array) (rule enumerate_snd_mem)

fun null_location :: "json \<Rightarrow> string \<Rightarrow> string option" where
  "null_location JNull location = Some location"
| "null_location (JArray values) location =
     first_some (\<lambda>(index, value). null_location value (index_location location index)) (enumerate 0 values)"
| "null_location (JObject values) location =
     first_some (\<lambda>(field, value). null_location value (field_location location field)) values"
| "null_location _ location = None"

fun non_nfc_location :: "text_env \<Rightarrow> json \<Rightarrow> string \<Rightarrow> string option" where
  "non_nfc_location env (JString value) location = (if \<not> is_nfc env value then Some location else None)"
| "non_nfc_location env (JArray values) location =
     first_some (\<lambda>(index, value). non_nfc_location env value (index_location location index)) (enumerate 0 values)"
| "non_nfc_location env (JObject values) location =
     first_some (\<lambda>(key, value).
       if \<not> is_nfc env key then Some (field_location location key)
       else non_nfc_location env value (field_location location key)) values"
| "non_nfc_location env _ location = None"

datatype EventMetadataError = EventMetadataError (metadata_field: string) (metadata_requirement: string)

definition validate_metadata :: "EventEnvelope \<Rightarrow> (unit, EventMetadataError) result" where
  "validate_metadata e =
    (if ev_sequence e = 0 then Err (EventMetadataError ''sequence'' ''must be one-based'')
     else if \<not> is_valid_session_id (ev_session_id e)
       then Err (EventMetadataError ''session_id'' ''must be a lowercase path-safe token'')
     else if ev_event_id e = [] then Err (EventMetadataError ''event_id'' ''must be non-empty'')
     else if ev_source e = [] then Err (EventMetadataError ''source'' ''must be non-empty'')
     else if parse_rfc3339_utc_timestamp (ev_timestamp e) = None
       then Err (EventMetadataError ''timestamp'' ''must be a canonical RFC 3339 UTC timestamp ending in `Z`'')
     else if ev_correlation_id e = Some []
       then Err (EventMetadataError ''correlation_id'' ''must be non-empty when present'')
     else if ev_flow_id e = Some [] then Err (EventMetadataError ''flow_id'' ''must be non-empty when present'')
     else if ev_parent_flow_id e = Some []
       then Err (EventMetadataError ''parent_flow_id'' ''must be non-empty when present'')
     else Ok ())"

fun from_metadata_error :: "EventMetadataError \<Rightarrow> EventValidationError" where
  "from_metadata_error (EventMetadataError field requirement) = EventValidationError field requirement"

definition validate_v0 :: "text_env \<Rightarrow> EventEnvelope \<Rightarrow> unit checked" where
  "validate_v0 env e =
     and_then (map_err from_metadata_error (validate_metadata e)) (\<lambda>_.
     and_then (ensure (\<not> (ev_parent_flow_id e \<noteq> None \<and> ev_flow_id e = None))
       (EventValidationError ''parent_flow_id'' ''requires flow_id'')) (\<lambda>_.
     and_then (ensure (\<not> (requires_flow_id (ev_event_type e) \<and> ev_flow_id e = None))
       (EventValidationError ''flow_id'' ''is required for flow-scoped events'')) (\<lambda>_.
     and_then (ok_or (EventValidationError ''payload'' ''must be a JSON object'') (as_object (ev_payload e))) (\<lambda>payload.
     and_then (ensure (ev_protocol_version e = PROTOCOL_VERSION_V0)
       (EventValidationError ''protocol_version''
          (''must be '' @ [CHR 0x22] @ ''0'' @ [CHR 0x22] @ '' (unsupported protocol_version)''))) (\<lambda>_.
     and_then (case find is_reserved_envelope_field (map fst (ev_additional_fields e)) of
         Some field \<Rightarrow> Err (EventValidationError (''additional field '' @ debug_str env field) ''collides with an envelope field'')
       | None \<Rightarrow> Ok ()) (\<lambda>_.
     and_then (ensure (\<not> json_nesting_reaches_limit (ev_payload e) 1)
       (EventValidationError ''payload'' JSON_NESTING_REQUIREMENT_V0)) (\<lambda>_.
     and_then (each_ok (\<lambda>(field, value).
         ensure (\<not> json_nesting_reaches_limit value 1) (EventValidationError field JSON_NESTING_REQUIREMENT_V0))
       (ev_additional_fields e)) (\<lambda>_.
     and_then (case null_location (ev_payload e) ''payload'' of
         Some field \<Rightarrow> Err (EventValidationError field ''must not be null in protocol v0'')
       | None \<Rightarrow> Ok ()) (\<lambda>_.
     and_then (each_ok (\<lambda>(field, value).
         case null_location value field of
           Some field \<Rightarrow> Err (EventValidationError field ''must not be null in protocol v0'')
         | None \<Rightarrow> Ok ()) (ev_additional_fields e)) (\<lambda>_.
     and_then (each_ok (\<lambda>(field, value).
         if \<not> is_nfc env field then Err (EventValidationError field ''must use NFC'')
         else case non_nfc_location env value field of
           Some location \<Rightarrow> Err (EventValidationError location ''must use NFC'')
         | None \<Rightarrow> Ok ()) (ev_additional_fields e)) (\<lambda>_.
     validate_event_payload env payload (ev_event_type e))))))))))))"

text \<open>The constructor normalises its texts; a payload nested too deeply is left as it is.\<close>

definition EventEnvelope_new :: "text_env \<Rightarrow> string \<Rightarrow> EventType \<Rightarrow> string \<Rightarrow> nat \<Rightarrow> string \<Rightarrow> string \<Rightarrow> json \<Rightarrow> EventEnvelope" where
  "EventEnvelope_new env event_id event_type session_id sequence timestamp source payload =
     \<lparr> ev_additional_fields = [],
       ev_correlation_id = None,
       ev_event_id = nfc_string env event_id,
       ev_event_type = event_type,
       ev_flow_id = None,
       ev_parent_flow_id = None,
       ev_payload = (if json_nesting_reaches_limit payload 1 then payload else nfc_json_string_values env payload),
       ev_protocol_version = PROTOCOL_VERSION_V0,
       ev_sequence = sequence,
       ev_session_id = nfc_string env session_id,
       ev_source = nfc_string env source,
       ev_timestamp = nfc_string env timestamp \<rparr>"

subsection \<open>Serialisation\<close>

definition optional_entry :: "string \<Rightarrow> string option \<Rightarrow> (string \<times> json) list" where
  "optional_entry field value = (case value of None \<Rightarrow> [] | Some s \<Rightarrow> [(field, JString s)])"

text \<open>The entries in the order the serializer writes them, and the ordered map they build.\<close>

definition serialize_fields :: "EventEnvelope \<Rightarrow> (string \<times> json) list" where
  "serialize_fields e =
     ev_additional_fields e @
     optional_entry ''correlation_id'' (ev_correlation_id e) @
     [(''event_id'', JString (ev_event_id e)),
      (''event_type'', JString (EventType_as_str (ev_event_type e)))] @
     optional_entry ''flow_id'' (ev_flow_id e) @
     optional_entry ''parent_flow_id'' (ev_parent_flow_id e) @
     [(''payload'', ev_payload e),
      (''protocol_version'', JString (ev_protocol_version e)),
      (''sequence'', JNumber (PosInt (ev_sequence e))),
      (''session_id'', JString (ev_session_id e)),
      (''source'', JString (ev_source e)),
      (''timestamp'', JString (ev_timestamp e))]"

definition build_map :: "(string \<times> json) list \<Rightarrow> (string, json) btree" where
  "build_map entries = foldl (\<lambda>m e. bt_insert (fst e) (snd e) m) [] entries"

definition to_value :: "EventEnvelope \<Rightarrow> json" where
  "to_value e = JObject (build_map (serialize_fields e))"

definition canonical_jsonl :: "text_env \<Rightarrow> EventEnvelope \<Rightarrow> (string, CanonicalJsonError) result" where
  "canonical_jsonl env e =
     and_then (ensure (is_object (ev_payload e)) NonObjectPayload) (\<lambda>_.
     and_then (ensure (ev_protocol_version e = PROTOCOL_VERSION_V0) (UnsupportedProtocolVersion (ev_protocol_version e))) (\<lambda>_.
     and_then (map_err InvalidEvent (validate_v0 env e)) (\<lambda>_.
     and_then (canonical_json env (to_value e)) (\<lambda>out.
     Ok (out @ [CHR 0x0A])))))"

subsection \<open>Deserialisation\<close>

datatype DeserializeError =
    NotAnObject
  | MissingField string
  | WrongType string
  | UnknownEvent UnknownEventType
  | PayloadNotObject
  | NullOptional string
  | UnsupportedVersion string
  | InvalidEnvelope EventValidationError

definition present_field :: "(string \<Rightarrow> json \<Rightarrow> ('a, DeserializeError) result) \<Rightarrow> (string, json) btree \<Rightarrow> string \<Rightarrow>
    ('a option, DeserializeError) result" where
  "present_field read m field =
     (case bt_get m field of
        None \<Rightarrow> Ok None
      | Some v \<Rightarrow> and_then (read field v) (\<lambda>x. Ok (Some x)))"

definition read_string :: "string \<Rightarrow> json \<Rightarrow> (string, DeserializeError) result" where
  "read_string field v = ok_or (WrongType field) (as_str v)"

definition deserialize_present_optional :: "string \<Rightarrow> json \<Rightarrow> (string, DeserializeError) result" where
  "deserialize_present_optional field v = (if v = JNull then Err (NullOptional field) else read_string field v)"

definition read_event_type :: "string \<Rightarrow> json \<Rightarrow> (EventType, DeserializeError) result" where
  "read_event_type field v =
     and_then (read_string field v) (\<lambda>s. map_err UnknownEvent (EventType_try_from s))"

definition deserialize_payload_object :: "string \<Rightarrow> json \<Rightarrow> (json, DeserializeError) result" where
  "deserialize_payload_object field v = (if is_object v then Ok v else Err PayloadNotObject)"

definition deserialize_protocol_version_v0 :: "string \<Rightarrow> json \<Rightarrow> (string, DeserializeError) result" where
  "deserialize_protocol_version_v0 field v =
     and_then (read_string field v) (\<lambda>s. if s = PROTOCOL_VERSION_V0 then Ok s else Err (UnsupportedVersion s))"

definition read_u64 :: "string \<Rightarrow> json \<Rightarrow> (nat, DeserializeError) result" where
  "read_u64 field v = ok_or (WrongType field) (as_u64 v)"

text \<open>
  The derived deserializer visits the entries in key order, reads the known fields and keeps the
  others; afterwards it asks for the required fields in the order of the declaration.
\<close>

definition UncheckedEventEnvelope_deserialize :: "json \<Rightarrow> (EventEnvelope, DeserializeError) result" where
  "UncheckedEventEnvelope_deserialize value =
     and_then (ok_or NotAnObject (as_object value)) (\<lambda>m.
     and_then (present_field deserialize_present_optional m ''correlation_id'') (\<lambda>correlation_id.
     and_then (present_field read_string m ''event_id'') (\<lambda>event_id.
     and_then (present_field read_event_type m ''event_type'') (\<lambda>event_type.
     and_then (present_field deserialize_present_optional m ''flow_id'') (\<lambda>flow_id.
     and_then (present_field deserialize_present_optional m ''parent_flow_id'') (\<lambda>parent_flow_id.
     and_then (present_field deserialize_payload_object m ''payload'') (\<lambda>payload.
     and_then (present_field deserialize_protocol_version_v0 m ''protocol_version'') (\<lambda>protocol_version.
     and_then (present_field read_u64 m ''sequence'') (\<lambda>sequence.
     and_then (present_field read_string m ''session_id'') (\<lambda>session_id.
     and_then (present_field read_string m ''source'') (\<lambda>source.
     and_then (present_field read_string m ''timestamp'') (\<lambda>timestamp.
     and_then (ok_or (MissingField ''event_id'') event_id) (\<lambda>event_id.
     and_then (ok_or (MissingField ''event_type'') event_type) (\<lambda>event_type.
     and_then (ok_or (MissingField ''payload'') payload) (\<lambda>payload.
     and_then (ok_or (MissingField ''protocol_version'') protocol_version) (\<lambda>protocol_version.
     and_then (ok_or (MissingField ''sequence'') sequence) (\<lambda>sequence.
     and_then (ok_or (MissingField ''session_id'') session_id) (\<lambda>session_id.
     and_then (ok_or (MissingField ''source'') source) (\<lambda>source.
     and_then (ok_or (MissingField ''timestamp'') timestamp) (\<lambda>timestamp.
     Ok \<lparr> ev_additional_fields = filter (\<lambda>e. \<not> is_reserved_envelope_field (fst e)) m,
          ev_correlation_id = correlation_id, ev_event_id = event_id, ev_event_type = event_type,
          ev_flow_id = flow_id, ev_parent_flow_id = parent_flow_id, ev_payload = payload,
          ev_protocol_version = protocol_version, ev_sequence = sequence, ev_session_id = session_id,
          ev_source = source, ev_timestamp = timestamp \<rparr>))))))))))))))))))))"

definition normalize_envelope :: "text_env \<Rightarrow> EventEnvelope \<Rightarrow> EventEnvelope" where
  "normalize_envelope env v = v
     \<lparr> ev_correlation_id := map_option (nfc_string env) (ev_correlation_id v),
       ev_event_id := nfc_string env (ev_event_id v),
       ev_flow_id := map_option (nfc_string env) (ev_flow_id v),
       ev_parent_flow_id := map_option (nfc_string env) (ev_parent_flow_id v),
       ev_payload := nfc_json_string_values env (ev_payload v),
       ev_protocol_version := nfc_string env (ev_protocol_version v),
       ev_session_id := nfc_string env (ev_session_id v),
       ev_source := nfc_string env (ev_source v),
       ev_timestamp := nfc_string env (ev_timestamp v) \<rparr>"

definition EventEnvelope_try_from :: "text_env \<Rightarrow> EventEnvelope \<Rightarrow> EventEnvelope checked" where
  "EventEnvelope_try_from env v =
     (let event = normalize_envelope env v in and_then (validate_v0 env event) (\<lambda>_. Ok event))"

definition EventEnvelope_deserialize :: "text_env \<Rightarrow> json \<Rightarrow> (EventEnvelope, DeserializeError) result" where
  "EventEnvelope_deserialize env value =
     and_then (UncheckedEventEnvelope_deserialize value) (\<lambda>unchecked.
     map_err InvalidEnvelope (EventEnvelope_try_from env unchecked))"

subsection \<open>State identifiers\<close>

datatype EventStateIdentifierKind =
    EventIdentifier | FlowIdentifier | ParentFlowIdentifier | FlowDefinitionIdentifier
  | PhaseExecutionIdentifier | PhaseIdentifier | ToolIdentifier | AttemptIdentifier | MessageIdentifier

definition MAX_EVENT_STATE_IDENTIFIERS_V0 :: nat where "MAX_EVENT_STATE_IDENTIFIERS_V0 = 5"
definition MAX_EVENT_PAYLOAD_STATE_IDENTIFIERS_V0 :: nat where "MAX_EVENT_PAYLOAD_STATE_IDENTIFIERS_V0 = 2"

definition state_identifier_fields :: "EventType \<Rightarrow> (EventStateIdentifierKind \<times> string) list" where
  "state_identifier_fields event_type =
    (if event_type \<in> {FlowStarted, FlowCompleted, FlowFailed}
       then [(FlowDefinitionIdentifier, ''flow_definition_id'')]
     else if event_type \<in> {PhaseEntered, PhaseCompleted, PhaseFailed}
       then [(PhaseExecutionIdentifier, ''phase_execution_id''), (PhaseIdentifier, ''phase_id'')]
     else if event_type \<in> {MessageDelta, MessageCompleted} then [(MessageIdentifier, ''message_id'')]
     else if event_type \<in> {ToolStarted, ToolProgress, ToolCompleted, ToolFailed, ToolTimedOut}
       then [(ToolIdentifier, ''tool_id''), (AttemptIdentifier, ''attempt_id'')]
     else [])"

text \<open>The identifiers an event exposes, in the order of the visit.\<close>

definition payload_state_identifiers :: "EventEnvelope \<Rightarrow> (EventStateIdentifierKind \<times> string) list" where
  "payload_state_identifiers e =
    (case as_object (ev_payload e) of
       None \<Rightarrow> []
     | Some payload \<Rightarrow>
         List.map_filter (\<lambda>(kind, field).
           map_option (\<lambda>value. (kind, value)) (Option.bind (bt_get payload field) as_str))
           (state_identifier_fields (ev_event_type e)))"

definition state_identifiers :: "EventEnvelope \<Rightarrow> (EventStateIdentifierKind \<times> string) list" where
  "state_identifiers e =
     [(EventIdentifier, ev_event_id e)] @
     (case ev_flow_id e of None \<Rightarrow> [] | Some value \<Rightarrow> [(FlowIdentifier, value)]) @
     (case ev_parent_flow_id e of None \<Rightarrow> [] | Some value \<Rightarrow> [(ParentFlowIdentifier, value)]) @
     payload_state_identifiers e"

definition try_for_each_state_identifier :: "EventEnvelope \<Rightarrow> (EventStateIdentifierKind \<Rightarrow> string \<Rightarrow> (unit, 'e) result) \<Rightarrow> (unit, 'e) result" where
  "try_for_each_state_identifier e visit = each_ok (\<lambda>(kind, value). visit kind value) (state_identifiers e)"

text \<open>The mutable visit: the visitor may replace each identifier.\<close>

definition visit_option :: "(string \<Rightarrow> (string, 'e) result) \<Rightarrow> string option \<Rightarrow> (string option, 'e) result" where
  "visit_option f value = (case value of None \<Rightarrow> Ok None | Some s \<Rightarrow> and_then (f s) (\<lambda>t. Ok (Some t)))"

definition visit_payload :: "(EventStateIdentifierKind \<Rightarrow> string \<Rightarrow> (string, 'e) result) \<Rightarrow> EventType \<Rightarrow> json \<Rightarrow> (json, 'e) result" where
  "visit_payload visit event_type payload =
    (case as_object payload of
       None \<Rightarrow> Ok payload
     | Some m \<Rightarrow>
         and_then (fold_ok (\<lambda>m (kind, field).
             case bt_get m field of
               Some (JString value) \<Rightarrow> and_then (visit kind value) (\<lambda>t. Ok (bt_insert field (JString t) m))
             | _ \<Rightarrow> Ok m) m (state_identifier_fields event_type))
           (\<lambda>m. Ok (JObject m)))"

definition try_for_each_state_identifier_mut ::
    "EventEnvelope \<Rightarrow> (EventStateIdentifierKind \<Rightarrow> string \<Rightarrow> (string, 'e) result) \<Rightarrow> (EventEnvelope, 'e) result" where
  "try_for_each_state_identifier_mut e visit =
     and_then (visit EventIdentifier (ev_event_id e)) (\<lambda>event_id.
     and_then (visit_option (visit FlowIdentifier) (ev_flow_id e)) (\<lambda>flow_id.
     and_then (visit_option (visit ParentFlowIdentifier) (ev_parent_flow_id e)) (\<lambda>parent_flow_id.
     and_then (visit_payload visit (ev_event_type e) (ev_payload e)) (\<lambda>payload.
     Ok (e\<lparr>ev_event_id := event_id, ev_flow_id := flow_id, ev_parent_flow_id := parent_flow_id, ev_payload := payload\<rparr>)))))"

subsection \<open>Correctness of the envelope\<close>

lemma validate_v0_OkD:
  assumes "validate_v0 env e = Ok ()"
  shows "validate_metadata e = Ok ()" "ev_parent_flow_id e \<noteq> None \<longrightarrow> ev_flow_id e \<noteq> None"
    "requires_flow_id (ev_event_type e) \<longrightarrow> ev_flow_id e \<noteq> None"
    "\<exists>m. ev_payload e = JObject m \<and> validate_event_payload env m (ev_event_type e) = Ok ()"
    "ev_protocol_version e = PROTOCOL_VERSION_V0"
    "\<forall>field \<in> fst ` set (ev_additional_fields e). \<not> is_reserved_envelope_field field"
    "\<not> json_nesting_reaches_limit (ev_payload e) 1"
    "\<forall>(field, v) \<in> set (ev_additional_fields e). \<not> json_nesting_reaches_limit v 1"
    "null_location (ev_payload e) ''payload'' = None"
    "\<forall>(field, v) \<in> set (ev_additional_fields e). null_location v field = None \<and> is_nfc env field"
proof -
  from assms show "validate_metadata e = Ok ()" "ev_parent_flow_id e \<noteq> None \<longrightarrow> ev_flow_id e \<noteq> None"
    "requires_flow_id (ev_event_type e) \<longrightarrow> ev_flow_id e \<noteq> None"
    "\<exists>m. ev_payload e = JObject m \<and> validate_event_payload env m (ev_event_type e) = Ok ()"
    "ev_protocol_version e = PROTOCOL_VERSION_V0" "\<not> json_nesting_reaches_limit (ev_payload e) 1"
    "null_location (ev_payload e) ''payload'' = None"
    by (auto simp: validate_v0_def split: option.splits)
  from assms have "find is_reserved_envelope_field (map fst (ev_additional_fields e)) = None"
    by (auto simp: validate_v0_def split: option.splits)
  then show "\<forall>field \<in> fst ` set (ev_additional_fields e). \<not> is_reserved_envelope_field field"
    by (simp add: find_None_iff)
  from assms show "\<forall>(field, v) \<in> set (ev_additional_fields e). \<not> json_nesting_reaches_limit v 1"
    by (fastforce simp: validate_v0_def)
  have "\<forall>(field, v) \<in> set (ev_additional_fields e). null_location v field = None"
    using assms by (fastforce simp: validate_v0_def split: option.splits)
  moreover have "\<forall>(field, v) \<in> set (ev_additional_fields e). is_nfc env field"
    using assms by (fastforce simp: validate_v0_def split: option.splits if_splits)
  ultimately show "\<forall>(field, v) \<in> set (ev_additional_fields e). null_location v field = None \<and> is_nfc env field"
    by blast
qed

text \<open>What the ordered map of the serialised fields holds.\<close>

lemma bt_wf_build_map [simp]: "bt_wf (build_map es)"
  unfolding build_map_def by (rule bt.wf_build) simp

lemma bt_get_build_map: "bt_get (build_map es) = map_of (rev es)"
  unfolding build_map_def by (simp add: bt.get_build) (simp add: bt_get_def fun_eq_iff map_add_def split: option.splits)

lemma map_of_rev_distinct:
  assumes "distinct (map fst xs)"
  shows "map_of (rev xs) = map_of xs"
proof (rule ext)
  fix k
  have "map_of (rev xs) k = Some y \<longleftrightarrow> map_of xs k = Some y" for y
    using assms by (simp add: rev_map [symmetric])
  then show "map_of (rev xs) k = map_of xs k" by (metis not_None_eq)
qed

definition fixed_fields :: "EventEnvelope \<Rightarrow> (string \<times> json) list" where
  "fixed_fields e =
     optional_entry ''correlation_id'' (ev_correlation_id e) @
     [(''event_id'', JString (ev_event_id e)),
      (''event_type'', JString (EventType_as_str (ev_event_type e)))] @
     optional_entry ''flow_id'' (ev_flow_id e) @
     optional_entry ''parent_flow_id'' (ev_parent_flow_id e) @
     [(''payload'', ev_payload e),
      (''protocol_version'', JString (ev_protocol_version e)),
      (''sequence'', JNumber (PosInt (ev_sequence e))),
      (''session_id'', JString (ev_session_id e)),
      (''source'', JString (ev_source e)),
      (''timestamp'', JString (ev_timestamp e))]"

lemma serialize_fields_split: "serialize_fields e = ev_additional_fields e @ fixed_fields e"
  by (simp add: serialize_fields_def fixed_fields_def)

lemma fixed_fields_reserved: "k \<in> fst ` set (fixed_fields e) \<Longrightarrow> is_reserved_envelope_field k"
  by (auto simp: fixed_fields_def optional_entry_def is_reserved_envelope_field_def split: option.splits)

lemma fixed_fields_values:
  "map_of (rev (fixed_fields e)) ''correlation_id'' = map_option JString (ev_correlation_id e)"
  "map_of (rev (fixed_fields e)) ''event_id'' = Some (JString (ev_event_id e))"
  "map_of (rev (fixed_fields e)) ''event_type'' = Some (JString (EventType_as_str (ev_event_type e)))"
  "map_of (rev (fixed_fields e)) ''flow_id'' = map_option JString (ev_flow_id e)"
  "map_of (rev (fixed_fields e)) ''parent_flow_id'' = map_option JString (ev_parent_flow_id e)"
  "map_of (rev (fixed_fields e)) ''payload'' = Some (ev_payload e)"
  "map_of (rev (fixed_fields e)) ''protocol_version'' = Some (JString (ev_protocol_version e))"
  "map_of (rev (fixed_fields e)) ''sequence'' = Some (JNumber (PosInt (ev_sequence e)))"
  "map_of (rev (fixed_fields e)) ''session_id'' = Some (JString (ev_session_id e))"
  "map_of (rev (fixed_fields e)) ''source'' = Some (JString (ev_source e))"
  "map_of (rev (fixed_fields e)) ''timestamp'' = Some (JString (ev_timestamp e))"
  by (cases "ev_correlation_id e"; cases "ev_flow_id e"; cases "ev_parent_flow_id e";
      simp add: fixed_fields_def optional_entry_def)+

lemma to_value_get:
  assumes "\<forall>field \<in> fst ` set (ev_additional_fields e). \<not> is_reserved_envelope_field field" "bt_wf (ev_additional_fields e)"
  shows "is_reserved_envelope_field k \<Longrightarrow> bt_get (build_map (serialize_fields e)) k = map_of (rev (fixed_fields e)) k"
    and "\<not> is_reserved_envelope_field k \<Longrightarrow> bt_get (build_map (serialize_fields e)) k = bt_get (ev_additional_fields e) k"
proof -
  have get: "bt_get (build_map (serialize_fields e)) k
    = (case map_of (rev (fixed_fields e)) k of Some v \<Rightarrow> Some v | None \<Rightarrow> map_of (rev (ev_additional_fields e)) k)"
    by (simp add: bt_get_build_map serialize_fields_split map_add_def)
  have rev: "map_of (rev (ev_additional_fields e)) = map_of (ev_additional_fields e)"
    by (rule map_of_rev_distinct) (simp add: bt_wf_distinct [OF assms(2)])
  have "is_reserved_envelope_field k \<Longrightarrow> map_of (ev_additional_fields e) k = None"
    using assms(1) by (auto simp: map_of_eq_None_iff)
  then show "is_reserved_envelope_field k \<Longrightarrow> bt_get (build_map (serialize_fields e)) k = map_of (rev (fixed_fields e)) k"
    by (simp add: get rev split: option.splits)
  have "\<not> is_reserved_envelope_field k \<Longrightarrow> map_of (rev (fixed_fields e)) k = None"
    using fixed_fields_reserved [of k e] by (auto simp: map_of_eq_None_iff)
  then show "\<not> is_reserved_envelope_field k \<Longrightarrow> bt_get (build_map (serialize_fields e)) k = bt_get (ev_additional_fields e) k"
    by (simp add: get rev) (simp add: bt_get_def)
qed

lemma additional_fields_recovered:
  assumes "\<forall>field \<in> fst ` set (ev_additional_fields e). \<not> is_reserved_envelope_field field" "bt_wf (ev_additional_fields e)"
  shows "filter (\<lambda>e. \<not> is_reserved_envelope_field (fst e)) (build_map (serialize_fields e)) = ev_additional_fields e"
proof (rule bt_eqI)
  show "bt_wf (filter (\<lambda>e. \<not> is_reserved_envelope_field (fst e)) (build_map (serialize_fields e)))" by (rule bt_wf_filter) simp
  show "bt_get (filter (\<lambda>e. \<not> is_reserved_envelope_field (fst e)) (build_map (serialize_fields e))) = bt_get (ev_additional_fields e)"
  proof
    fix k
    show "bt_get (filter (\<lambda>e. \<not> is_reserved_envelope_field (fst e)) (build_map (serialize_fields e))) k = bt_get (ev_additional_fields e) k"
    proof (cases "is_reserved_envelope_field k")
      case True
      then have "bt_get (ev_additional_fields e) k = None" using assms(1) by (auto simp: bt_get_None)
      with True show ?thesis by (simp add: bt_get_filter [of "\<lambda>k. \<not> is_reserved_envelope_field k"])
    next
      case False
      with to_value_get(2) [OF assms] show ?thesis by (simp add: bt_get_filter [of "\<lambda>k. \<not> is_reserved_envelope_field k"])
    qed
  qed
qed (rule assms(2))

text \<open>An envelope whose texts are normalised, as the constructor and the deserializer make them.\<close>

definition envelope_nfc :: "text_env \<Rightarrow> EventEnvelope \<Rightarrow> bool" where
  "envelope_nfc env e \<longleftrightarrow> bt_wf (ev_additional_fields e) \<and> normalize_envelope env e = e"

lemma event_roundtrip:
  assumes "validate_v0 env e = Ok ()" "envelope_nfc env e"
  shows "EventEnvelope_deserialize env (to_value e) = Ok e"
proof -
  note v = validate_v0_OkD [OF assms(1)]
  have wf: "bt_wf (ev_additional_fields e)" and nfc: "normalize_envelope env e = e"
    using assms(2) by (simp_all add: envelope_nfc_def)
  note get = to_value_get [OF v(6) wf]
  let ?m = "build_map (serialize_fields e)"
  have fields: "bt_get ?m ''correlation_id'' = map_option JString (ev_correlation_id e)"
    "bt_get ?m ''event_id'' = Some (JString (ev_event_id e))"
    "bt_get ?m ''event_type'' = Some (JString (EventType_as_str (ev_event_type e)))"
    "bt_get ?m ''flow_id'' = map_option JString (ev_flow_id e)"
    "bt_get ?m ''parent_flow_id'' = map_option JString (ev_parent_flow_id e)"
    "bt_get ?m ''payload'' = Some (ev_payload e)"
    "bt_get ?m ''protocol_version'' = Some (JString (ev_protocol_version e))"
    "bt_get ?m ''sequence'' = Some (JNumber (PosInt (ev_sequence e)))"
    "bt_get ?m ''session_id'' = Some (JString (ev_session_id e))"
    "bt_get ?m ''source'' = Some (JString (ev_source e))"
    "bt_get ?m ''timestamp'' = Some (JString (ev_timestamp e))"
    by (simp_all add: get(1) is_reserved_envelope_field_def fixed_fields_values)
  have "filter (\<lambda>e. \<not> is_reserved_envelope_field (fst e)) ?m = ev_additional_fields e"
    by (rule additional_fields_recovered [OF v(6) wf])
  moreover have "is_object (ev_payload e)" using v(4) by auto
  moreover have "EventType_try_from (EventType_as_str (ev_event_type e)) = Ok (ev_event_type e)"
    using event_type.parse_as_str [of "ev_event_type e"] by (auto simp: EventType_parse_def split: result.splits)
  ultimately have "UncheckedEventEnvelope_deserialize (to_value e) = Ok e"
    unfolding UncheckedEventEnvelope_deserialize_def to_value_def
    using v(5)
    by (cases "ev_correlation_id e"; cases "ev_flow_id e"; cases "ev_parent_flow_id e")
      (simp_all add: present_field_def fields read_string_def deserialize_present_optional_def read_event_type_def
        deserialize_payload_object_def deserialize_protocol_version_v0_def read_u64_def)
  then show ?thesis
    using assms(1) by (simp add: EventEnvelope_deserialize_def EventEnvelope_try_from_def nfc)
qed

text \<open>
  C22: a valid event survives serialisation. Reading back the JSON value of a valid envelope with
  normalised texts gives the envelope itself, with its additional fields.
\<close>

theorem event_value_roundtrip:
  assumes "validate_v0 env e = Ok ()" "envelope_nfc env e"
  shows "EventEnvelope_deserialize env (to_value e) = Ok e"
  using assms by (rule event_roundtrip)

text \<open>The serialised value stays within the nesting limit of the canonical writer.\<close>

lemma build_map_values: "(k, v) \<in> set (build_map es) \<Longrightarrow> v \<in> snd ` set es"
proof -
  assume "(k, v) \<in> set (build_map es)"
  then have "map_of (rev es) k = Some v"
    using bt_get_mem [OF bt_wf_build_map, of es k v] by (simp add: bt_get_build_map)
  then show ?thesis by (force dest: map_of_SomeD)
qed

lemma serialize_fields_depth:
  assumes "validate_v0 env e = Ok ()" "v \<in> snd ` set (serialize_fields e)"
  shows "container_depth v < 127"
proof -
  have "container_depth (ev_payload e) < 127"
    using validate_v0_OkD(7) [OF assms(1)]
    by (auto simp: json_nesting_reaches_limit_def nesting_loop_iff reaches_def JSON_NESTING_LIMIT_V0_def)
  moreover have "\<forall>(field, v) \<in> set (ev_additional_fields e). container_depth v < 127"
    using validate_v0_OkD(8) [OF assms(1)]
    by (auto simp: json_nesting_reaches_limit_def nesting_loop_iff reaches_def JSON_NESTING_LIMIT_V0_def)
  ultimately show ?thesis
    using assms(2) by (auto simp: serialize_fields_def optional_entry_def split: option.splits)
qed

text \<open>
  C31: the journal line of a valid event is the canonical text of its JSON value and a line feed. The
  writer never meets its nesting limit there: it fails for no other reason than two keys that
  normalisation makes equal.
\<close>

theorem canonical_jsonl_of_valid_event:
  assumes "validate_v0 env e = Ok ()"
  shows "canonical_jsonl env e = Ok t \<longleftrightarrow>
    unique_keys env (to_value e) \<and> t = render env (normal_form env (to_value e)) @ [CHR 0x0A]"
proof -
  have "container_depth v \<le> 126" if "(k, v) \<in> set (build_map (serialize_fields e))" for k v
    using serialize_fields_depth [OF assms build_map_values [OF that]] by simp
  then have "Max (insert 0 ((\<lambda>(k, v). container_depth v) ` set (build_map (serialize_fields e)))) \<le> 126"
    by (subst Max_le_iff) auto
  then have "container_depth (to_value e) < 128" unfolding to_value_def container_depth.simps by linarith
  then have "\<not> json_nesting_reaches_limit (to_value e) 0"
    by (simp add: json_nesting_reaches_limit_def nesting_loop_iff reaches_def JSON_NESTING_LIMIT_V0_def del: container_depth.simps)
  then show ?thesis
    using assms validate_v0_OkD(4,5) [OF assms]
    by (auto simp: canonical_jsonl_def canonical_json_def append_canonical_eq_Ok)
qed

text \<open>The identifiers an event exposes and the visitor that may replace them.\<close>

lemma payload_identifiers_length: "length (payload_state_identifiers e) \<le> length (state_identifier_fields (ev_event_type e))"
  by (simp add: payload_state_identifiers_def map_filter_def split: option.splits)

lemma state_identifier_fields_length: "length (state_identifier_fields t) \<le> 2"
  by (simp add: state_identifier_fields_def)

text \<open>
  An event exposes at most five state identifiers, at most two of them from its payload.
\<close>

theorem state_identifiers_bounded:
  "length (payload_state_identifiers e) \<le> MAX_EVENT_PAYLOAD_STATE_IDENTIFIERS_V0 \<and>
   length (state_identifiers e) \<le> MAX_EVENT_STATE_IDENTIFIERS_V0"
  using payload_identifiers_length [of e] state_identifier_fields_length [of "ev_event_type e"]
  by (simp add: state_identifiers_def MAX_EVENT_PAYLOAD_STATE_IDENTIFIERS_V0_def
      MAX_EVENT_STATE_IDENTIFIERS_V0_def split: option.splits)

abbreviation identifiers_in :: "(string, json) btree \<Rightarrow> (EventStateIdentifierKind \<times> string) list \<Rightarrow>
    (EventStateIdentifierKind \<times> string) list" where
  "identifiers_in m fs \<equiv> List.map_filter (\<lambda>(kind, field).
     map_option (\<lambda>value. (kind, value)) (Option.bind (bt_get m field) as_str)) fs"

abbreviation visit_field :: "(EventStateIdentifierKind \<Rightarrow> string \<Rightarrow> (string, 'e) result) \<Rightarrow> (string, json) btree \<Rightarrow>
    EventStateIdentifierKind \<times> string \<Rightarrow> ((string, json) btree, 'e) result" where
  "visit_field visit m \<equiv> \<lambda>(kind, field).
     case bt_get m field of
       Some (JString value) \<Rightarrow> and_then (visit kind value) (\<lambda>t. Ok (bt_insert field (JString t) m))
     | _ \<Rightarrow> Ok m"

abbreviation visited :: "(EventStateIdentifierKind \<Rightarrow> string \<Rightarrow> (string, 'e) result) \<Rightarrow> EventStateIdentifierKind \<times> string \<Rightarrow>
    EventStateIdentifierKind \<times> string \<Rightarrow> bool" where
  "visited visit \<equiv> \<lambda>(kind, s) (kind', t). kind' = kind \<and> visit kind s = Ok t"

abbreviation visit_check :: "(EventStateIdentifierKind \<Rightarrow> string \<Rightarrow> (string, 'e) result) \<Rightarrow> EventStateIdentifierKind \<times> string \<Rightarrow>
    (unit, 'e) result" where
  "visit_check visit \<equiv> \<lambda>(kind, s). and_then (visit kind s) (\<lambda>_. Ok ())"

lemma identifiers_in_other:
  "field \<notin> snd ` set fs \<Longrightarrow> identifiers_in (bt_insert field v m) fs = identifiers_in m fs"
  by (induction fs) (auto simp: split: option.splits)

lemma visit_fields:
  assumes "distinct (map snd fs)"
  shows "case fold_ok (visit_field visit) m fs of
      Ok m' \<Rightarrow> list_all2 (visited visit) (identifiers_in m fs) (identifiers_in m' fs) \<and>
        (\<forall>f. f \<notin> snd ` set fs \<longrightarrow> bt_get m' f = bt_get m f)
    | Err x \<Rightarrow> each_ok (visit_check visit) (identifiers_in m fs) = Err x"
  using assms
proof (induction fs arbitrary: m)
  case (Cons kf fs)
  obtain kind field where kf: "kf = (kind, field)" by (cases kf)
  have fresh: "field \<notin> snd ` set fs" and dist: "distinct (map snd fs)" using Cons.prems kf by auto
  show ?case
  proof (cases "Option.bind (bt_get m field) as_str")
    case None
    then have "visit_field visit m (kind, field) = Ok m"
      by (auto split: option.splits json.splits)
    with None Cons.IH [OF dist, of m] fresh show ?thesis
      by (auto simp: kf split: result.splits)
  next
    case (Some s)
    then have got: "bt_get m field = Some (JString s)" by (cases "bt_get m field") auto
    show ?thesis
    proof (cases "visit kind s")
      case (Ok t)
      from got Ok fresh Cons.IH [OF dist, of "bt_insert field (JString t) m", unfolded identifiers_in_other [OF fresh]]
      show ?thesis by (auto simp: kf split: result.splits)
    next
      case (Err x)
      with got show ?thesis by (simp add: kf)
    qed
  qed
qed (simp add:)

lemma state_identifier_fields_distinct: "distinct (map snd (state_identifier_fields t))"
  by (simp add: state_identifier_fields_def)

lemma visit_payload_spec:
  "case visit_payload visit (ev_event_type e) (ev_payload e) of
      Ok p \<Rightarrow> list_all2 (visited visit) (payload_state_identifiers e) (payload_state_identifiers (e\<lparr>ev_payload := p\<rparr>))
    | Err x \<Rightarrow> each_ok (visit_check visit) (payload_state_identifiers e) = Err x"
proof (cases "ev_payload e")
  case (JObject m)
  then show ?thesis
    using visit_fields [OF state_identifier_fields_distinct, of visit m "ev_event_type e"]
    by (auto simp: visit_payload_def payload_state_identifiers_def split: result.splits)
qed (simp_all add: visit_payload_def payload_state_identifiers_def)

lemma payload_state_identifiers_update:
  "payload_state_identifiers (e\<lparr>ev_event_id := a, ev_flow_id := b, ev_parent_flow_id := c, ev_payload := p\<rparr>) =
   payload_state_identifiers (e\<lparr>ev_payload := p\<rparr>)"
  by (simp add: payload_state_identifiers_def split: option.split)

text \<open>
  The mutable visit calls its visitor on the very identifiers the read-only visit sees, in the
  same order. Either the visitor's first error is the result of both visits, or every identifier is
  replaced by what the visitor returned for it and the event type stays.
\<close>

theorem state_identifier_visits_agree:
  "case try_for_each_state_identifier_mut e visit of
     Ok e' \<Rightarrow> ev_event_type e' = ev_event_type e \<and>
       list_all2 (\<lambda>(kind, s) (kind', t). kind' = kind \<and> visit kind s = Ok t) (state_identifiers e) (state_identifiers e')
   | Err x \<Rightarrow> try_for_each_state_identifier e (\<lambda>kind s. and_then (visit kind s) (\<lambda>_. Ok ())) = Err x"
  using visit_payload_spec [of visit e]
  by (cases "visit EventIdentifier (ev_event_id e)"; cases "ev_flow_id e"; cases "ev_parent_flow_id e")
    (auto simp: try_for_each_state_identifier_mut_def try_for_each_state_identifier_def state_identifiers_def
      visit_option_def payload_state_identifiers_update each_ok_append and_then_eq_Err split: result.splits)

text \<open>A concrete event, for the instances of the theorems above.\<close>

definition sample_event :: EventEnvelope where
  "sample_event = (EventEnvelope_new plain_env ''e1'' FlowStarted ''s1'' 1 ''2024-02-29T12:00:00Z'' ''agent''
      (JObject [(''flow_definition_id'', JString ''review'')]))
    \<lparr> ev_flow_id := Some ''f1'', ev_additional_fields := [(''trace'', JArray [JBool True])] \<rparr>"

theorem event_value_roundtrip_witness:
  "EventEnvelope_deserialize plain_env (to_value sample_event) = Ok sample_event"
proof (rule event_value_roundtrip)
  show "validate_v0 plain_env sample_event = Ok ()" by code_simp
  show "envelope_nfc plain_env sample_event" by code_simp
qed

theorem canonical_jsonl_of_valid_event_witness:
  "canonical_jsonl plain_env sample_event =
     Ok (render plain_env (normal_form plain_env (to_value sample_event)) @ [CHR 0x0A])"
proof (rule canonical_jsonl_of_valid_event [THEN iffD2])
  show "validate_v0 plain_env sample_event = Ok ()" by code_simp
  show "unique_keys plain_env (to_value sample_event) \<and>
    render plain_env (normal_form plain_env (to_value sample_event)) @ [CHR 0x0A] =
    render plain_env (normal_form plain_env (to_value sample_event)) @ [CHR 0x0A]" by code_simp
qed

end
