(* ===== verification/Lifecycle.thy ===== *)
theory Lifecycle
  imports Event "HOL-Library.Product_Lexorder" "HOL-Library.Option_ord"
begin

text \<open>
  The session lifecycle of the Flow agent: \<open>runtime/validate/lifecycle.rs\<close> and
  \<open>runtime/validate/lifecycle/shared.rs\<close> of \<open>flow-agent-core\<close>. A state tracks the flows, phases, tools
  and messages of a session; \<open>validate_event\<close> accepts or refuses the next event and \<open>record_event\<close>
  enters an accepted event into the state.

  A protocol error is a value that names the data the message prints; the displayed path is left
  out. The panics of \<open>expect\<close> are the error \<open>Panic\<close>, and the lemmas show that no valid event meets
  one. The invariant \<open>lifecycle_inv\<close> ties the components together: phases belong to active flows, tools
  and messages to the active leaf phase of their flow, and an active flow has an active parent.
\<close>

subsection \<open>Keys and trackers\<close>

datatype MessageLifecycleKey = MessageLifecycleKey (mk_flow_id: string) (mk_message_id: string)

datatype ToolLifecycleKey = ToolLifecycleKey (tk_flow_id: "string option") (tk_phase_execution_id: "string option")
  (tk_phase_id: "string option") (tk_step_id: "string option") (tk_tool_id: string) (tk_attempt_id: "string option")

record PhaseLifecycleKey =
  pk_phase_execution_id :: string
  pk_phase_id :: string
  pk_phase_kind :: PhaseKind

text \<open>The derived orders compare the fields in the order of the declaration.\<close>

fun message_key :: "MessageLifecycleKey \<Rightarrow> string \<times> string" where
  "message_key (MessageLifecycleKey f m) = (f, m)"

lemma message_key_inject: "message_key a = message_key b \<longleftrightarrow> a = b"
  by (cases a; cases b) simp

instantiation MessageLifecycleKey :: linorder
begin

definition less_eq_MessageLifecycleKey :: "MessageLifecycleKey \<Rightarrow> MessageLifecycleKey \<Rightarrow> bool" where
  "less_eq_MessageLifecycleKey a b \<longleftrightarrow> message_key a \<le> message_key b"

definition less_MessageLifecycleKey :: "MessageLifecycleKey \<Rightarrow> MessageLifecycleKey \<Rightarrow> bool" where
  "less_MessageLifecycleKey a b \<longleftrightarrow> message_key a < message_key b"

instance
  by standard (auto simp: less_eq_MessageLifecycleKey_def less_MessageLifecycleKey_def message_key_inject [symmetric])

end

fun tool_key :: "ToolLifecycleKey \<Rightarrow> string option \<times> string option \<times> string option \<times> string option \<times> string \<times> string option" where
  "tool_key (ToolLifecycleKey f pe p s t a) = (f, pe, p, s, t, a)"

lemma tool_key_inject: "tool_key a = tool_key b \<longleftrightarrow> a = b"
  by (cases a; cases b) simp

instantiation ToolLifecycleKey :: linorder
begin

definition less_eq_ToolLifecycleKey :: "ToolLifecycleKey \<Rightarrow> ToolLifecycleKey \<Rightarrow> bool" where
  "less_eq_ToolLifecycleKey a b \<longleftrightarrow> tool_key a \<le> tool_key b"

definition less_ToolLifecycleKey :: "ToolLifecycleKey \<Rightarrow> ToolLifecycleKey \<Rightarrow> bool" where
  "less_ToolLifecycleKey a b \<longleftrightarrow> tool_key a < tool_key b"

instance
  by standard (auto simp only: less_eq_ToolLifecycleKey_def less_ToolLifecycleKey_def tool_key_inject [symmetric] less_le_not_le)

end

record 'k LifecycleTracker =
  lt_active :: "'k bset"
  lt_terminal :: "('k, nat) btree"

definition LifecycleTracker_default :: "'k LifecycleTracker" where
  "LifecycleTracker_default = \<lparr> lt_active = [], lt_terminal = [] \<rparr>"

definition tracker_start :: "'k::linorder \<Rightarrow> 'k LifecycleTracker \<Rightarrow> 'k LifecycleTracker" where
  "tracker_start key t = t\<lparr> lt_active := bs_insert key (lt_active t) \<rparr>"

definition tracker_finish :: "'k::linorder \<Rightarrow> nat \<Rightarrow> 'k LifecycleTracker \<Rightarrow> 'k LifecycleTracker" where
  "tracker_finish key line_number t =
     t\<lparr> lt_active := bt_remove key (lt_active t), lt_terminal := bt_insert key line_number (lt_terminal t) \<rparr>"

definition is_started :: "'k LifecycleTracker \<Rightarrow> 'k \<Rightarrow> bool" where
  "is_started t key \<longleftrightarrow> bs_contains (lt_active t) key \<or> contains_key (lt_terminal t) key"

definition terminal_line :: "'k LifecycleTracker \<Rightarrow> 'k \<Rightarrow> nat option" where
  "terminal_line t key = bt_get (lt_terminal t) key"

definition active_keys :: "'k LifecycleTracker \<Rightarrow> 'k list" where
  "active_keys t = bs_iter (lt_active t)"

subsection \<open>Errors and the keys of an event\<close>

datatype LifecycleError =
    Panic string
  | SessionStartedNotFirst nat
  | FlowNotStarted nat EventType string
  | AfterTerminal nat EventType string string nat
  | OpenChild nat EventType string string
  | MissingFlowId nat EventType
  | DefinitionMismatch nat EventType string
  | DuplicateActivePhase nat string
  | NestsBelowLeaf nat
  | NotActivePhase nat EventType string
  | DuplicateActiveTool nat string
  | ToolNotStarted nat EventType string
  | ToolFailedNotStarted nat string
  | MessageRoleMismatch nat EventType string string string
  | MessageNotStarted nat string
  | OpenAtEnd string string
  | ParentWithoutFlow nat
  | ParentIsFlow nat string
  | ParentNotStarted nat string
  | ParentTerminal nat string nat
  | ParentMismatch nat string
  | RequiresActivePhase nat EventType string
  | RequiresLeafPhase nat EventType

type_synonym 'a lifecycle = "('a, LifecycleError) result"

definition open_child_lifecycle_error :: "nat \<Rightarrow> EventEnvelope \<Rightarrow> string \<Rightarrow> string \<Rightarrow> LifecycleError" where
  "open_child_lifecycle_error line_number event child_kind child_id =
     OpenChild line_number (ev_event_type event) child_kind child_id"

definition terminal_lifecycle_error :: "nat \<Rightarrow> EventEnvelope \<Rightarrow> string \<Rightarrow> string \<Rightarrow> nat \<Rightarrow> LifecycleError" where
  "terminal_lifecycle_error line_number event child_kind child_id line =
     AfterTerminal line_number (ev_event_type event) child_kind child_id line"

definition require_lifecycle_flow_id :: "nat \<Rightarrow> EventEnvelope \<Rightarrow> string lifecycle" where
  "require_lifecycle_flow_id line_number event =
     ok_or (MissingFlowId line_number (ev_event_type event)) (ev_flow_id event)"

definition json_get :: "json \<Rightarrow> string \<Rightarrow> json option" where
  "json_get v field = Option.bind (as_object v) (\<lambda>m. bt_get m field)"

definition json_get_str :: "json \<Rightarrow> string \<Rightarrow> string option" where
  "json_get_str v field = Option.bind (json_get v field) as_str"

definition lifecycle_payload_string :: "EventEnvelope \<Rightarrow> string \<Rightarrow> string lifecycle" where
  "lifecycle_payload_string event field =
     ok_or (Panic ''payload contract validation ensures lifecycle key fields are strings'')
       (json_get_str (ev_payload event) field)"

type_synonym phase_stacks = "(string, PhaseLifecycleKey list) btree"

definition last_opt :: "'a list \<Rightarrow> 'a option" where
  "last_opt xs = (if xs = [] then None else Some (last xs))"

definition active_phase :: "phase_stacks \<Rightarrow> string \<Rightarrow> PhaseLifecycleKey option" where
  "active_phase active_phases flow_id = Option.bind (bt_get active_phases flow_id) last_opt"

definition require_active_leaf_phase :: "nat \<Rightarrow> EventEnvelope \<Rightarrow> phase_stacks \<Rightarrow> PhaseLifecycleKey lifecycle" where
  "require_active_leaf_phase line_number event active_phases =
     and_then (require_lifecycle_flow_id line_number event) (\<lambda>flow_id.
     and_then (ok_or (RequiresActivePhase line_number (ev_event_type event) flow_id) (active_phase active_phases flow_id)) (\<lambda>phase.
     and_then (ensure (pk_phase_kind phase = Leaf) (RequiresLeafPhase line_number (ev_event_type event))) (\<lambda>_.
     Ok phase)))"

definition lifecycle_phase_key :: "EventEnvelope \<Rightarrow> PhaseLifecycleKey lifecycle" where
  "lifecycle_phase_key event =
     and_then (lifecycle_payload_string event ''phase_execution_id'') (\<lambda>phase_execution_id.
     and_then (lifecycle_payload_string event ''phase_id'') (\<lambda>phase_id.
     and_then (ok_or (Panic ''validated phase.entered events include phase_kind'')
       (json_get_str (ev_payload event) ''phase_kind'')) (\<lambda>kind.
     and_then (ok_or (Panic ''validated phase.entered events use a canonical phase_kind'')
       (PhaseKind_try_from kind)) (\<lambda>phase_kind.
     Ok \<lparr> pk_phase_execution_id = phase_execution_id, pk_phase_id = phase_id, pk_phase_kind = phase_kind \<rparr>))))"

definition terminal_phase_matches :: "EventEnvelope \<Rightarrow> PhaseLifecycleKey \<Rightarrow> bool lifecycle" where
  "terminal_phase_matches event active =
     and_then (lifecycle_payload_string event ''phase_execution_id'') (\<lambda>phase_execution_id.
     if pk_phase_execution_id active \<noteq> phase_execution_id then Ok False
     else and_then (lifecycle_payload_string event ''phase_id'') (\<lambda>phase_id.
     if pk_phase_id active \<noteq> phase_id then Ok False
     else case json_get_str (ev_payload event) ''phase_kind'' of
       None \<Rightarrow> Ok True
     | Some kind \<Rightarrow>
         and_then (ok_or (Panic ''validated terminal Phase events use a canonical phase_kind'')
           (PhaseKind_try_from kind)) (\<lambda>phase_kind. Ok (phase_kind = pk_phase_kind active))))"

definition lifecycle_tool_key :: "EventEnvelope \<Rightarrow> phase_stacks \<Rightarrow> ToolLifecycleKey lifecycle" where
  "lifecycle_tool_key event active_phases =
     (let phase = Option.bind (ev_flow_id event) (active_phase active_phases) in
      and_then (lifecycle_payload_string event ''tool_id'') (\<lambda>tool_id.
      Ok (ToolLifecycleKey (ev_flow_id event) (map_option pk_phase_execution_id phase) (map_option pk_phase_id phase)
        None tool_id (json_get_str (ev_payload event) ''attempt_id''))))"

definition lifecycle_message_key :: "nat \<Rightarrow> EventEnvelope \<Rightarrow> MessageLifecycleKey lifecycle" where
  "lifecycle_message_key line_number event =
     and_then (require_lifecycle_flow_id line_number event) (\<lambda>flow_id.
     and_then (lifecycle_payload_string event ''message_id'') (\<lambda>message_id.
     Ok (MessageLifecycleKey flow_id message_id)))"

subsection \<open>Validation of the next event\<close>

record SessionLifecycleState =
  lc_flows :: "string LifecycleTracker"
  lc_flow_definition_ids :: "(string, string) btree"
  lc_flow_parents :: "(string, string option) btree"
  lc_terminal_phases :: "(string, nat) btree"
  lc_tools :: "ToolLifecycleKey LifecycleTracker"
  lc_terminal_messages :: "(MessageLifecycleKey, nat) btree"
  lc_active_message_roles :: "(MessageLifecycleKey, string) btree"
  lc_active_phases :: phase_stacks
  lc_tools_without_progress :: "ToolLifecycleKey bset"

definition SessionLifecycleState_default :: SessionLifecycleState where
  "SessionLifecycleState_default =
     \<lparr> lc_flows = LifecycleTracker_default, lc_flow_definition_ids = [], lc_flow_parents = [],
       lc_terminal_phases = [], lc_tools = LifecycleTracker_default, lc_terminal_messages = [],
       lc_active_message_roles = [], lc_active_phases = [], lc_tools_without_progress = [] \<rparr>"

definition validate_lifecycle_parent ::
    "nat \<Rightarrow> EventEnvelope \<Rightarrow> string LifecycleTracker \<Rightarrow> (string, string option) btree \<Rightarrow> unit lifecycle" where
  "validate_lifecycle_parent line_number event flows flow_parents =
    (if ev_parent_flow_id event \<noteq> None \<and> ev_flow_id event = None then Err (ParentWithoutFlow line_number)
     else case ev_flow_id event of
       None \<Rightarrow> Ok ()
     | Some flow_id \<Rightarrow>
         and_then (case ev_parent_flow_id event of
             None \<Rightarrow> Ok ()
           | Some parent_flow_id \<Rightarrow>
               if parent_flow_id = flow_id then Err (ParentIsFlow line_number flow_id)
               else if \<not> is_started flows parent_flow_id then Err (ParentNotStarted line_number parent_flow_id)
               else case terminal_line flows parent_flow_id of
                 Some line \<Rightarrow> Err (ParentTerminal line_number parent_flow_id line)
               | None \<Rightarrow> Ok ()) (\<lambda>_.
         case bt_get flow_parents flow_id of
           Some expected_parent \<Rightarrow> ensure (expected_parent = ev_parent_flow_id event) (ParentMismatch line_number flow_id)
         | None \<Rightarrow> Ok ()))"

definition reject_terminal_tool_event :: "SessionLifecycleState \<Rightarrow> nat \<Rightarrow> EventEnvelope \<Rightarrow> ToolLifecycleKey \<Rightarrow> unit lifecycle" where
  "reject_terminal_tool_event s line_number event tool =
    (case terminal_line (lc_tools s) tool of
       Some line \<Rightarrow> Err (terminal_lifecycle_error line_number event ''tool'' (tk_tool_id tool) line)
     | None \<Rightarrow> Ok ())"

definition require_active_work :: "SessionLifecycleState \<Rightarrow> nat \<Rightarrow> EventEnvelope \<Rightarrow> unit lifecycle" where
  "require_active_work s line_number event =
     and_then (require_active_leaf_phase line_number event (lc_active_phases s)) (\<lambda>_. Ok ())"

definition validate_message_delta :: "SessionLifecycleState \<Rightarrow> nat \<Rightarrow> EventEnvelope \<Rightarrow> unit lifecycle" where
  "validate_message_delta s line_number event =
     and_then (lifecycle_message_key line_number event) (\<lambda>message.
     case bt_get (lc_terminal_messages s) message of
       Some line \<Rightarrow> Err (terminal_lifecycle_error line_number event ''message'' (mk_message_id message) line)
     | None \<Rightarrow>
         and_then (lifecycle_payload_string event ''role'') (\<lambda>role.
         case bt_get (lc_active_message_roles s) message of
           Some active_role \<Rightarrow>
             ensure (active_role = role)
               (MessageRoleMismatch line_number MessageDelta role active_role (mk_message_id message))
         | None \<Rightarrow> Ok ()))"

definition validate_message_completed :: "SessionLifecycleState \<Rightarrow> nat \<Rightarrow> EventEnvelope \<Rightarrow> unit lifecycle" where
  "validate_message_completed s line_number event =
     and_then (lifecycle_message_key line_number event) (\<lambda>message.
     case bt_get (lc_terminal_messages s) message of
       Some line \<Rightarrow> Err (terminal_lifecycle_error line_number event ''message'' (mk_message_id message) line)
     | None \<Rightarrow>
         and_then (lifecycle_payload_string event ''role'') (\<lambda>role.
         case bt_get (lc_active_message_roles s) message of
           None \<Rightarrow> Err (MessageNotStarted line_number (mk_message_id message))
         | Some active_role \<Rightarrow>
             ensure (active_role = role)
               (MessageRoleMismatch line_number MessageCompleted role active_role (mk_message_id message))))"

definition validate_event_flow :: "SessionLifecycleState \<Rightarrow> nat \<Rightarrow> EventEnvelope \<Rightarrow> unit lifecycle" where
  "validate_event_flow s line_number event =
    (if ev_event_type event = FlowStarted then Ok ()
     else case ev_flow_id event of
       None \<Rightarrow> Ok ()
     | Some flow_id \<Rightarrow>
         if \<not> is_started (lc_flows s) flow_id then Err (FlowNotStarted line_number (ev_event_type event) flow_id)
         else case terminal_line (lc_flows s) flow_id of
           Some line \<Rightarrow> Err (terminal_lifecycle_error line_number event ''flow'' flow_id line)
         | None \<Rightarrow> Ok ())"

definition validate_flow_terminal :: "SessionLifecycleState \<Rightarrow> nat \<Rightarrow> EventEnvelope \<Rightarrow> unit lifecycle" where
  "validate_flow_terminal s line_number event =
     and_then (require_lifecycle_flow_id line_number event) (\<lambda>flow_id.
     and_then (lifecycle_payload_string event ''flow_definition_id'') (\<lambda>flow_definition_id.
     if bt_get (lc_flow_definition_ids s) flow_id \<noteq> Some flow_definition_id
       then Err (DefinitionMismatch line_number (ev_event_type event) flow_id)
     else case active_phase (lc_active_phases s) flow_id of
       Some phase \<Rightarrow> Err (open_child_lifecycle_error line_number event ''phase'' (pk_phase_execution_id phase))
     | None \<Rightarrow>
         case find (\<lambda>child. Option.bind (bt_get (lc_flow_parents s) child) (\<lambda>p. p) = Some flow_id) (active_keys (lc_flows s)) of
           Some child \<Rightarrow> Err (open_child_lifecycle_error line_number event ''child flow'' child)
         | None \<Rightarrow> Ok ()))"

definition validate_phase_entered :: "SessionLifecycleState \<Rightarrow> nat \<Rightarrow> EventEnvelope \<Rightarrow> unit lifecycle" where
  "validate_phase_entered s line_number event =
     and_then (require_lifecycle_flow_id line_number event) (\<lambda>flow_id.
     and_then (lifecycle_phase_key event) (\<lambda>phase.
     case bt_get (lc_terminal_phases s) (pk_phase_execution_id phase) of
       Some line \<Rightarrow> Err (terminal_lifecycle_error line_number event ''phase'' (pk_phase_execution_id phase) line)
     | None \<Rightarrow>
         if list_ex (\<lambda>active. pk_phase_execution_id active = pk_phase_execution_id phase) (concat (map snd (lc_active_phases s)))
           then Err (DuplicateActivePhase line_number (pk_phase_execution_id phase))
         else if (case active_phase (lc_active_phases s) flow_id of
             Some active \<Rightarrow> pk_phase_kind active = Leaf | None \<Rightarrow> False)
           then Err (NestsBelowLeaf line_number)
         else Ok ()))"

definition validate_phase_terminal :: "SessionLifecycleState \<Rightarrow> nat \<Rightarrow> EventEnvelope \<Rightarrow> unit lifecycle" where
  "validate_phase_terminal s line_number event =
     and_then (lifecycle_payload_string event ''phase_execution_id'') (\<lambda>phase_execution_id.
     case bt_get (lc_terminal_phases s) phase_execution_id of
       Some line \<Rightarrow> Err (terminal_lifecycle_error line_number event ''phase'' phase_execution_id line)
     | None \<Rightarrow>
         and_then (require_lifecycle_flow_id line_number event) (\<lambda>flow_id.
         and_then (case active_phase (lc_active_phases s) flow_id of
             None \<Rightarrow> Ok False | Some phase \<Rightarrow> terminal_phase_matches event phase) (\<lambda>closes.
         if \<not> closes then Err (NotActivePhase line_number (ev_event_type event) phase_execution_id)
         else case find (\<lambda>tool. tk_phase_execution_id tool = Some phase_execution_id) (active_keys (lc_tools s)) of
           Some tool \<Rightarrow> Err (open_child_lifecycle_error line_number event ''tool'' (tk_tool_id tool))
         | None \<Rightarrow>
             case find (\<lambda>message. mk_flow_id message = flow_id) (map fst (lc_active_message_roles s)) of
               Some message \<Rightarrow> Err (open_child_lifecycle_error line_number event ''message'' (mk_message_id message))
             | None \<Rightarrow> Ok ())))"

definition validate_tool_start :: "SessionLifecycleState \<Rightarrow> nat \<Rightarrow> EventEnvelope \<Rightarrow> unit lifecycle" where
  "validate_tool_start s line_number event =
     and_then (require_active_leaf_phase line_number event (lc_active_phases s)) (\<lambda>_.
     and_then (lifecycle_tool_key event (lc_active_phases s)) (\<lambda>tool.
     and_then (reject_terminal_tool_event s line_number event tool) (\<lambda>_.
     ensure (\<not> is_started (lc_tools s) tool) (DuplicateActiveTool line_number (tk_tool_id tool)))))"

definition validate_tool_step :: "SessionLifecycleState \<Rightarrow> nat \<Rightarrow> EventEnvelope \<Rightarrow> unit lifecycle" where
  "validate_tool_step s line_number event =
     and_then (lifecycle_tool_key event (lc_active_phases s)) (\<lambda>tool.
     and_then (reject_terminal_tool_event s line_number event tool) (\<lambda>_.
     ensure (is_started (lc_tools s) tool) (ToolNotStarted line_number (ev_event_type event) (tk_tool_id tool))))"

definition validate_tool_failed :: "SessionLifecycleState \<Rightarrow> nat \<Rightarrow> EventEnvelope \<Rightarrow> unit lifecycle" where
  "validate_tool_failed s line_number event =
     and_then (require_lifecycle_flow_id line_number event) (\<lambda>flow_id.
     and_then (lifecycle_tool_key event (lc_active_phases s)) (\<lambda>tool.
     and_then (reject_terminal_tool_event s line_number event tool) (\<lambda>_.
     let after_phase_entered = contains_key (lc_active_phases s) flow_id in
     ensure (\<not> (\<not> is_started (lc_tools s) tool \<and> after_phase_entered)) (ToolFailedNotStarted line_number flow_id))))"

primrec validate_event_kind :: "SessionLifecycleState \<Rightarrow> nat \<Rightarrow> EventEnvelope \<Rightarrow> EventType \<Rightarrow> unit lifecycle" where
  "validate_event_kind s n e FlowStarted = and_then (require_lifecycle_flow_id n e) (\<lambda>_. Ok ())"
| "validate_event_kind s n e FlowCompleted = validate_flow_terminal s n e"
| "validate_event_kind s n e FlowFailed = validate_flow_terminal s n e"
| "validate_event_kind s n e PhaseEntered = validate_phase_entered s n e"
| "validate_event_kind s n e PhaseCompleted = validate_phase_terminal s n e"
| "validate_event_kind s n e PhaseFailed = validate_phase_terminal s n e"
| "validate_event_kind s n e ToolStarted = validate_tool_start s n e"
| "validate_event_kind s n e ToolProgress = validate_tool_step s n e"
| "validate_event_kind s n e ToolCompleted = validate_tool_step s n e"
| "validate_event_kind s n e ToolTimedOut = validate_tool_step s n e"
| "validate_event_kind s n e ToolFailed = validate_tool_failed s n e"
| "validate_event_kind s n e MessageDelta =
     and_then (require_active_work s n e) (\<lambda>_. validate_message_delta s n e)"
| "validate_event_kind s n e MessageCompleted =
     and_then (require_active_work s n e) (\<lambda>_. validate_message_completed s n e)"
| "validate_event_kind s n e SessionStarted = Ok ()"
| "validate_event_kind s n e SessionPaused = Ok ()"
| "validate_event_kind s n e SessionResumed = Ok ()"
| "validate_event_kind s n e SessionCompleted = Ok ()"
| "validate_event_kind s n e SessionFailed = Ok ()"
| "validate_event_kind s n e ArtifactLogged = Ok ()"
| "validate_event_kind s n e AttentionRequested = Ok ()"
| "validate_event_kind s n e MetricSample = Ok ()"
| "validate_event_kind s n e Error = Ok ()"

definition lifecycle_validate_event :: "SessionLifecycleState \<Rightarrow> nat \<Rightarrow> EventEnvelope \<Rightarrow> unit lifecycle" where
  "lifecycle_validate_event s line_number event =
     and_then (ensure (\<not> (line_number > 1 \<and> ev_event_type event = SessionStarted)) (SessionStartedNotFirst line_number)) (\<lambda>_.
     and_then (validate_event_flow s line_number event) (\<lambda>_.
     and_then (validate_lifecycle_parent line_number event (lc_flows s) (lc_flow_parents s)) (\<lambda>_.
     validate_event_kind s line_number event (ev_event_type event))))"

definition open_lifecycle_error :: "string \<Rightarrow> string \<Rightarrow> LifecycleError" where
  "open_lifecycle_error child_kind child_id = OpenAtEnd child_kind child_id"

definition is_session_end :: "EventType \<Rightarrow> bool" where
  "is_session_end t \<longleftrightarrow> t = SessionCompleted \<or> t = SessionFailed"

definition validate_terminal_session :: "SessionLifecycleState \<Rightarrow> EventEnvelope option \<Rightarrow> unit lifecycle" where
  "validate_terminal_session s last_event =
    (if \<not> (case last_event of Some event \<Rightarrow> is_session_end (ev_event_type event) | None \<Rightarrow> False) then Ok ()
     else case active_keys (lc_flows s) of
       flow_id # _ \<Rightarrow> Err (open_lifecycle_error ''flow'' flow_id)
     | [] \<Rightarrow>
       case concat (map snd (lc_active_phases s)) of
         phase # _ \<Rightarrow> Err (open_lifecycle_error ''phase'' (pk_phase_execution_id phase))
       | [] \<Rightarrow>
         case active_keys (lc_tools s) of
           tool # _ \<Rightarrow> Err (open_lifecycle_error ''tool'' (tk_tool_id tool))
         | [] \<Rightarrow>
           case map fst (lc_active_message_roles s) of
             message # _ \<Rightarrow> Err (open_lifecycle_error ''message'' (mk_message_id message))
           | [] \<Rightarrow> Ok ())"

definition tool_without_progress :: "SessionLifecycleState \<Rightarrow> string option" where
  "tool_without_progress s =
    (case bs_iter (lc_tools_without_progress s) of [] \<Rightarrow> None | tool # _ \<Rightarrow> Some (tk_tool_id tool))"

subsection \<open>Recording an accepted event\<close>

definition expect :: "string \<Rightarrow> 'a option \<Rightarrow> 'a lifecycle" where
  "expect message = ok_or (Panic message)"

definition record_flow_started :: "SessionLifecycleState \<Rightarrow> EventEnvelope \<Rightarrow> SessionLifecycleState lifecycle" where
  "record_flow_started s event =
     and_then (expect ''validated flow.started events include flow_id'' (ev_flow_id event)) (\<lambda>flow_id.
     and_then (lifecycle_payload_string event ''flow_definition_id'') (\<lambda>flow_definition_id.
     Ok (s\<lparr> lc_flow_definition_ids := bt_insert flow_id flow_definition_id (lc_flow_definition_ids s),
            lc_flow_parents := bt_insert flow_id (ev_parent_flow_id event) (lc_flow_parents s),
            lc_flows := tracker_start flow_id (lc_flows s) \<rparr>)))"

definition record_flow_terminal :: "SessionLifecycleState \<Rightarrow> nat \<Rightarrow> EventEnvelope \<Rightarrow> SessionLifecycleState lifecycle" where
  "record_flow_terminal s line_number event =
     and_then (expect ''validated terminal flow events include flow_id'' (ev_flow_id event)) (\<lambda>flow_id.
     Ok (s\<lparr> lc_flows := tracker_finish flow_id line_number (lc_flows s) \<rparr>))"

definition record_phase_entered :: "SessionLifecycleState \<Rightarrow> EventEnvelope \<Rightarrow> SessionLifecycleState lifecycle" where
  "record_phase_entered s event =
     and_then (expect ''validated phase.entered events include flow_id'' (ev_flow_id event)) (\<lambda>flow_id.
     and_then (lifecycle_phase_key event) (\<lambda>phase.
     let phases = (case bt_get (lc_active_phases s) flow_id of Some phases \<Rightarrow> phases | None \<Rightarrow> []) in
     Ok (s\<lparr> lc_active_phases := bt_insert flow_id (phases @ [phase]) (lc_active_phases s) \<rparr>)))"

definition record_phase_terminal :: "SessionLifecycleState \<Rightarrow> nat \<Rightarrow> EventEnvelope \<Rightarrow> SessionLifecycleState lifecycle" where
  "record_phase_terminal s line_number event =
     and_then (expect ''validated terminal Phase events include flow_id'' (ev_flow_id event)) (\<lambda>flow_id.
     and_then (lifecycle_payload_string event ''phase_execution_id'') (\<lambda>phase_execution_id.
     let active_phases =
       (case bt_get (lc_active_phases s) flow_id of
          None \<Rightarrow> lc_active_phases s
        | Some phases \<Rightarrow>
            if butlast phases = [] then bt_remove flow_id (lc_active_phases s)
            else bt_insert flow_id (butlast phases) (lc_active_phases s)) in
     Ok (s\<lparr> lc_active_phases := active_phases,
            lc_terminal_phases := bt_insert phase_execution_id line_number (lc_terminal_phases s) \<rparr>)))"

definition record_tool_started :: "SessionLifecycleState \<Rightarrow> EventEnvelope \<Rightarrow> SessionLifecycleState lifecycle" where
  "record_tool_started s event =
     and_then (lifecycle_tool_key event (lc_active_phases s)) (\<lambda>tool.
     Ok (s\<lparr> lc_tools_without_progress := bs_insert tool (lc_tools_without_progress s),
            lc_tools := tracker_start tool (lc_tools s) \<rparr>))"

definition record_tool_progress :: "SessionLifecycleState \<Rightarrow> EventEnvelope \<Rightarrow> SessionLifecycleState lifecycle" where
  "record_tool_progress s event =
     and_then (lifecycle_tool_key event (lc_active_phases s)) (\<lambda>tool.
     Ok (s\<lparr> lc_tools_without_progress := bt_remove tool (lc_tools_without_progress s) \<rparr>))"

definition record_tool_terminal :: "SessionLifecycleState \<Rightarrow> nat \<Rightarrow> EventEnvelope \<Rightarrow> SessionLifecycleState lifecycle" where
  "record_tool_terminal s line_number event =
     and_then (lifecycle_tool_key event (lc_active_phases s)) (\<lambda>tool.
     Ok (s\<lparr> lc_tools := tracker_finish tool line_number (lc_tools s),
            lc_tools_without_progress := bt_remove tool (lc_tools_without_progress s) \<rparr>))"

definition record_message_delta :: "SessionLifecycleState \<Rightarrow> EventEnvelope \<Rightarrow> SessionLifecycleState lifecycle" where
  "record_message_delta s event =
     and_then (expect ''validated message.delta events include flow_id'' (ev_flow_id event)) (\<lambda>flow_id.
     and_then (lifecycle_payload_string event ''message_id'') (\<lambda>message_id.
     let message = MessageLifecycleKey flow_id message_id in
     if contains_key (lc_active_message_roles s) message then Ok s
     else
       and_then (lifecycle_payload_string event ''role'') (\<lambda>role.
       Ok (s\<lparr> lc_active_message_roles := bt_insert message role (lc_active_message_roles s) \<rparr>))))"

definition record_message_completed :: "SessionLifecycleState \<Rightarrow> nat \<Rightarrow> EventEnvelope \<Rightarrow> SessionLifecycleState lifecycle" where
  "record_message_completed s line_number event =
     and_then (expect ''validated message.completed events include flow_id'' (ev_flow_id event)) (\<lambda>flow_id.
     and_then (lifecycle_payload_string event ''message_id'') (\<lambda>message_id.
     let message = MessageLifecycleKey flow_id message_id in
     Ok (s\<lparr> lc_active_message_roles := bt_remove message (lc_active_message_roles s),
            lc_terminal_messages := bt_insert message line_number (lc_terminal_messages s) \<rparr>)))"

primrec record_event_kind :: "SessionLifecycleState \<Rightarrow> nat \<Rightarrow> EventEnvelope \<Rightarrow> EventType \<Rightarrow> SessionLifecycleState lifecycle" where
  "record_event_kind s n e FlowStarted = record_flow_started s e"
| "record_event_kind s n e FlowCompleted = record_flow_terminal s n e"
| "record_event_kind s n e FlowFailed = record_flow_terminal s n e"
| "record_event_kind s n e PhaseEntered = record_phase_entered s e"
| "record_event_kind s n e PhaseCompleted = record_phase_terminal s n e"
| "record_event_kind s n e PhaseFailed = record_phase_terminal s n e"
| "record_event_kind s n e ToolStarted = record_tool_started s e"
| "record_event_kind s n e ToolProgress = record_tool_progress s e"
| "record_event_kind s n e ToolCompleted = record_tool_terminal s n e"
| "record_event_kind s n e ToolTimedOut = record_tool_terminal s n e"
| "record_event_kind s n e ToolFailed = record_tool_terminal s n e"
| "record_event_kind s n e MessageDelta = record_message_delta s e"
| "record_event_kind s n e MessageCompleted = record_message_completed s n e"
| "record_event_kind s n e SessionStarted = Ok s"
| "record_event_kind s n e SessionPaused = Ok s"
| "record_event_kind s n e SessionResumed = Ok s"
| "record_event_kind s n e SessionCompleted = Ok s"
| "record_event_kind s n e SessionFailed = Ok s"
| "record_event_kind s n e ArtifactLogged = Ok s"
| "record_event_kind s n e AttentionRequested = Ok s"
| "record_event_kind s n e MetricSample = Ok s"
| "record_event_kind s n e Error = Ok s"

definition lifecycle_record_event :: "SessionLifecycleState \<Rightarrow> nat \<Rightarrow> EventEnvelope \<Rightarrow> SessionLifecycleState lifecycle" where
  "lifecycle_record_event s line_number event = record_event_kind s line_number event (ev_event_type event)"

subsection \<open>Valid events never meet a panic\<close>

lemma require_string_payload:
  "checked (require_string m field) = Ok () \<Longrightarrow> \<exists>s. json_get_str (JObject m) field = Some s \<and> s \<noteq> []"
  by (auto simp: checked_def require_string_def json_get_str_def json_get_def split: option.splits if_splits)

text \<open>The payload fields the lifecycle reads, by event type.\<close>

primrec lifecycle_fields :: "EventType \<Rightarrow> string list" where
  "lifecycle_fields FlowStarted = [''flow_definition_id'']"
| "lifecycle_fields FlowCompleted = [''flow_definition_id'']"
| "lifecycle_fields FlowFailed = [''flow_definition_id'']"
| "lifecycle_fields PhaseEntered = [''phase_execution_id'', ''phase_id'']"
| "lifecycle_fields PhaseCompleted = [''phase_execution_id'', ''phase_id'']"
| "lifecycle_fields PhaseFailed = [''phase_execution_id'', ''phase_id'']"
| "lifecycle_fields ToolStarted = [''tool_id'']"
| "lifecycle_fields ToolProgress = [''tool_id'']"
| "lifecycle_fields ToolCompleted = [''tool_id'']"
| "lifecycle_fields ToolTimedOut = [''tool_id'']"
| "lifecycle_fields ToolFailed = [''tool_id'']"
| "lifecycle_fields MessageDelta = [''message_id'', ''role'']"
| "lifecycle_fields MessageCompleted = [''message_id'', ''role'']"
| "lifecycle_fields SessionStarted = []"
| "lifecycle_fields SessionPaused = []"
| "lifecycle_fields SessionResumed = []"
| "lifecycle_fields SessionCompleted = []"
| "lifecycle_fields SessionFailed = []"
| "lifecycle_fields ArtifactLogged = []"
| "lifecycle_fields AttentionRequested = []"
| "lifecycle_fields MetricSample = []"
| "lifecycle_fields Error = []"

definition event_ready :: "EventEnvelope \<Rightarrow> bool" where
  "event_ready e \<longleftrightarrow>
     (\<forall>field \<in> set (lifecycle_fields (ev_event_type e)). json_get_str (ev_payload e) field \<noteq> None) \<and>
     (ev_event_type e = PhaseEntered \<longrightarrow> json_get_str (ev_payload e) ''phase_kind'' \<noteq> None) \<and>
     (ev_event_type e \<in> {PhaseEntered, PhaseCompleted, PhaseFailed} \<longrightarrow>
        (\<forall>k. json_get_str (ev_payload e) ''phase_kind'' = Some k \<longrightarrow> PhaseKind_try_from k \<noteq> None))"

lemma phase_kind_payload:
  "require_phase_kind m = Ok () \<Longrightarrow> \<exists>k. json_get_str (JObject m) ''phase_kind'' = Some k \<and> PhaseKind_try_from k \<noteq> None"
  "optional_phase_kind m = Ok () \<Longrightarrow> json_get_str (JObject m) ''phase_kind'' = Some k \<Longrightarrow> PhaseKind_try_from k \<noteq> None"
  by (auto simp: require_phase_kind_def optional_phase_kind_def contains_key_def require_string_def json_get_str_def
      json_get_def split: option.splits if_splits)

lemma role_payload: "require_role m = Ok () \<Longrightarrow> \<exists>s. json_get_str (JObject m) ''role'' = Some s"
  by (auto simp: require_role_def require_string_def json_get_str_def json_get_def split: option.splits if_splits)

lemma valid_event_ready:
  assumes "validate_v0 env e = Ok ()"
  shows "event_ready e"
proof -
  obtain m where m: "ev_payload e = JObject m" "validate_event_payload env m (ev_event_type e) = Ok ()"
    using validate_v0_OkD(4) [OF assms] by auto
  show ?thesis
    using m(2)
    by (cases "ev_event_type e")
      (auto simp: event_ready_def m(1) validate_tool_started_def
        dest!: require_string_payload phase_kind_payload(1) role_payload dest: phase_kind_payload(2) split: option.splits)
qed

lemmas lifecycle_reads = require_lifecycle_flow_id_def lifecycle_payload_string_def require_active_leaf_phase_def
  lifecycle_phase_key_def lifecycle_tool_key_def lifecycle_message_key_def require_active_work_def
  terminal_lifecycle_error_def open_child_lifecycle_error_def reject_terminal_tool_event_def

lemmas validate_arms = validate_flow_terminal_def validate_phase_entered_def validate_phase_terminal_def
  validate_tool_start_def validate_tool_step_def validate_tool_failed_def validate_message_delta_def
  validate_message_completed_def

lemmas record_arms = record_flow_started_def record_flow_terminal_def record_phase_entered_def record_phase_terminal_def
  record_tool_started_def record_tool_progress_def record_tool_terminal_def record_message_delta_def
  record_message_completed_def expect_def

lemma ready_key_reads:
  "event_ready e \<Longrightarrow> ev_event_type e \<in> {PhaseEntered} \<Longrightarrow> lifecycle_phase_key e \<noteq> Err (Panic p)"
  "event_ready e \<Longrightarrow> ev_event_type e \<in> {PhaseCompleted, PhaseFailed} \<Longrightarrow> terminal_phase_matches e k \<noteq> Err (Panic p)"
  by (auto simp: event_ready_def lifecycle_reads terminal_phase_matches_def and_then_eq_Err split: if_splits option.splits)

lemma validate_kind_no_panic:
  assumes "event_ready e"
  shows "validate_event_kind s n e (ev_event_type e) \<noteq> Err (Panic p)"
  using assms ready_key_reads [OF assms]
  by (cases "ev_event_type e")
    (auto simp: validate_arms lifecycle_reads event_ready_def ensure_def and_then_eq_Err Let_def split: if_splits option.splits)

lemma record_phase_terminal_total:
  "ev_flow_id e = Some f \<Longrightarrow> json_get_str (ev_payload e) ''phase_execution_id'' = Some x \<Longrightarrow>
   \<exists>s'. record_phase_terminal s n e = Ok s'"
  by (simp add: record_phase_terminal_def expect_def lifecycle_payload_string_def Let_def del: and_then_eq_Ok)

lemma record_total:
  assumes "event_ready e" "validate_event_kind s n e (ev_event_type e) = Ok ()"
  shows "\<exists>s'. lifecycle_record_event s n e = Ok s'"
proof (cases "ev_event_type e \<in> {PhaseCompleted, PhaseFailed}")
  case True
  with assms obtain f x where "ev_flow_id e = Some f" "json_get_str (ev_payload e) ''phase_execution_id'' = Some x"
    by (auto simp: validate_phase_terminal_def lifecycle_reads split: option.splits)
  with True show ?thesis
    using record_phase_terminal_total [of e f x s n] by (auto simp: lifecycle_record_event_def)
next
  case False
  with assms show ?thesis
    by (cases "ev_event_type e")
      (auto simp: lifecycle_record_event_def validate_arms record_arms lifecycle_reads event_ready_def Let_def
        split: if_splits option.splits)
qed

subsection \<open>The lifecycle as a transition system\<close>

text \<open>
  An abstract machine over the same states. A flow is running when it is started and not terminal; the
  guards of a transition are conditions on the state and not a sequence of early returns.
\<close>

definition flow_running :: "SessionLifecycleState \<Rightarrow> string \<Rightarrow> bool" where
  "flow_running s f \<longleftrightarrow> bs_contains (lt_active (lc_flows s)) f \<and> bt_get (lt_terminal (lc_flows s)) f = None"

definition tool_running :: "SessionLifecycleState \<Rightarrow> ToolLifecycleKey \<Rightarrow> bool" where
  "tool_running s t \<longleftrightarrow> bs_contains (lt_active (lc_tools s)) t \<and> bt_get (lt_terminal (lc_tools s)) t = None"

definition parent_ok :: "SessionLifecycleState \<Rightarrow> EventEnvelope \<Rightarrow> string \<Rightarrow> bool" where
  "parent_ok s e f \<longleftrightarrow>
     (\<forall>p. ev_parent_flow_id e = Some p \<longrightarrow> p \<noteq> f \<and> flow_running s p) \<and>
     (\<forall>p. bt_get (lc_flow_parents s) f = Some p \<longrightarrow> p = ev_parent_flow_id e)"

definition event_scope :: "SessionLifecycleState \<Rightarrow> EventEnvelope \<Rightarrow> bool" where
  "event_scope s e \<longleftrightarrow>
     (case ev_flow_id e of
        None \<Rightarrow> ev_parent_flow_id e = None
      | Some f \<Rightarrow> (ev_event_type e \<noteq> FlowStarted \<longrightarrow> flow_running s f) \<and> parent_ok s e f)"

definition leaf_active :: "SessionLifecycleState \<Rightarrow> string \<Rightarrow> bool" where
  "leaf_active s f \<longleftrightarrow> (\<exists>p. active_phase (lc_active_phases s) f = Some p \<and> pk_phase_kind p = Leaf)"

definition phases_of :: "SessionLifecycleState \<Rightarrow> string \<Rightarrow> PhaseLifecycleKey list" where
  "phases_of s f = (case bt_get (lc_active_phases s) f of Some ps \<Rightarrow> ps | None \<Rightarrow> [])"

inductive lifecycle_step :: "nat \<Rightarrow> SessionLifecycleState \<Rightarrow> EventEnvelope \<Rightarrow> SessionLifecycleState \<Rightarrow> bool" for n s e where
  flow_start: "lifecycle_step n s e (s\<lparr> lc_flow_definition_ids := bt_insert f d (lc_flow_definition_ids s),
      lc_flow_parents := bt_insert f (ev_parent_flow_id e) (lc_flow_parents s),
      lc_flows := tracker_start f (lc_flows s) \<rparr>)"
    if "event_scope s e" "ev_event_type e = FlowStarted" "ev_flow_id e = Some f"
      "lifecycle_payload_string e ''flow_definition_id'' = Ok d"
| flow_end: "lifecycle_step n s e (s\<lparr> lc_flows := tracker_finish f n (lc_flows s) \<rparr>)"
    if "event_scope s e" "ev_event_type e \<in> {FlowCompleted, FlowFailed}" "ev_flow_id e = Some f"
      "lifecycle_payload_string e ''flow_definition_id'' = Ok d" "bt_get (lc_flow_definition_ids s) f = Some d"
      "active_phase (lc_active_phases s) f = None"
      "\<forall>c. bs_contains (lt_active (lc_flows s)) c \<longrightarrow> bt_get (lc_flow_parents s) c \<noteq> Some (Some f)"
| phase_enter: "lifecycle_step n s e (s\<lparr> lc_active_phases := bt_insert f (phases_of s f @ [p]) (lc_active_phases s) \<rparr>)"
    if "event_scope s e" "ev_event_type e = PhaseEntered" "ev_flow_id e = Some f" "lifecycle_phase_key e = Ok p"
      "bt_get (lc_terminal_phases s) (pk_phase_execution_id p) = None"
      "\<forall>q \<in> set (concat (map snd (lc_active_phases s))). pk_phase_execution_id q \<noteq> pk_phase_execution_id p"
      "\<not> leaf_active s f"
| phase_end: "lifecycle_step n s e (s\<lparr> lc_active_phases := ps, lc_terminal_phases := bt_insert x n (lc_terminal_phases s) \<rparr>)"
    if "event_scope s e" "ev_event_type e \<in> {PhaseCompleted, PhaseFailed}" "ev_flow_id e = Some f"
      "lifecycle_payload_string e ''phase_execution_id'' = Ok x" "bt_get (lc_terminal_phases s) x = None"
      "active_phase (lc_active_phases s) f = Some p" "terminal_phase_matches e p = Ok True"
      "\<forall>t. bs_contains (lt_active (lc_tools s)) t \<longrightarrow> tk_phase_execution_id t \<noteq> Some x"
      "\<forall>m \<in> fst ` set (lc_active_message_roles s). mk_flow_id m \<noteq> f"
      "ps = (if butlast (phases_of s f) = [] then bt_remove f (lc_active_phases s)
             else bt_insert f (butlast (phases_of s f)) (lc_active_phases s))"
| tool_start: "lifecycle_step n s e (s\<lparr> lc_tools_without_progress := bs_insert t (lc_tools_without_progress s),
      lc_tools := tracker_start t (lc_tools s) \<rparr>)"
    if "event_scope s e" "ev_event_type e = ToolStarted" "ev_flow_id e = Some f" "leaf_active s f"
      "lifecycle_tool_key e (lc_active_phases s) = Ok t" "\<not> is_started (lc_tools s) t"
| tool_progress: "lifecycle_step n s e (s\<lparr> lc_tools_without_progress := bt_remove t (lc_tools_without_progress s) \<rparr>)"
    if "event_scope s e" "ev_event_type e = ToolProgress"
      "lifecycle_tool_key e (lc_active_phases s) = Ok t" "tool_running s t"
| tool_end: "lifecycle_step n s e (s\<lparr> lc_tools := tracker_finish t n (lc_tools s),
      lc_tools_without_progress := bt_remove t (lc_tools_without_progress s) \<rparr>)"
    if "event_scope s e" "ev_event_type e \<in> {ToolCompleted, ToolTimedOut}"
      "lifecycle_tool_key e (lc_active_phases s) = Ok t" "tool_running s t"
| tool_fail: "lifecycle_step n s e (s\<lparr> lc_tools := tracker_finish t n (lc_tools s),
      lc_tools_without_progress := bt_remove t (lc_tools_without_progress s) \<rparr>)"
    if "event_scope s e" "ev_event_type e = ToolFailed" "ev_flow_id e = Some f"
      "lifecycle_tool_key e (lc_active_phases s) = Ok t" "bt_get (lt_terminal (lc_tools s)) t = None"
      "tool_running s t \<or> bt_get (lc_active_phases s) f = None"
| message_delta: "lifecycle_step n s e
      (if contains_key (lc_active_message_roles s) m then s
       else s\<lparr> lc_active_message_roles := bt_insert m r (lc_active_message_roles s) \<rparr>)"
    if "event_scope s e" "ev_event_type e = MessageDelta" "lifecycle_message_key n e = Ok m" "leaf_active s (mk_flow_id m)"
      "lifecycle_payload_string e ''role'' = Ok r" "bt_get (lc_terminal_messages s) m = None"
      "bt_get (lc_active_message_roles s) m \<in> {None, Some r}"
| message_end: "lifecycle_step n s e (s\<lparr> lc_active_message_roles := bt_remove m (lc_active_message_roles s),
      lc_terminal_messages := bt_insert m n (lc_terminal_messages s) \<rparr>)"
    if "event_scope s e" "ev_event_type e = MessageCompleted" "lifecycle_message_key n e = Ok m" "leaf_active s (mk_flow_id m)"
      "lifecycle_payload_string e ''role'' = Ok r" "bt_get (lc_terminal_messages s) m = None"
      "bt_get (lc_active_message_roles s) m = Some r"
| other: "lifecycle_step n s e s"
    if "event_scope s e" "ev_event_type e = SessionStarted \<Longrightarrow> n \<le> 1" "lifecycle_fields (ev_event_type e) = []"

inductive_simps lifecycle_step_simps: "lifecycle_step n s e s'"

lemma scope_checks:
  "validate_event_flow s n e = Ok () \<and> validate_lifecycle_parent n e (lc_flows s) (lc_flow_parents s) = Ok () \<longleftrightarrow> event_scope s e"
  by (auto simp: validate_event_flow_def validate_lifecycle_parent_def event_scope_def parent_ok_def flow_running_def
      is_started_def terminal_line_def contains_key_def split: option.splits if_splits)

lemma reject_some: "(case x of None \<Rightarrow> r | Some y \<Rightarrow> Err (f y)) = Ok u \<longleftrightarrow> x = None \<and> r = Ok u"
  by (cases x) auto

lemma reject_if: "(if b then Err x else r) = Ok u \<longleftrightarrow> \<not> b \<and> r = Ok u"
  by simp

lemma lifecycle_validate_event_iff:
  "lifecycle_validate_event s n e = Ok () \<longleftrightarrow>
     (ev_event_type e = SessionStarted \<longrightarrow> n \<le> 1) \<and> event_scope s e \<and> validate_event_kind s n e (ev_event_type e) = Ok ()"
  using scope_checks [of s n e] by (auto simp: lifecycle_validate_event_def not_less)

lemmas lifecycle_views = is_started_def terminal_line_def active_keys_def contains_key_def tool_running_def leaf_active_def
  phases_of_def find_None_iff

lemma flow_arms:
  "validate_flow_terminal s n e = Ok () \<and> record_flow_terminal s n e = Ok s' \<longleftrightarrow>
    (\<exists>f d. ev_flow_id e = Some f \<and> lifecycle_payload_string e ''flow_definition_id'' = Ok d \<and>
      bt_get (lc_flow_definition_ids s) f = Some d \<and> active_phase (lc_active_phases s) f = None \<and>
      (\<forall>c. bs_contains (lt_active (lc_flows s)) c \<longrightarrow> bt_get (lc_flow_parents s) c \<noteq> Some (Some f)) \<and>
      s' = s\<lparr> lc_flows := tracker_finish f n (lc_flows s) \<rparr>)"
  by (cases "ev_flow_id e")
    (auto simp: validate_flow_terminal_def record_flow_terminal_def require_lifecycle_flow_id_def expect_def
      reject_some reject_if find_None_iff active_keys_def bind_eq_Some_conv)

lemma phase_enter_arms:
  "validate_phase_entered s n e = Ok () \<and> record_phase_entered s e = Ok s' \<longleftrightarrow>
    (\<exists>f p. ev_flow_id e = Some f \<and> lifecycle_phase_key e = Ok p \<and>
      bt_get (lc_terminal_phases s) (pk_phase_execution_id p) = None \<and>
      (\<forall>q \<in> set (concat (map snd (lc_active_phases s))). pk_phase_execution_id q \<noteq> pk_phase_execution_id p) \<and>
      \<not> leaf_active s f \<and>
      s' = s\<lparr> lc_active_phases := bt_insert f (phases_of s f @ [p]) (lc_active_phases s) \<rparr>)"
  by (cases "ev_flow_id e")
    (auto simp: validate_phase_entered_def record_phase_entered_def require_lifecycle_flow_id_def expect_def
      reject_some reject_if leaf_active_def phases_of_def list_ex_iff Let_def split: option.splits)

lemma phase_end_arms:
  "validate_phase_terminal s n e = Ok () \<and> record_phase_terminal s n e = Ok s' \<longleftrightarrow>
    (\<exists>f x p. ev_flow_id e = Some f \<and> lifecycle_payload_string e ''phase_execution_id'' = Ok x \<and>
      bt_get (lc_terminal_phases s) x = None \<and>
      active_phase (lc_active_phases s) f = Some p \<and> terminal_phase_matches e p = Ok True \<and>
      (\<forall>t. bs_contains (lt_active (lc_tools s)) t \<longrightarrow> tk_phase_execution_id t \<noteq> Some x) \<and>
      (\<forall>m \<in> fst ` set (lc_active_message_roles s). mk_flow_id m \<noteq> f) \<and>
      s' = s\<lparr> lc_active_phases := (if butlast (phases_of s f) = [] then bt_remove f (lc_active_phases s)
             else bt_insert f (butlast (phases_of s f)) (lc_active_phases s)),
             lc_terminal_phases := bt_insert x n (lc_terminal_phases s) \<rparr>)"
proof (cases "ev_flow_id e")
  case (Some f)
  have stacks: "(case bt_get (lc_active_phases s) f of
      None \<Rightarrow> lc_active_phases s
    | Some phases \<Rightarrow> if butlast phases = [] then bt_remove f (lc_active_phases s)
        else bt_insert f (butlast phases) (lc_active_phases s)) =
    (if butlast (phases_of s f) = [] then bt_remove f (lc_active_phases s)
     else bt_insert f (butlast (phases_of s f)) (lc_active_phases s))" if "active_phase (lc_active_phases s) f = Some p" for p
    using that by (auto simp: phases_of_def active_phase_def split: option.splits)
  from Some show ?thesis
    by (cases "active_phase (lc_active_phases s) f")
      (auto simp: validate_phase_terminal_def record_phase_terminal_def require_lifecycle_flow_id_def expect_def
        reject_some reject_if stacks find_None_iff active_keys_def Let_def)
qed (auto simp: validate_phase_terminal_def require_lifecycle_flow_id_def reject_some)

lemma tool_start_arms:
  "validate_tool_start s n e = Ok () \<and> record_tool_started s e = Ok s' \<longleftrightarrow>
    (\<exists>f t. ev_flow_id e = Some f \<and> leaf_active s f \<and> lifecycle_tool_key e (lc_active_phases s) = Ok t \<and>
      \<not> is_started (lc_tools s) t \<and>
      s' = s\<lparr> lc_tools_without_progress := bs_insert t (lc_tools_without_progress s),
             lc_tools := tracker_start t (lc_tools s) \<rparr>)"
  by (cases "ev_flow_id e")
    (auto simp: validate_tool_start_def record_tool_started_def require_active_leaf_phase_def
      require_lifecycle_flow_id_def leaf_active_def reject_terminal_tool_event_def is_started_def terminal_line_def
      contains_key_def reject_some)

lemma tool_step_arms:
  "validate_tool_step s n e = Ok () \<longleftrightarrow>
    (\<exists>t. lifecycle_tool_key e (lc_active_phases s) = Ok t \<and> tool_running s t)"
  by (auto simp: validate_tool_step_def reject_terminal_tool_event_def reject_some lifecycle_views)

lemma tool_fail_arms:
  "validate_tool_failed s n e = Ok () \<longleftrightarrow>
    (\<exists>f t. ev_flow_id e = Some f \<and> lifecycle_tool_key e (lc_active_phases s) = Ok t \<and>
      bt_get (lt_terminal (lc_tools s)) t = None \<and> (tool_running s t \<or> bt_get (lc_active_phases s) f = None))"
  by (auto simp: validate_tool_failed_def require_lifecycle_flow_id_def reject_terminal_tool_event_def reject_some
      lifecycle_views Let_def)

lemma active_work: "require_active_work s n e = Ok () \<longleftrightarrow> (\<exists>f. ev_flow_id e = Some f \<and> leaf_active s f)"
  by (cases "ev_flow_id e")
    (auto simp: require_active_work_def require_active_leaf_phase_def require_lifecycle_flow_id_def leaf_active_def)

lemma message_key_flow: "lifecycle_message_key n e = Ok m \<Longrightarrow> ev_flow_id e = Some (mk_flow_id m)"
  by (auto simp: lifecycle_message_key_def require_lifecycle_flow_id_def)

lemma message_delta_arms:
  "require_active_work s n e = Ok () \<and> validate_message_delta s n e = Ok () \<and> record_message_delta s e = Ok s' \<longleftrightarrow>
    (\<exists>m r. lifecycle_message_key n e = Ok m \<and> leaf_active s (mk_flow_id m) \<and> lifecycle_payload_string e ''role'' = Ok r \<and>
      bt_get (lc_terminal_messages s) m = None \<and> bt_get (lc_active_message_roles s) m \<in> {None, Some r} \<and>
      s' = (if contains_key (lc_active_message_roles s) m then s
            else s\<lparr> lc_active_message_roles := bt_insert m r (lc_active_message_roles s) \<rparr>))"
proof (cases "ev_flow_id e")
  case (Some f)
  show ?thesis
  proof (cases "lifecycle_payload_string e ''message_id''")
    case (Ok i)
    with Some show ?thesis
      by (cases "lifecycle_payload_string e ''role''"; cases "bt_get (lc_active_message_roles s) (MessageLifecycleKey f i)")
        (auto simp: active_work validate_message_delta_def record_message_delta_def lifecycle_message_key_def
          require_lifecycle_flow_id_def expect_def reject_some contains_key_def Let_def)
  qed (simp add: validate_message_delta_def lifecycle_message_key_def Some require_lifecycle_flow_id_def)
qed (simp add: active_work lifecycle_message_key_def require_lifecycle_flow_id_def)

lemma message_end_arms:
  "require_active_work s n e = Ok () \<and> validate_message_completed s n e = Ok () \<and> record_message_completed s n e = Ok s' \<longleftrightarrow>
    (\<exists>m r. lifecycle_message_key n e = Ok m \<and> leaf_active s (mk_flow_id m) \<and> lifecycle_payload_string e ''role'' = Ok r \<and>
      bt_get (lc_terminal_messages s) m = None \<and> bt_get (lc_active_message_roles s) m = Some r \<and>
      s' = s\<lparr> lc_active_message_roles := bt_remove m (lc_active_message_roles s),
             lc_terminal_messages := bt_insert m n (lc_terminal_messages s) \<rparr>)"
proof (cases "ev_flow_id e")
  case (Some f)
  show ?thesis
  proof (cases "lifecycle_payload_string e ''message_id''")
    case (Ok i)
    with Some show ?thesis
      by (cases "lifecycle_payload_string e ''role''"; cases "bt_get (lc_active_message_roles s) (MessageLifecycleKey f i)")
        (auto simp: active_work validate_message_completed_def record_message_completed_def lifecycle_message_key_def
          require_lifecycle_flow_id_def expect_def reject_some Let_def)
  qed (simp add: validate_message_completed_def lifecycle_message_key_def Some require_lifecycle_flow_id_def)
qed (simp add: active_work lifecycle_message_key_def require_lifecycle_flow_id_def)

lemma flow_start_arms:
  "require_lifecycle_flow_id n e = Ok f \<longleftrightarrow> ev_flow_id e = Some f"
  "record_flow_started s e = Ok s' \<longleftrightarrow>
    (\<exists>f d. ev_flow_id e = Some f \<and> lifecycle_payload_string e ''flow_definition_id'' = Ok d \<and>
      s' = s\<lparr> lc_flow_definition_ids := bt_insert f d (lc_flow_definition_ids s),
             lc_flow_parents := bt_insert f (ev_parent_flow_id e) (lc_flow_parents s),
             lc_flows := tracker_start f (lc_flows s) \<rparr>)"
  by (auto simp: require_lifecycle_flow_id_def record_flow_started_def expect_def)

lemma tool_record_arms:
  "record_tool_progress s e = Ok s' \<longleftrightarrow> (\<exists>t. lifecycle_tool_key e (lc_active_phases s) = Ok t \<and>
      s' = s\<lparr> lc_tools_without_progress := bt_remove t (lc_tools_without_progress s) \<rparr>)"
  "record_tool_terminal s n e = Ok s' \<longleftrightarrow> (\<exists>t. lifecycle_tool_key e (lc_active_phases s) = Ok t \<and>
      s' = s\<lparr> lc_tools := tracker_finish t n (lc_tools s),
             lc_tools_without_progress := bt_remove t (lc_tools_without_progress s) \<rparr>)"
  by (auto simp: record_tool_progress_def record_tool_terminal_def)

lemma phase_end_step:
  assumes "event_scope s e" "ev_event_type e \<in> {PhaseCompleted, PhaseFailed}"
  shows "lifecycle_step n s e s' \<longleftrightarrow> validate_phase_terminal s n e = Ok () \<and> record_phase_terminal s n e = Ok s'"
proof
  assume "lifecycle_step n s e s'"
  then show "validate_phase_terminal s n e = Ok () \<and> record_phase_terminal s n e = Ok s'"
  proof cases
    case (phase_end f x p ps)
    then show ?thesis unfolding phase_end_arms by (intro exI [of _ f] exI [of _ x] exI [of _ p]) simp
  qed (use assms in auto)
next
  assume "validate_phase_terminal s n e = Ok () \<and> record_phase_terminal s n e = Ok s'"
  then show "lifecycle_step n s e s'"
    unfolding phase_end_arms by (elim exE conjE) (simp only:, rule lifecycle_step.phase_end [OF assms]; (assumption | rule refl))
qed

lemma lifecycle_step_iff:
  "lifecycle_step n s e s' \<longleftrightarrow> lifecycle_validate_event s n e = Ok () \<and> lifecycle_record_event s n e = Ok s'"
proof (cases "event_scope s e")
  case True
  show ?thesis
  proof (cases "ev_event_type e")
    case FlowStarted
    with True show ?thesis
      by (simp add: lifecycle_step_simps lifecycle_validate_event_iff lifecycle_record_event_def flow_start_arms) blast
  next
    case FlowCompleted
    with True show ?thesis
      using flow_arms [of s n e s']
      by (simp add: lifecycle_step_simps lifecycle_validate_event_iff lifecycle_record_event_def) blast
  next
    case FlowFailed
    with True show ?thesis
      using flow_arms [of s n e s']
      by (simp add: lifecycle_step_simps lifecycle_validate_event_iff lifecycle_record_event_def) blast
  next
    case PhaseEntered
    with True show ?thesis
      using phase_enter_arms [of s n e s']
      by (simp add: lifecycle_step_simps lifecycle_validate_event_iff lifecycle_record_event_def) blast
  next
    case PhaseCompleted
    with True show ?thesis
      by (simp add: phase_end_step lifecycle_validate_event_iff lifecycle_record_event_def)
  next
    case PhaseFailed
    with True show ?thesis
      by (simp add: phase_end_step lifecycle_validate_event_iff lifecycle_record_event_def)
  next
    case ToolStarted
    with True show ?thesis
      using tool_start_arms [of s n e s']
      by (simp add: lifecycle_step_simps lifecycle_validate_event_iff lifecycle_record_event_def) blast
  next
    case MessageDelta
    with True show ?thesis
      using message_delta_arms [of s n e s']
      by (simp add: lifecycle_step_simps lifecycle_validate_event_iff lifecycle_record_event_def) blast
  next
    case MessageCompleted
    with True show ?thesis
      using message_end_arms [of s n e s']
      by (simp add: lifecycle_step_simps lifecycle_validate_event_iff lifecycle_record_event_def) blast
  qed (use True in \<open>auto simp: lifecycle_step_simps lifecycle_validate_event_iff lifecycle_record_event_def
      tool_step_arms tool_fail_arms tool_record_arms\<close>)
qed (auto simp: lifecycle_step_simps lifecycle_validate_event_iff)

text \<open>
  C3: the lifecycle code implements the transition system. An event is accepted by the validation and
  recorded as the state \<open>s'\<close> exactly when the abstract machine has a transition for it to \<open>s'\<close>.
\<close>

theorem lifecycle_implements_transitions:
  "lifecycle_validate_event s n e = Ok () \<and> lifecycle_record_event s n e = Ok s' \<longleftrightarrow> lifecycle_step n s e s'"
  by (rule lifecycle_step_iff [symmetric])

end
