(* ===== verification/Lifecycle_Invariant.thy ===== *)
theory Lifecycle_Invariant
  imports Lifecycle
begin

text \<open>
  The invariant of the session lifecycle and its preservation by every transition: phases belong to
  active flows, tools and messages to the active leaf phase of their flow, an active flow has an active
  parent, and the parents form a forest.
\<close>

subsection \<open>The invariant\<close>

definition lifecycle_wf :: "SessionLifecycleState \<Rightarrow> bool" where
  "lifecycle_wf s \<longleftrightarrow> bt_wf (lt_active (lc_flows s)) \<and> bt_wf (lt_terminal (lc_flows s)) \<and> bt_wf (lc_flow_definition_ids s) \<and>
     bt_wf (lc_flow_parents s) \<and> bt_wf (lc_terminal_phases s) \<and> bt_wf (lt_active (lc_tools s)) \<and>
     bt_wf (lt_terminal (lc_tools s)) \<and> bt_wf (lc_terminal_messages s) \<and> bt_wf (lc_active_message_roles s) \<and>
     bt_wf (lc_active_phases s) \<and> bt_wf (lc_tools_without_progress s)"

abbreviation flow_active :: "SessionLifecycleState \<Rightarrow> string \<Rightarrow> bool" where
  "flow_active s f \<equiv> bs_contains (lt_active (lc_flows s)) f"

abbreviation parent_edges :: "SessionLifecycleState \<Rightarrow> (string \<times> string) set" where
  "parent_edges s \<equiv> {(f, p). bt_get (lc_flow_parents s) f = Some (Some p)}"

text \<open>No flow is active and terminal; an active flow has an active parent; the parents form a forest.\<close>

definition flows_inv :: "SessionLifecycleState \<Rightarrow> bool" where
  "flows_inv s \<longleftrightarrow>
     (\<forall>f. flow_active s f \<longrightarrow> bt_get (lt_terminal (lc_flows s)) f = None) \<and>
     (\<forall>f. bt_get (lc_flow_parents s) f \<noteq> None \<longleftrightarrow> is_started (lc_flows s) f) \<and>
     (\<forall>f. bt_get (lc_flow_definition_ids s) f \<noteq> None \<longleftrightarrow> is_started (lc_flows s) f) \<and>
     (\<forall>f p. flow_active s f \<and> bt_get (lc_flow_parents s) f = Some (Some p) \<longrightarrow> flow_active s p) \<and>
     (\<forall>f p. bt_get (lc_flow_parents s) f = Some (Some p) \<longrightarrow> is_started (lc_flows s) p) \<and>
     acyclic (parent_edges s)"

text \<open>
  A flow with active phases is active, a leaf phase is the innermost one, and every phase execution
  runs at most once.
\<close>

definition stack_ok :: "(string, nat) btree \<Rightarrow> PhaseLifecycleKey list \<Rightarrow> bool" where
  "stack_ok finished ps \<longleftrightarrow> ps \<noteq> [] \<and> (\<forall>p \<in> set (butlast ps). pk_phase_kind p = Composite) \<and>
     distinct (map pk_phase_execution_id ps) \<and> (\<forall>p \<in> set ps. bt_get finished (pk_phase_execution_id p) = None)"

definition stacks_apart :: "phase_stacks \<Rightarrow> bool" where
  "stacks_apart m \<longleftrightarrow> (\<forall>f g ps qs p q. bt_get m f = Some ps \<and> bt_get m g = Some qs \<and>
     p \<in> set ps \<and> q \<in> set qs \<and> pk_phase_execution_id p = pk_phase_execution_id q \<longrightarrow> f = g)"

definition phases_inv :: "SessionLifecycleState \<Rightarrow> bool" where
  "phases_inv s \<longleftrightarrow>
     (\<forall>f ps. bt_get (lc_active_phases s) f = Some ps \<longrightarrow> flow_active s f \<and> stack_ok (lc_terminal_phases s) ps) \<and>
     stacks_apart (lc_active_phases s)"

text \<open>An active tool belongs to the active leaf phase of its flow.\<close>

definition tools_inv :: "SessionLifecycleState \<Rightarrow> bool" where
  "tools_inv s \<longleftrightarrow>
     (\<forall>t. bs_contains (lt_active (lc_tools s)) t \<longrightarrow> bt_get (lt_terminal (lc_tools s)) t = None \<and>
        (\<exists>f p. tk_flow_id t = Some f \<and> active_phase (lc_active_phases s) f = Some p \<and> pk_phase_kind p = Leaf \<and>
          tk_phase_execution_id t = Some (pk_phase_execution_id p) \<and> tk_phase_id t = Some (pk_phase_id p))) \<and>
     (\<forall>t. bs_contains (lc_tools_without_progress s) t \<longrightarrow> bs_contains (lt_active (lc_tools s)) t)"

text \<open>An active message belongs to a flow with an active leaf phase.\<close>

definition messages_inv :: "SessionLifecycleState \<Rightarrow> bool" where
  "messages_inv s \<longleftrightarrow>
     (\<forall>m r. bt_get (lc_active_message_roles s) m = Some r \<longrightarrow>
        bt_get (lc_terminal_messages s) m = None \<and> leaf_active s (mk_flow_id m))"

definition lifecycle_inv :: "SessionLifecycleState \<Rightarrow> bool" where
  "lifecycle_inv s \<longleftrightarrow> lifecycle_wf s \<and> flows_inv s \<and> phases_inv s \<and> tools_inv s \<and> messages_inv s"

lemma lifecycle_inv_default: "lifecycle_inv SessionLifecycleState_default"
  by (simp add: lifecycle_inv_def lifecycle_wf_def flows_inv_def phases_inv_def stacks_apart_def tools_inv_def messages_inv_def
      SessionLifecycleState_default_def LifecycleTracker_default_def is_started_def contains_key_def acyclic_def)

lemma tracker_simps [simp]:
  "lt_active (tracker_start k t) = bs_insert k (lt_active t)" "lt_terminal (tracker_start k t) = lt_terminal t"
  "lt_active (tracker_finish k n t) = bt_remove k (lt_active t)"
  "lt_terminal (tracker_finish k n t) = bt_insert k n (lt_terminal t)"
  "is_started (tracker_start k t) x \<longleftrightarrow> x = k \<or> is_started t x"
  by (auto simp: tracker_start_def tracker_finish_def is_started_def)

lemma is_started_finish [simp]:
  "bs_contains (lt_active t) k \<Longrightarrow> is_started (tracker_finish k n t) x \<longleftrightarrow> is_started t x"
  by (auto simp: is_started_def contains_key_def)

lemma active_phase_None: "phases_inv s \<Longrightarrow> active_phase (lc_active_phases s) f = None \<longleftrightarrow> bt_get (lc_active_phases s) f = None"
  by (cases "bt_get (lc_active_phases s) f") (auto simp: phases_inv_def stack_ok_def active_phase_def last_opt_def)

lemma active_phase_insert [simp]:
  "active_phase (bt_insert f ps m) g = (if g = f then last_opt ps else active_phase m g)"
  "active_phase (bt_remove f m) g = (if g = f then None else active_phase m g)"
  by (simp_all add: active_phase_def)

lemma step_wf: "lifecycle_step n s e s' \<Longrightarrow> lifecycle_wf s \<Longrightarrow> lifecycle_wf s'"
  by (induction rule: lifecycle_step.induct) (simp_all add: lifecycle_wf_def)

lemma acyclic_new_edge: "acyclic r \<Longrightarrow> a \<notin> Range r \<Longrightarrow> a \<noteq> b \<Longrightarrow> acyclic (insert (a, b) r)"
  by (auto simp: acyclic_insert) (metis Range.intros rtranclE)

lemma step_flows:
  assumes "lifecycle_step n s e s'" "flows_inv s"
    "\<And>f. ev_event_type e = FlowStarted \<Longrightarrow> ev_flow_id e = Some f \<Longrightarrow> \<not> is_started (lc_flows s) f"
  shows "flows_inv s'"
  using assms(1)
proof cases
  case (flow_start f d)
  have fresh: "\<not> is_started (lc_flows s) f" using assms(3) flow_start by simp
  then have new: "bt_get (lc_flow_parents s) f = None" "\<And>g. bt_get (lc_flow_parents s) g \<noteq> Some (Some f)"
    using assms(2) unfolding flows_inv_def by blast+
  have edges: "parent_edges s' = (case ev_parent_flow_id e of None \<Rightarrow> {} | Some p \<Rightarrow> {(f, p)}) \<union> parent_edges s"
    using new(1) by (auto simp: flow_start(1) split: option.splits if_splits)
  have parent: "p \<noteq> f \<and> flow_running s p" if "ev_parent_flow_id e = Some p" for p
    using flow_start that by (simp add: event_scope_def parent_ok_def)
  have "acyclic (parent_edges s')"
    using assms(2) new parent acyclic_new_edge [of "parent_edges s" f]
    by (cases "ev_parent_flow_id e") (auto simp: edges flows_inv_def)
  moreover have "\<forall>g. flow_active s' g \<longrightarrow> bt_get (lt_terminal (lc_flows s')) g = None"
    using assms(2) fresh by (auto simp: flow_start(1) flows_inv_def is_started_def contains_key_def)
  ultimately show ?thesis
    using assms(2) parent new unfolding flows_inv_def
    by (auto simp: flow_start(1) flow_running_def is_started_def)
next
  case (flow_end f d)
  then have "flow_active s f" by (auto simp: event_scope_def flow_running_def)
  with flow_end assms(2) show ?thesis by (auto simp: flows_inv_def)
qed (use assms(2) in \<open>simp_all add: flows_inv_def\<close>)

lemma active_phase_Some:
  "active_phase m f = Some p \<longleftrightarrow> (\<exists>ps. bt_get m f = Some ps \<and> ps \<noteq> [] \<and> p = last ps)"
  by (cases "bt_get m f") (auto simp: active_phase_def last_opt_def)

lemma phases_of_Some: "bt_get (lc_active_phases s) f = Some ps \<Longrightarrow> phases_of s f = ps"
  by (simp add: phases_of_def)

lemma phases_of_mem: "p \<in> set (phases_of s f) \<Longrightarrow> \<exists>ps. bt_get (lc_active_phases s) f = Some ps \<and> p \<in> set ps"
  by (cases "bt_get (lc_active_phases s) f") (auto simp: phases_of_def)

lemma stack_mem: "bt_wf m \<Longrightarrow> bt_get m g = Some qs \<Longrightarrow> q \<in> set qs \<Longrightarrow> q \<in> set (concat (map snd m))"
  by (force simp: bt_get_mem)

lemma matches_execution_id:
  "terminal_phase_matches e p = Ok True \<Longrightarrow> lifecycle_payload_string e ''phase_execution_id'' = Ok x \<Longrightarrow> pk_phase_execution_id p = x"
  by (auto simp: terminal_phase_matches_def split: if_splits)

lemma entered_stack_composite:
  assumes "phases_inv s" "\<not> leaf_active s f" "p \<in> set (phases_of s f)"
  shows "pk_phase_kind p = Composite"
proof -
  obtain ps where ps: "bt_get (lc_active_phases s) f = Some ps" "phases_of s f = ps" "p \<in> set ps"
    using assms(3) phases_of_mem phases_of_Some by metis
  then have "ps \<noteq> []" by auto
  then have "active_phase (lc_active_phases s) f = Some (last ps)" using ps(1) by (simp add: active_phase_Some)
  with assms(2) have "pk_phase_kind (last ps) = Composite"
    by (cases "pk_phase_kind (last ps)") (auto simp: leaf_active_def)
  moreover have "\<forall>p \<in> set (butlast ps). pk_phase_kind p = Composite" using assms(1) ps(1) by (simp add: phases_inv_def stack_ok_def)
  moreover have "set ps = insert (last ps) (set (butlast ps))"
    using \<open>ps \<noteq> []\<close> by (cases ps rule: rev_cases) auto
  ultimately show ?thesis using ps(3) by auto
qed

lemma stacks_apart_push:
  assumes "stacks_apart m" "\<And>g qs q. bt_get m g = Some qs \<Longrightarrow> q \<in> set qs \<Longrightarrow> pk_phase_execution_id q \<noteq> pk_phase_execution_id p"
    "\<And>q. q \<in> set ps \<Longrightarrow> \<exists>qs. bt_get m f = Some qs \<and> q \<in> set qs"
  shows "stacks_apart (bt_insert f (ps @ [p]) m)"
proof -
  have old: "g = f" if h: "bt_get m g = Some qs" "q \<in> set qs" "r \<in> set (ps @ [p])"
      "pk_phase_execution_id q = pk_phase_execution_id r" for g qs q r
  proof (cases "r = p")
    case True
    with assms(2) h show ?thesis by blast
  next
    case False
    then obtain rs where "bt_get m f = Some rs" "r \<in> set rs" using h(3) assms(3) by auto
    with h assms(1) show ?thesis unfolding stacks_apart_def by blast
  qed
  show ?thesis
    unfolding stacks_apart_def
  proof (intro allI impI, elim conjE)
    fix g h qs rs q r
    assume h: "bt_get (bt_insert f (ps @ [p]) m) g = Some qs" "bt_get (bt_insert f (ps @ [p]) m) h = Some rs"
      "q \<in> set qs" "r \<in> set rs" "pk_phase_execution_id q = pk_phase_execution_id r"
    then have "g = f \<and> h \<noteq> f \<Longrightarrow> h = f" "h = f \<and> g \<noteq> f \<Longrightarrow> g = f"
      using old [of g qs q r] old [of h rs r q] by auto
    moreover have "g \<noteq> f \<and> h \<noteq> f \<Longrightarrow> bt_get m g = Some qs \<and> bt_get m h = Some rs" using h by simp
    then have "g \<noteq> f \<and> h \<noteq> f \<Longrightarrow> g = h" using h(3-5) assms(1) unfolding stacks_apart_def by blast
    ultimately show "g = h" by blast
  qed
qed

lemma stacks_apart_sub:
  assumes "stacks_apart m" "\<And>g qs. bt_get m' g = Some qs \<Longrightarrow> \<exists>rs. bt_get m g = Some rs \<and> set qs \<subseteq> set rs"
  shows "stacks_apart m'"
  using assms unfolding stacks_apart_def by (meson subsetD)

lemma stack_ok_push:
  "stack_ok T (ps @ [p])" if "\<forall>q \<in> set ps. pk_phase_kind q = Composite" "ps \<noteq> [] \<Longrightarrow> stack_ok T ps"
    "bt_get T (pk_phase_execution_id p) = None" "\<forall>q \<in> set ps. pk_phase_execution_id q \<noteq> pk_phase_execution_id p"
  using that by (cases "ps = []") (auto simp: stack_ok_def)

lemma stack_ok_pop:
  assumes "stack_ok T ps" "butlast ps \<noteq> []"
  shows "stack_ok (bt_insert (pk_phase_execution_id (last ps)) n T) (butlast ps)"
proof -
  obtain qs p where "ps = qs @ [p]" using assms(1) by (auto simp: stack_ok_def dest: append_butlast_last_id [symmetric])
  with assms show ?thesis by (auto simp: stack_ok_def dest: in_set_butlastD) (metis image_eqI)
qed

lemma stack_ok_other:
  "stack_ok T qs \<Longrightarrow> \<forall>q \<in> set qs. pk_phase_execution_id q \<noteq> x \<Longrightarrow> stack_ok (bt_insert x n T) qs"
  by (simp add: stack_ok_def)

lemma step_phases:
  assumes "lifecycle_step n s e s'" "phases_inv s" "lifecycle_wf s"
  shows "phases_inv s'"
  using assms(1)
proof cases
  case (flow_end f d)
  then have "bt_get (lc_active_phases s) f = None" using active_phase_None [OF assms(2)] by simp
  with flow_end assms(2) show ?thesis by (auto simp: phases_inv_def)
next
  case (phase_enter f p)
  have wf: "bt_wf (lc_active_phases s)" using assms(3) by (simp add: lifecycle_wf_def)
  have fresh: "pk_phase_execution_id q \<noteq> pk_phase_execution_id p" if "bt_get (lc_active_phases s) g = Some qs" "q \<in> set qs" for g q qs
    using stack_mem [OF wf that] phase_enter by auto
  have "stack_ok (lc_terminal_phases s) (phases_of s f @ [p])"
  proof (rule stack_ok_push)
    show "\<forall>q \<in> set (phases_of s f). pk_phase_kind q = Composite"
      using entered_stack_composite [OF assms(2)] phase_enter by simp
    show "stack_ok (lc_terminal_phases s) (phases_of s f)" if "phases_of s f \<noteq> []"
      using that assms(2) by (cases "bt_get (lc_active_phases s) f") (auto simp: phases_of_def phases_inv_def)
    show "\<forall>q \<in> set (phases_of s f). pk_phase_execution_id q \<noteq> pk_phase_execution_id p"
      using fresh phases_of_mem by blast
  qed (use phase_enter in simp)
  moreover have "stacks_apart (bt_insert f (phases_of s f @ [p]) (lc_active_phases s))"
    using assms(2) fresh phases_of_mem by (intro stacks_apart_push) (auto simp: phases_inv_def)
  moreover have "flow_active s f" using phase_enter by (auto simp: event_scope_def flow_running_def)
  ultimately show ?thesis using assms(2) by (auto simp: phase_enter(1) phases_inv_def)
next
  case (phase_end f x p ps)
  then obtain qs where qs: "bt_get (lc_active_phases s) f = Some qs" "qs \<noteq> []" "p = last qs" by (auto simp: active_phase_Some)
  have x: "x = pk_phase_execution_id (last qs)" using matches_execution_id phase_end qs by blast
  have get: "bt_get ps g = (if g = f then (if butlast qs = [] then None else Some (butlast qs)) else bt_get (lc_active_phases s) g)" for g
    by (simp add: phase_end(11) phases_of_Some [OF qs(1)])
  have "stack_ok (bt_insert x n (lc_terminal_phases s)) rs" if "bt_get (lc_active_phases s) g = Some rs" "g \<noteq> f" for g rs
  proof (rule stack_ok_other)
    show "stack_ok (lc_terminal_phases s) rs" using assms(2) that by (simp add: phases_inv_def)
    have "last qs \<in> set qs" using qs(2) by simp
    with assms(2) that qs(1) show "\<forall>q \<in> set rs. pk_phase_execution_id q \<noteq> x"
      unfolding x phases_inv_def stacks_apart_def by metis
  qed
  moreover have "butlast qs \<noteq> [] \<Longrightarrow> stack_ok (bt_insert x n (lc_terminal_phases s)) (butlast qs)"
    using assms(2) qs(1) stack_ok_pop unfolding x phases_inv_def by blast
  moreover have "stacks_apart ps"
  proof (rule stacks_apart_sub)
    show "stacks_apart (lc_active_phases s)" using assms(2) by (simp add: phases_inv_def)
    show "\<exists>rs. bt_get (lc_active_phases s) g = Some rs \<and> set us \<subseteq> set rs" if "bt_get ps g = Some us" for g us
      using that qs(1) by (auto simp: get split: if_splits dest: in_set_butlastD)
  qed
  moreover have "flow_active s g" if "bt_get ps g = Some us" for g us
    using that qs(1) assms(2) by (auto simp: get phases_inv_def split: if_splits)
  ultimately show ?thesis
    unfolding phases_inv_def by (auto simp: phase_end(1) get split: if_splits)
qed (use assms(2) in \<open>simp_all add: phases_inv_def\<close>)

text \<open>Only the transitions of phases change which leaf phase is active, and only in their own flow.\<close>

lemma tool_key_parts:
  assumes "lifecycle_tool_key e m = Ok t" "ev_flow_id e = Some f" "active_phase m f = Some p"
  shows "tk_flow_id t = Some f" "tk_phase_execution_id t = Some (pk_phase_execution_id p)" "tk_phase_id t = Some (pk_phase_id p)"
  using assms by (auto simp: lifecycle_tool_key_def Let_def)

lemma leaf_active_phases:
  "leaf_active (s\<lparr> lc_active_phases := m \<rparr>) f \<longleftrightarrow> (\<exists>p. active_phase m f = Some p \<and> pk_phase_kind p = Leaf)"
  "lc_active_phases s' = lc_active_phases s \<Longrightarrow> leaf_active s' f \<longleftrightarrow> leaf_active s f"
  by (simp_all add: leaf_active_def)

lemma active_tool_leaf: "tools_inv s \<Longrightarrow> bs_contains (lt_active (lc_tools s)) t \<Longrightarrow> \<exists>f. tk_flow_id t = Some f \<and> leaf_active s f"
  by (auto simp: tools_inv_def leaf_active_def)

lemma step_tools:
  assumes "lifecycle_step n s e s'" "tools_inv s"
  shows "tools_inv s'"
  using assms(1)
proof cases
  case (phase_enter f p)
  then have "tk_flow_id t \<noteq> Some f" if "bs_contains (lt_active (lc_tools s)) t" for t
    using active_tool_leaf [OF assms(2) that] by auto
  with assms(2) show ?thesis by (fastforce simp: phase_enter(1) tools_inv_def)
next
  case (phase_end f x p ps)
  then have x: "pk_phase_execution_id p = x" using matches_execution_id by blast
  have "tk_flow_id t \<noteq> Some f" if "bs_contains (lt_active (lc_tools s)) t" for t
    using phase_end(7,9) that assms(2) x unfolding tools_inv_def by fastforce
  with assms(2) show ?thesis by (fastforce simp: phase_end(1,11) tools_inv_def)
next
  case (tool_start f t)
  then obtain p where p: "active_phase (lc_active_phases s) f = Some p" "pk_phase_kind p = Leaf" by (auto simp: leaf_active_def)
  note parts = tool_key_parts [OF tool_start(6,4) p(1)]
  have "bt_get (lt_terminal (lc_tools s)) t = None" using tool_start by (simp add: is_started_def contains_key_def)
  with parts p assms(2) show ?thesis by (auto simp: tool_start(1) tools_inv_def)
next
  case (tool_fail f t)
  with assms(2) show ?thesis by (auto simp: tools_inv_def)
next
  case (message_delta m r)
  with assms(2) show ?thesis by (simp add: tools_inv_def)
qed (use assms(2) in \<open>auto simp: tools_inv_def\<close>)

lemma step_messages:
  assumes "lifecycle_step n s e s'" "messages_inv s" "bt_wf (lc_active_message_roles s)"
  shows "messages_inv s'"
  using assms(1)
proof cases
  case (phase_enter f p)
  then have "mk_flow_id m \<noteq> f" if "bt_get (lc_active_message_roles s) m = Some r" for m r
    using assms(2) that by (auto simp: messages_inv_def)
  with assms(2) show ?thesis by (fastforce simp: phase_enter(1) messages_inv_def leaf_active_def)
next
  case (phase_end f x p ps)
  have "mk_flow_id m \<noteq> f" if "bt_get (lc_active_message_roles s) m = Some r" for m r
    using phase_end(10) that bt_get_mem [OF assms(3)] by force
  with assms(2) show ?thesis by (fastforce simp: phase_end(1,11) messages_inv_def leaf_active_def)
next
  case (message_delta m r)
  with assms(2) show ?thesis by (auto simp: messages_inv_def leaf_active_def)
qed (use assms(2) in \<open>auto simp: messages_inv_def leaf_active_def\<close>)

lemma step_inv:
  assumes "lifecycle_step n s e s'" "lifecycle_inv s"
    "\<And>f. ev_event_type e = FlowStarted \<Longrightarrow> ev_flow_id e = Some f \<Longrightarrow> \<not> is_started (lc_flows s) f"
  shows "lifecycle_inv s'"
  using assms step_wf [OF assms(1)] step_flows [OF assms(1) _ assms(3)] step_phases [OF assms(1)]
    step_tools [OF assms(1)] step_messages [OF assms(1)]
  unfolding lifecycle_inv_def lifecycle_wf_def by blast

text \<open>With the invariant, a session has nothing open as soon as it has no active flow.\<close>

lemma quiescent:
  assumes "lifecycle_inv s" "\<And>f. \<not> flow_active s f"
  shows "lc_active_phases s = []" "active_keys (lc_tools s) = []" "lc_active_message_roles s = []"
proof -
  have none: "bt_get (lc_active_phases s) f = None" for f
    using assms by (cases "bt_get (lc_active_phases s) f") (auto simp: lifecycle_inv_def phases_inv_def)
  have wf: "bt_wf (lc_active_phases s)" "bt_wf (lc_active_message_roles s)" using assms(1) by (auto simp: lifecycle_inv_def lifecycle_wf_def)
  then show "lc_active_phases s = []"
    using none bt_get_mem [OF wf(1)] by (cases "lc_active_phases s") force+
  have leaf: "\<not> leaf_active s f" for f using none by (simp add: leaf_active_def active_phase_def)
  then have "\<not> bs_contains (lt_active (lc_tools s)) t" for t
    using assms(1) active_tool_leaf unfolding lifecycle_inv_def by blast
  then have "set (active_keys (lc_tools s)) = {}" by (simp add: active_keys_def)
  then show "active_keys (lc_tools s) = []" by simp
  have "bt_get (lc_active_message_roles s) m = None" for m
    using leaf assms(1) by (cases "bt_get (lc_active_message_roles s) m") (auto simp: lifecycle_inv_def messages_inv_def)
  then show "lc_active_message_roles s = []"
    using bt_get_mem [OF wf(2)] by (cases "lc_active_message_roles s") force+
qed

lemma terminal_session_iff:
  assumes "lifecycle_inv s" "is_session_end (ev_event_type e)"
  shows "validate_terminal_session s (Some e) = Ok () \<longleftrightarrow> (\<forall>f. \<not> flow_active s f)"
proof
  assume "validate_terminal_session s (Some e) = Ok ()"
  then have "active_keys (lc_flows s) = []"
    using assms(2) by (auto simp: validate_terminal_session_def split: list.splits)
  then show "\<forall>f. \<not> flow_active s f" by (metis active_keys_def bs_iter_set empty_iff list.set(1) mem_Collect_eq)
next
  assume none: "\<forall>f. \<not> flow_active s f"
  then have "set (active_keys (lc_flows s)) = {}" by (simp add: active_keys_def)
  then show "validate_terminal_session s (Some e) = Ok ()"
    using quiescent [OF assms(1)] none assms(2) by (simp add: validate_terminal_session_def)
qed

end
