(* ===== verification/Validate.thy ===== *)
theory Validate
  imports Lifecycle_Invariant
begin

text \<open>
  Validation of a session's event stream: \<open>runtime/validate.rs\<close> of \<open>flow-agent-core\<close>. A stream is a
  sequence of canonical JSON lines; the validation state remembers the identifiers, the byte and line
  budgets and the lifecycle. The JSON parser \<open>serde_json::from_str\<close> is the parameter \<open>from_str\<close> of the
  definitions that read text.
\<close>

subsection \<open>Limits and errors\<close>

definition MAX_CANONICAL_EVENT_BYTES :: nat where "MAX_CANONICAL_EVENT_BYTES = 320 * 1024"
definition MAX_SESSION_EVENT_BYTES :: nat where "MAX_SESSION_EVENT_BYTES = 352 * 1024 * 1024"
definition MAX_FLOW_EVENTS :: nat where "MAX_FLOW_EVENTS = 155750"
definition MAX_FLOW_INVOCATIONS :: nat where "MAX_FLOW_INVOCATIONS = 512"

datatype ProtocolError =
    StreamTooLarge nat
  | StreamMustEndWithLF
  | StreamEmpty
  | InvalidStructure nat EventType EventValidationError
  | SuffixMustEndWithLF
  | CarriageReturn nat
  | EventTooLarge nat nat
  | InvalidJson nat
  | CanonicalFailed nat CanonicalJsonError
  | NotCanonical nat
  | NotAnEvent nat DeserializeError
  | EventBudgetExceeded nat
  | DataBudgetExceeded nat
  | UnexpectedSession string string
  | FirstSequenceNotOne
  | SequenceGap nat
  | DuplicateEventId nat
  | AfterSessionEnd nat nat
  | FlowStartedWithoutFlowId nat
  | DuplicateFlowId nat
  | FlowBudgetExceeded nat
  | MixedSessions
  | FirstNotSessionStarted
  | Lifecycle LifecycleError

type_synonym 'a protocol = "('a, ProtocolError) result"

subsection \<open>The validation state\<close>

record SessionAppendValidationState =
  va_expected_session_id :: "string option"
  va_stream_session_id :: "string option"
  va_previous_sequence :: nat
  va_event_ids :: "string bset"
  va_flow_started_ids :: "string bset"
  va_terminal_line :: "nat option"
  va_stream_bytes :: nat
  va_line_count :: nat
  va_lifecycle :: SessionLifecycleState

definition validation_state_new :: "string option \<Rightarrow> SessionAppendValidationState" where
  "validation_state_new expected_session_id =
     \<lparr> va_expected_session_id = expected_session_id, va_stream_session_id = None, va_previous_sequence = 0,
       va_event_ids = [], va_flow_started_ids = [], va_terminal_line = None, va_stream_bytes = 0,
       va_line_count = 0, va_lifecycle = SessionLifecycleState_default \<rparr>"

definition validation_state_empty :: "string \<Rightarrow> SessionAppendValidationState" where
  "validation_state_empty expected_session_id = validation_state_new (Some expected_session_id)"

definition validation_state_unscoped :: SessionAppendValidationState where
  "validation_state_unscoped = validation_state_new None"

subsection \<open>Checks of one event\<close>

definition validate_structure :: "text_env \<Rightarrow> nat \<Rightarrow> EventEnvelope \<Rightarrow> unit protocol" where
  "validate_structure env line_number event =
     map_err (InvalidStructure line_number (ev_event_type event)) (validate_v0 env event)"

definition validate_event_size :: "nat \<Rightarrow> nat \<Rightarrow> unit protocol" where
  "validate_event_size line_number canonical_bytes =
     ensure (canonical_bytes \<le> MAX_CANONICAL_EVENT_BYTES) (EventTooLarge line_number canonical_bytes)"

definition parse_canonical_event :: "text_env \<Rightarrow> (string \<Rightarrow> json option) \<Rightarrow> nat \<Rightarrow> string \<Rightarrow> EventEnvelope protocol" where
  "parse_canonical_event env from_str line_number line =
     and_then (ok_or (InvalidJson line_number) (from_str line)) (\<lambda>value.
     and_then (map_err (CanonicalFailed line_number) (canonical_json env value)) (\<lambda>canonical.
     and_then (ensure (canonical = line) (NotCanonical line_number)) (\<lambda>_.
     map_err (NotAnEvent line_number) (EventEnvelope_deserialize env value))))"

definition validate_budget :: "SessionAppendValidationState \<Rightarrow> nat \<Rightarrow> nat \<Rightarrow> unit protocol" where
  "validate_budget st line_number canonical_bytes =
     and_then (ensure (\<not> line_number > MAX_FLOW_EVENTS) (EventBudgetExceeded line_number)) (\<lambda>_.
     let stream_bytes = saturating_add_usize (va_stream_bytes st) canonical_bytes in
     ensure (\<not> stream_bytes > MAX_SESSION_EVENT_BYTES) (DataBudgetExceeded line_number))"

definition validate_flow_start :: "SessionAppendValidationState \<Rightarrow> nat \<Rightarrow> EventEnvelope \<Rightarrow> unit protocol" where
  "validate_flow_start st line_number event =
     and_then (ok_or (FlowStartedWithoutFlowId line_number) (ev_flow_id event)) (\<lambda>flow_id.
     and_then (ensure (\<not> bs_contains (va_flow_started_ids st) flow_id) (DuplicateFlowId line_number)) (\<lambda>_.
     ensure (\<not> length (va_flow_started_ids st) \<ge> MAX_FLOW_INVOCATIONS) (FlowBudgetExceeded line_number)))"

definition validate_stream_event :: "SessionAppendValidationState \<Rightarrow> nat \<Rightarrow> EventEnvelope \<Rightarrow> unit protocol" where
  "validate_stream_event st line_number event =
     and_then (case va_expected_session_id st of
         Some expected \<Rightarrow> ensure (expected = ev_session_id event) (UnexpectedSession (ev_session_id event) expected)
       | None \<Rightarrow> Ok ()) (\<lambda>_.
     and_then (ensure (\<not> (line_number = 1 \<and> ev_sequence event \<noteq> 1)) FirstSequenceNotOne) (\<lambda>_.
     and_then (ensure (checked_add_usize (va_previous_sequence st) 1 = Some (ev_sequence event)) (SequenceGap line_number)) (\<lambda>_.
     and_then (ensure (\<not> bs_contains (va_event_ids st) (ev_event_id event)) (DuplicateEventId line_number)) (\<lambda>_.
     and_then (case va_terminal_line st of
         Some line \<Rightarrow> Err (AfterSessionEnd line_number line) | None \<Rightarrow> Ok ()) (\<lambda>_.
     and_then (if ev_event_type event = FlowStarted then validate_flow_start st line_number event else Ok ()) (\<lambda>_.
     and_then (case va_stream_session_id st of
         Some existing \<Rightarrow> ensure (existing = ev_session_id event) MixedSessions | None \<Rightarrow> Ok ()) (\<lambda>_.
     and_then (ensure (\<not> (line_number = 1 \<and> ev_event_type event \<noteq> SessionStarted)) FirstNotSessionStarted) (\<lambda>_.
     and_then (map_err Lifecycle (lifecycle_validate_event (va_lifecycle st) line_number event)) (\<lambda>_.
     if is_session_end (ev_event_type event)
       then map_err Lifecycle (validate_terminal_session (va_lifecycle st) (Some event)) else Ok ())))))))))"

definition record_stream_event ::
    "SessionAppendValidationState \<Rightarrow> nat \<Rightarrow> EventEnvelope \<Rightarrow> nat \<Rightarrow> SessionAppendValidationState protocol" where
  "record_stream_event st line_number event canonical_bytes =
     and_then (if ev_event_type event = FlowStarted
         then map_err Lifecycle (and_then (expect ''validated flow.started events include flow_id'' (ev_flow_id event))
           (\<lambda>flow_id. Ok (bs_insert flow_id (va_flow_started_ids st))))
         else Ok (va_flow_started_ids st)) (\<lambda>flow_started_ids.
     and_then (map_err Lifecycle (lifecycle_record_event (va_lifecycle st) line_number event)) (\<lambda>lifecycle.
     Ok (st\<lparr> va_stream_bytes := saturating_add_usize (va_stream_bytes st) canonical_bytes,
             va_previous_sequence := ev_sequence event,
             va_event_ids := bs_insert (ev_event_id event) (va_event_ids st),
             va_flow_started_ids := flow_started_ids,
             va_stream_session_id := (case va_stream_session_id st of None \<Rightarrow> Some (ev_session_id event) | Some x \<Rightarrow> Some x),
             va_lifecycle := lifecycle,
             va_terminal_line := (if is_session_end (ev_event_type event) then Some line_number else va_terminal_line st),
             va_line_count := line_number \<rparr>)))"

definition validate_constructed_event ::
    "text_env \<Rightarrow> SessionAppendValidationState \<Rightarrow> EventEnvelope \<Rightarrow> nat \<Rightarrow> SessionAppendValidationState protocol" where
  "validate_constructed_event env st event canonical_bytes =
    (let line_number = va_line_count st + 1 in
     and_then (validate_structure env line_number event) (\<lambda>_.
     and_then (validate_event_size line_number canonical_bytes) (\<lambda>_.
     and_then (validate_budget st line_number canonical_bytes) (\<lambda>_.
     and_then (validate_stream_event st line_number event) (\<lambda>_.
     record_stream_event st line_number event canonical_bytes)))))"

subsection \<open>Streams of text\<close>

definition LF :: char where "LF = CHR 0x0A"
definition CR :: char where "CR = CHR 0x0D"

definition ends_with :: "string \<Rightarrow> char \<Rightarrow> bool" where
  "ends_with text c \<longleftrightarrow> last_opt text = Some c"

definition split_terminator :: "char \<Rightarrow> string \<Rightarrow> string list" where
  "split_terminator c text = (let pieces = split_on c text in if last pieces = [] then butlast pieces else pieces)"

text \<open>One pass of the loop over the lines; \<open>visit\<close> is the caller's visitor with its state.\<close>

definition validate_line :: "text_env \<Rightarrow> (string \<Rightarrow> json option) \<Rightarrow> ('v \<Rightarrow> EventEnvelope \<Rightarrow> 'v protocol) \<Rightarrow>
    SessionAppendValidationState \<times> 'v \<Rightarrow> string \<Rightarrow> (SessionAppendValidationState \<times> 'v) protocol" where
  "validate_line env from_str visit = (\<lambda>(st, v) line.
     let line_number = va_line_count st + 1; canonical_bytes = saturating_add_usize (length line) 1 in
     and_then (ensure (\<not> ends_with line CR) (CarriageReturn line_number)) (\<lambda>_.
     and_then (validate_event_size line_number canonical_bytes) (\<lambda>_.
     and_then (parse_canonical_event env from_str line_number line) (\<lambda>event.
     and_then (validate_budget st line_number canonical_bytes) (\<lambda>_.
     and_then (validate_stream_event st line_number event) (\<lambda>_.
     and_then (visit v event) (\<lambda>v.
     and_then (record_stream_event st line_number event canonical_bytes) (\<lambda>st.
     Ok (st, v)))))))))"

definition validate_appended_with :: "text_env \<Rightarrow> (string \<Rightarrow> json option) \<Rightarrow> ('v \<Rightarrow> EventEnvelope \<Rightarrow> 'v protocol) \<Rightarrow>
    SessionAppendValidationState \<times> 'v \<Rightarrow> string \<Rightarrow> (SessionAppendValidationState \<times> 'v) protocol" where
  "validate_appended_with env from_str visit stv text =
    (if text = [] then Ok stv
     else if \<not> ends_with text LF then Err SuffixMustEndWithLF
     else fold_ok (validate_line env from_str visit) stv (split_terminator LF text))"

text \<open>The staged state replaces the old one only when the whole text is accepted.\<close>

definition validate_appended :: "text_env \<Rightarrow> (string \<Rightarrow> json option) \<Rightarrow> SessionAppendValidationState \<Rightarrow> string \<Rightarrow>
    SessionAppendValidationState \<times> EventEnvelope list protocol" where
  "validate_appended env from_str st text =
    (case validate_appended_with env from_str (\<lambda>events event. Ok (events @ [event])) (st, []) text of
       Ok (staged, appended_events) \<Rightarrow> (staged, Ok appended_events)
     | Err e \<Rightarrow> (st, Err e))"

definition validate_protocol_jsonl_text :: "text_env \<Rightarrow> (string \<Rightarrow> json option) \<Rightarrow> string \<Rightarrow> EventEnvelope list protocol" where
  "validate_protocol_jsonl_text env from_str text =
     and_then (ensure (\<not> length text > MAX_SESSION_EVENT_BYTES) (StreamTooLarge (length text))) (\<lambda>_.
     and_then (ensure (ends_with text LF) StreamMustEndWithLF) (\<lambda>_.
     and_then (snd (validate_appended env from_str validation_state_unscoped text)) (\<lambda>events.
     and_then (ensure (events \<noteq> []) StreamEmpty) (\<lambda>_.
     Ok events))))"

end
