(* ===== verification/Stream_Correctness.thy ===== *)
theory Stream_Correctness
  imports Validate
begin

text \<open>
  Correctness of the stream validation. A state reached over a sequence of accepted events satisfies
  \<open>stream_inv\<close>: the state summarises the history, the history is well ordered, and the lifecycle
  invariant holds. From this follow the shape of every accepted stream, the absence of panics, the
  independence of the chunking of the text, and the agreement of the two validation paths.
\<close>

subsection \<open>Steps of the validation state\<close>

text \<open>What both paths do with an event after its own checks.\<close>

definition accept_event :: "SessionAppendValidationState \<Rightarrow> EventEnvelope \<Rightarrow> nat \<Rightarrow> SessionAppendValidationState protocol" where
  "accept_event st event canonical_bytes =
     and_then (validate_budget st (va_line_count st + 1) canonical_bytes) (\<lambda>_.
     and_then (validate_stream_event st (va_line_count st + 1) event) (\<lambda>_.
     record_stream_event st (va_line_count st + 1) event canonical_bytes))"

inductive accepted :: "text_env \<Rightarrow> SessionAppendValidationState \<Rightarrow> EventEnvelope list \<Rightarrow> SessionAppendValidationState \<Rightarrow> bool"
  for env st where
  nil: "accepted env st [] st"
| snoc: "accepted env st (events @ [e]) st''"
    if "accepted env st events st'" "validate_v0 env e = Ok ()" "accept_event st' e b = Ok st''"

lemma accept_eventD:
  assumes "accept_event st e b = Ok st'"
  shows "Suc (va_line_count st) \<le> MAX_FLOW_EVENTS" "ev_sequence e = Suc (va_previous_sequence st)"
    "\<not> bs_contains (va_event_ids st) (ev_event_id e)" "va_terminal_line st = None"
    "va_stream_session_id st \<in> {None, Some (ev_session_id e)}"
    "va_expected_session_id st \<in> {None, Some (ev_session_id e)}"
    "va_line_count st = 0 \<Longrightarrow> ev_event_type e = SessionStarted"
    "lifecycle_step (Suc (va_line_count st)) (va_lifecycle st) e (va_lifecycle st')"
    "is_session_end (ev_event_type e) \<Longrightarrow> validate_terminal_session (va_lifecycle st) (Some e) = Ok ()"
  using assms
  by (auto simp: accept_event_def validate_budget_def validate_stream_event_def record_stream_event_def Let_def
      checked_add_usize_def lifecycle_step_iff split: option.splits if_splits)

lemma accept_event_flow:
  assumes "accept_event st e b = Ok st'" "ev_event_type e = FlowStarted"
  obtains f where "ev_flow_id e = Some f" "\<not> bs_contains (va_flow_started_ids st) f"
    "length (va_flow_started_ids st) < MAX_FLOW_INVOCATIONS" "va_flow_started_ids st' = bs_insert f (va_flow_started_ids st)"
  using assms
  by (auto simp: accept_event_def validate_stream_event_def validate_flow_start_def record_stream_event_def expect_def)

lemma accept_event_state:
  assumes "accept_event st e b = Ok st'"
  shows "va_stream_bytes st' = va_stream_bytes st + b" "va_stream_bytes st' \<le> MAX_SESSION_EVENT_BYTES"
    "va_previous_sequence st' = ev_sequence e"
    "va_event_ids st' = bs_insert (ev_event_id e) (va_event_ids st)" "va_stream_session_id st' = Some (ev_session_id e)"
    "va_expected_session_id st' = va_expected_session_id st"
    "va_terminal_line st' = (if is_session_end (ev_event_type e) then Some (Suc (va_line_count st)) else None)"
    "va_line_count st' = Suc (va_line_count st)"
    "ev_event_type e \<noteq> FlowStarted \<Longrightarrow> va_flow_started_ids st' = va_flow_started_ids st"
proof -
  have "\<not> saturating_add_usize (va_stream_bytes st) b > MAX_SESSION_EVENT_BYTES"
    using assms by (auto simp: accept_event_def validate_budget_def Let_def)
  then have b: "saturating_add_usize (va_stream_bytes st) b = va_stream_bytes st + b" "va_stream_bytes st + b \<le> MAX_SESSION_EVENT_BYTES"
    by (auto simp: saturating_add_usize_def MAX_SESSION_EVENT_BYTES_def usize_max_def min_def split: if_splits)
  note d = accept_eventD [OF assms]
  from assms obtain fs l where st': "st' = st\<lparr> va_stream_bytes := va_stream_bytes st + b,
             va_previous_sequence := ev_sequence e,
             va_event_ids := bs_insert (ev_event_id e) (va_event_ids st),
             va_flow_started_ids := fs,
             va_stream_session_id := (case va_stream_session_id st of None \<Rightarrow> Some (ev_session_id e) | Some x \<Rightarrow> Some x),
             va_lifecycle := l,
             va_terminal_line := (if is_session_end (ev_event_type e) then Some (Suc (va_line_count st)) else va_terminal_line st),
             va_line_count := Suc (va_line_count st) \<rparr>" "ev_event_type e \<noteq> FlowStarted \<Longrightarrow> fs = va_flow_started_ids st"
    by (auto simp: accept_event_def record_stream_event_def b split: if_splits)
  then show "va_stream_bytes st' = va_stream_bytes st + b" "va_stream_bytes st' \<le> MAX_SESSION_EVENT_BYTES"
    "va_previous_sequence st' = ev_sequence e"
    "va_event_ids st' = bs_insert (ev_event_id e) (va_event_ids st)" "va_stream_session_id st' = Some (ev_session_id e)"
    "va_expected_session_id st' = va_expected_session_id st"
    "va_terminal_line st' = (if is_session_end (ev_event_type e) then Some (Suc (va_line_count st)) else None)"
    "va_line_count st' = Suc (va_line_count st)"
    "ev_event_type e \<noteq> FlowStarted \<Longrightarrow> va_flow_started_ids st' = va_flow_started_ids st"
    using b(2) d(4,5) by auto
qed

subsection \<open>The invariant of the stream\<close>

definition started_flows :: "EventEnvelope list \<Rightarrow> string list" where
  "started_flows events = List.map_filter (\<lambda>e. if ev_event_type e = FlowStarted then ev_flow_id e else None) events"

text \<open>The order a stream of events obeys.\<close>

definition well_ordered :: "EventEnvelope list \<Rightarrow> bool" where
  "well_ordered events \<longleftrightarrow>
     map ev_sequence events = [1..<Suc (length events)] \<and>
     distinct (map ev_event_id events) \<and>
     (\<forall>e \<in> set events. ev_session_id e = ev_session_id (hd events)) \<and>
     (events \<noteq> [] \<longrightarrow> ev_event_type (hd events) = SessionStarted) \<and>
     (\<forall>e \<in> set (tl events). ev_event_type e \<noteq> SessionStarted) \<and>
     (\<forall>e \<in> set (butlast events). \<not> is_session_end (ev_event_type e)) \<and>
     distinct (started_flows events) \<and> length (started_flows events) \<le> MAX_FLOW_INVOCATIONS \<and>
     length events \<le> MAX_FLOW_EVENTS"

text \<open>What the state remembers of the history.\<close>

definition summarises :: "SessionAppendValidationState \<Rightarrow> EventEnvelope list \<Rightarrow> bool" where
  "summarises st events \<longleftrightarrow>
     va_line_count st = length events \<and> va_previous_sequence st = length events \<and>
     (\<forall>x. bs_contains (va_event_ids st) x \<longleftrightarrow> x \<in> ev_event_id ` set events) \<and>
     bt_wf (va_flow_started_ids st) \<and> length (va_flow_started_ids st) = length (started_flows events) \<and>
     (\<forall>f. bs_contains (va_flow_started_ids st) f \<longleftrightarrow> f \<in> set (started_flows events)) \<and>
     (\<forall>f. is_started (lc_flows (va_lifecycle st)) f \<longleftrightarrow> f \<in> set (started_flows events)) \<and>
     va_stream_session_id st = (if events = [] then None else Some (ev_session_id (hd events))) \<and>
     (va_terminal_line st = None \<longleftrightarrow> (\<forall>e \<in> set events. \<not> is_session_end (ev_event_type e))) \<and>
     va_stream_bytes st \<le> MAX_SESSION_EVENT_BYTES"

definition stream_inv :: "SessionAppendValidationState \<Rightarrow> EventEnvelope list \<Rightarrow> bool" where
  "stream_inv st events \<longleftrightarrow> well_ordered events \<and> summarises st events \<and> lifecycle_inv (va_lifecycle st) \<and>
     (events \<noteq> [] \<and> is_session_end (ev_event_type (last events)) \<longrightarrow> (\<forall>f. \<not> flow_active (va_lifecycle st) f))"

lemma stream_inv_new: "stream_inv (validation_state_new x) []"
  using lifecycle_inv_default
  by (simp add: stream_inv_def well_ordered_def summarises_def validation_state_new_def started_flows_def
      List.map_filter_simps SessionLifecycleState_default_def LifecycleTracker_default_def
      is_started_def contains_key_def)

lemma started_flows_snoc:
  "started_flows (events @ [e]) = started_flows events @
     (if ev_event_type e = FlowStarted then (case ev_flow_id e of None \<Rightarrow> [] | Some f \<Rightarrow> [f]) else [])"
  by (simp add: started_flows_def map_filter_def split: option.splits)

lemma step_started:
  assumes "lifecycle_step n s e s'"
  shows "is_started (lc_flows s') f \<longleftrightarrow> is_started (lc_flows s) f \<or> (ev_event_type e = FlowStarted \<and> ev_flow_id e = Some f)"
  using assms
proof cases
  case (flow_end g d)
  then have "bs_contains (lt_active (lc_flows s)) g" by (auto simp: event_scope_def flow_running_def)
  with flow_end show ?thesis by auto
qed auto

lemma step_session_end: "lifecycle_step n s e s' \<Longrightarrow> is_session_end (ev_event_type e) \<Longrightarrow> s' = s"
  by (erule lifecycle_step.cases) (auto simp: is_session_end_def)

lemma step_session_started: "lifecycle_step n s e s' \<Longrightarrow> ev_event_type e = SessionStarted \<Longrightarrow> n \<le> 1"
  by (erule lifecycle_step.cases) auto

lemma accept_well_ordered:
  assumes "accept_event st e b = Ok st'" "stream_inv st events"
  shows "well_ordered (events @ [e])"
proof -
  note d = accept_eventD [OF assms(1)]
  have w: "well_ordered events" and s: "summarises st events" using assms(2) by (auto simp: stream_inv_def)
  have n: "va_line_count st = length events" "va_previous_sequence st = length events" using s by (auto simp: summarises_def)
  have sess: "events \<noteq> [] \<Longrightarrow> ev_session_id e = ev_session_id (hd events)" using s d(5) by (auto simp: summarises_def)
  have first: "events \<noteq> [] \<Longrightarrow> ev_event_type e \<noteq> SessionStarted" using step_session_started [OF d(8)] n by auto
  have "events = [] \<Longrightarrow> ev_event_type e = SessionStarted" using d(7) n by simp
  moreover have "\<forall>x \<in> set events. \<not> is_session_end (ev_event_type x)" using s d(4) by (simp add: summarises_def)
  moreover have "distinct (map ev_event_id (events @ [e]))" using s d(3) w by (simp add: summarises_def well_ordered_def)
  moreover have "distinct (started_flows (events @ [e])) \<and> length (started_flows (events @ [e])) \<le> MAX_FLOW_INVOCATIONS"
  proof (cases "ev_event_type e = FlowStarted")
    case True
    from accept_event_flow [OF assms(1) True] obtain f where
      "ev_flow_id e = Some f" "\<not> bs_contains (va_flow_started_ids st) f" "length (va_flow_started_ids st) < MAX_FLOW_INVOCATIONS" .
    with s w show ?thesis by (simp add: started_flows_snoc summarises_def well_ordered_def True)
  qed (use w in \<open>simp add: started_flows_snoc well_ordered_def\<close>)
  moreover have "map ev_sequence (events @ [e]) = [1..<Suc (length (events @ [e]))]" using w d(2) n by (simp add: well_ordered_def)
  ultimately show ?thesis
    using w d(1) n sess first by (cases events) (simp_all add: well_ordered_def del: upt_Suc distinct_append)
qed

lemma accept_summarises:
  assumes "accept_event st e b = Ok st'" "stream_inv st events"
  shows "summarises st' (events @ [e])"
proof -
  note d = accept_eventD [OF assms(1)] and st = accept_event_state [OF assms(1)]
  have s: "summarises st events" using assms(2) by (simp add: stream_inv_def)
  have flows: "bt_wf (va_flow_started_ids st') \<and> length (va_flow_started_ids st') = length (started_flows (events @ [e])) \<and>
     (\<forall>f. bs_contains (va_flow_started_ids st') f \<longleftrightarrow> f \<in> set (started_flows (events @ [e]))) \<and>
     (\<forall>f. is_started (lc_flows (va_lifecycle st')) f \<longleftrightarrow> f \<in> set (started_flows (events @ [e])))"
  proof (cases "ev_event_type e = FlowStarted")
    case True
    from accept_event_flow [OF assms(1) True] obtain f where
      f: "ev_flow_id e = Some f" "\<not> bs_contains (va_flow_started_ids st) f" "va_flow_started_ids st' = bs_insert f (va_flow_started_ids st)" .
    with s True show ?thesis
      by (auto simp: started_flows_snoc summarises_def bs_length_insert step_started [OF d(8)])
  qed (use s st(9) in \<open>simp add: started_flows_snoc summarises_def step_started [OF d(8)]\<close>)
  have "events \<noteq> [] \<Longrightarrow> ev_session_id e = ev_session_id (hd events)" using s d(5) by (auto simp: summarises_def)
  with flows s d(2,4) st(2-5,7,8) show ?thesis
    by (cases events) (simp_all add: summarises_def, blast)
qed

lemma accept_inv:
  assumes "accept_event st e b = Ok st'" "stream_inv st events"
  shows "stream_inv st' (events @ [e])"
proof -
  note d = accept_eventD [OF assms(1)]
  have s: "summarises st events" and inv: "lifecycle_inv (va_lifecycle st)" using assms(2) by (auto simp: stream_inv_def)
  have fresh: "\<not> is_started (lc_flows (va_lifecycle st)) f" if "ev_event_type e = FlowStarted" "ev_flow_id e = Some f" for f
    using accept_event_flow [OF assms(1) that(1)] that(2) s by (auto simp: summarises_def)
  have "\<forall>f. \<not> flow_active (va_lifecycle st') f" if "is_session_end (ev_event_type e)"
    using terminal_session_iff [OF inv that] d(9) step_session_end [OF d(8)] that by simp
  then show ?thesis
    using accept_well_ordered [OF assms] accept_summarises [OF assms] step_inv [OF d(8) inv fresh] by (simp add: stream_inv_def)
qed

lemma accepted_inv:
  assumes "accepted env st events st'" "stream_inv st []"
  shows "stream_inv st' events \<and> (\<forall>e \<in> set events. validate_v0 env e = Ok ())"
  using assms by induction (auto intro: accept_inv)

subsection \<open>The operations follow the steps\<close>

lemma deserialize_valid: "EventEnvelope_deserialize env v = Ok e \<Longrightarrow> validate_v0 env e = Ok ()"
  by (auto simp: EventEnvelope_deserialize_def EventEnvelope_try_from_def Let_def)

lemma constructed_event_iff:
  "validate_constructed_event env st e b = Ok st' \<longleftrightarrow>
     validate_v0 env e = Ok () \<and> b \<le> MAX_CANONICAL_EVENT_BYTES \<and> accept_event st e b = Ok st'"
  by (simp add: validate_constructed_event_def Let_def validate_structure_def validate_event_size_def accept_event_def)

lemma validate_lineD:
  assumes "validate_line env from_str visit (st, v) line = Ok (st', v')"
  obtains e where "validate_v0 env e = Ok ()" "accept_event st e (saturating_add_usize (length line) 1) = Ok st'" "visit v e = Ok v'"
  using assms
  by (auto simp: validate_line_def Let_def parse_canonical_event_def accept_event_def dest!: deserialize_valid)

lemma accepted_single: "validate_v0 env e = Ok () \<Longrightarrow> accept_event st e b = Ok st' \<Longrightarrow> accepted env st [e] st'"
  using accepted.snoc [OF accepted.nil, of env e st b st'] by simp

lemma accepted_trans:
  assumes "accepted env st xs st'"
  shows "accepted env st' ys st'' \<Longrightarrow> accepted env st (xs @ ys) st''"
proof (induction rule: accepted.induct)
  case (snoc events e b st'')
  then show ?case using accepted.snoc [of env st "xs @ events"] by simp
qed (simp add: assms)

lemma fold_lines_accepted:
  "fold_ok (validate_line env from_str (\<lambda>events event. Ok (events @ [event]))) (st, es) lines = Ok (st', es') \<Longrightarrow>
   \<exists>new. es' = es @ new \<and> length new = length lines \<and> accepted env st new st'"
proof (induction lines arbitrary: st es)
  case Nil
  then show ?case by (auto intro: accepted.nil)
next
  case (Cons line lines)
  then obtain st1 es1 where 1: "validate_line env from_str (\<lambda>events event. Ok (events @ [event])) (st, es) line = Ok (st1, es1)"
    and 2: "fold_ok (validate_line env from_str (\<lambda>events event. Ok (events @ [event]))) (st1, es1) lines = Ok (st', es')"
    by auto
  obtain e where e: "accepted env st [e] st1" "es1 = es @ [e]"
    using validate_lineD [OF 1] accepted_single by (metis result.inject(1))
  obtain new where "es' = es1 @ new" "length new = length lines" "accepted env st1 new st'" using Cons.IH [OF 2] by auto
  with e show ?case by (intro exI [of _ "e # new"]) (use accepted_trans [OF e(1)] in simp)
qed

lemma appended_accepted:
  assumes "validate_appended env from_str st text = (st', Ok events)"
  shows "accepted env st events st'"
proof -
  have "validate_appended_with env from_str (\<lambda>events event. Ok (events @ [event])) (st, []) text = Ok (st', events)"
    using assms by (auto simp: validate_appended_def split: result.splits prod.splits)
  then show ?thesis
    using fold_lines_accepted [of env from_str st "[]" "split_terminator LF text" st' events]
    by (auto simp: validate_appended_with_def accepted.nil split: if_splits)
qed

lemma accepted_stream_inv:
  assumes "accepted env st new st'" "stream_inv st old"
  shows "stream_inv st' (old @ new)"
  using assms
proof (induction rule: accepted.induct)
  case (snoc events e b st'')
  then show ?case by (metis accept_inv append_assoc)
qed simp

subsection \<open>Properties of the stream validation\<close>

text \<open>
  C1: every stream the validation accepts is well ordered. Sequence numbers are 1, 2, 3, \<dots>, event
  identifiers and started flows are unique, all events belong to one session, the stream starts with
  its only session.started, nothing follows the end of the session, every event satisfies the
  protocol, and the budgets hold.
\<close>

theorem accepted_stream_ordered:
  assumes "validate_protocol_jsonl_text env from_str text = Ok events"
  shows "events \<noteq> [] \<and> well_ordered events \<and> (\<forall>e \<in> set events. validate_v0 env e = Ok ()) \<and>
    length text \<le> MAX_SESSION_EVENT_BYTES"
proof -
  obtain st where "validate_appended env from_str validation_state_unscoped text = (st, Ok events)" "events \<noteq> []"
    "length text \<le> MAX_SESSION_EVENT_BYTES"
    using assms by (auto simp: validate_protocol_jsonl_text_def prod_eq_iff)
  with accepted_inv [OF appended_accepted] stream_inv_new show ?thesis
    by (simp add: validation_state_unscoped_def stream_inv_def)
qed

text \<open>
  C2: both ways of extending a session keep its invariant: the state summarises the history, the
  history is well ordered, and the flows, phases, tools and messages are tied together.
\<close>

theorem session_invariant_preserved:
  assumes "stream_inv st events"
  shows "(\<forall>st'. validate_constructed_event env st e b = Ok st' \<longrightarrow> stream_inv st' (events @ [e])) \<and>
    (\<forall>st' new. validate_appended env from_str st text = (st', Ok new) \<longrightarrow> stream_inv st' (events @ new)) \<and>
    (\<forall>st' x. validate_appended env from_str st text = (st', Err x) \<longrightarrow> stream_inv st' events)"
  using assms accept_inv accepted_stream_inv [OF appended_accepted]
  by (auto simp: constructed_event_iff validate_appended_def split: result.splits prod.splits)


text \<open>No operation of the stream validation meets a panic, whatever the text or the event.\<close>

lemma lifecycle_no_panic:
  assumes "event_ready e"
  shows "lifecycle_validate_event s n e \<noteq> Err (Panic p)"
  using validate_kind_no_panic [OF assms]
  by (auto simp: lifecycle_validate_event_def validate_event_flow_def validate_lifecycle_parent_def
      terminal_lifecycle_error_def ensure_def and_then_eq_Err split: option.splits if_splits)

lemma terminal_session_no_panic: "validate_terminal_session s e \<noteq> Err (Panic p)"
  by (auto simp: validate_terminal_session_def open_lifecycle_error_def split: list.splits)

lemma stream_event_no_panic:
  "event_ready e \<Longrightarrow> validate_stream_event st n e \<noteq> Err (Lifecycle (Panic p))"
  using lifecycle_no_panic terminal_session_no_panic
  by (auto simp: validate_stream_event_def validate_flow_start_def and_then_eq_Err map_err_eq_Err
      split: option.splits if_splits)

lemma record_stream_total:
  assumes "event_ready e" "validate_stream_event st n e = Ok ()"
  shows "\<exists>st'. record_stream_event st n e b = Ok st'"
proof -
  have "validate_event_kind (va_lifecycle st) n e (ev_event_type e) = Ok ()"
    using assms(2) by (auto simp: validate_stream_event_def lifecycle_validate_event_def)
  with record_total [OF assms(1)] obtain l where "lifecycle_record_event (va_lifecycle st) n e = Ok l" by blast
  moreover have "ev_event_type e = FlowStarted \<Longrightarrow> ev_flow_id e \<noteq> None"
    using assms(2) by (auto simp: validate_stream_event_def validate_flow_start_def)
  ultimately show ?thesis by (auto simp: record_stream_event_def expect_def simp del: and_then_eq_Ok)
qed

lemma accept_no_panic: "event_ready e \<Longrightarrow> accept_event st e b \<noteq> Err (Lifecycle (Panic p))"
  using stream_event_no_panic [of e st "va_line_count st + 1" p] record_stream_total [of e st "va_line_count st + 1" b]
  by (auto simp: accept_event_def validate_budget_def Let_def and_then_eq_Err)

lemma line_no_panic: "validate_line env from_str (\<lambda>es e. Ok (es @ [e])) stv line \<noteq> Err (Lifecycle (Panic p))"
proof
  assume h: "validate_line env from_str (\<lambda>es e. Ok (es @ [e])) stv line = Err (Lifecycle (Panic p))"
  obtain st v where stv: "stv = (st, v)" by (cases stv)
  from h obtain e where "parse_canonical_event env from_str (va_line_count st + 1) line = Ok e"
    "accept_event st e (saturating_add_usize (length line) 1) = Err (Lifecycle (Panic p))"
    by (auto simp: stv validate_line_def Let_def and_then_eq_Err accept_event_def validate_event_size_def
        parse_canonical_event_def map_err_eq_Err)
  moreover from this(1) have "event_ready e"
    by (auto simp: parse_canonical_event_def dest!: deserialize_valid intro: valid_event_ready)
  ultimately show False using accept_no_panic by blast
qed

lemma fold_no_panic: "fold_ok (validate_line env from_str (\<lambda>es e. Ok (es @ [e]))) stv lines \<noteq> Err (Lifecycle (Panic p))"
  by (induction lines arbitrary: stv) (auto simp: and_then_eq_Err line_no_panic)

text \<open>
  C16: the validation never panics. Neither an event the agent constructs nor a text it reads makes one of
  the \<open>expect\<close> calls of the lifecycle fail.
\<close>

theorem validation_never_panics:
  "validate_constructed_event env st e b \<noteq> Err (Lifecycle (Panic p)) \<and>
   snd (validate_appended env from_str st text) \<noteq> Err (Lifecycle (Panic p))"
proof
  show "validate_constructed_event env st e b \<noteq> Err (Lifecycle (Panic p))"
    using accept_no_panic [of e st b p] valid_event_ready [of env e]
    by (auto simp: validate_constructed_event_def Let_def validate_structure_def validate_event_size_def accept_event_def
        and_then_eq_Err map_err_eq_Err)
  show "snd (validate_appended env from_str st text) \<noteq> Err (Lifecycle (Panic p))"
    using fold_no_panic by (auto simp: validate_appended_def validate_appended_with_def split: result.splits if_splits prod.splits)
qed

text \<open>Lines of a text.\<close>

lemma split_terminator_simps:
  "split_terminator c [] = []" "c \<notin> set line \<Longrightarrow> split_terminator c (line @ c # rest) = line # split_terminator c rest"
  by (auto simp: split_terminator_def split_on_append Let_def)

lemma ends_withE:
  assumes "ends_with text c"
  obtains line rest where "text = line @ c # rest" "c \<notin> set line" "rest = [] \<or> ends_with rest c"
proof -
  have "c \<in> set text" using assms by (auto simp: ends_with_def last_opt_def split: if_splits)
  then obtain line rest where "text = line @ c # rest" "c \<notin> set line" by (meson split_list_first)
  moreover have "rest = [] \<or> ends_with rest c"
    using assms calculation by (auto simp: ends_with_def last_opt_def split: if_splits)
  ultimately show thesis by (rule that)
qed

lemma split_terminator_append:
  assumes "a = [] \<or> ends_with a c"
  shows "split_terminator c (a @ b) = split_terminator c a @ split_terminator c b"
  using assms
proof (induction "length a" arbitrary: a rule: less_induct)
  case less
  show ?case
  proof (cases "a = []")
    case False
    with less.prems obtain line rest where "a = line @ c # rest" "c \<notin> set line" "rest = [] \<or> ends_with rest c"
      using ends_withE by blast
    with less.hyps [of rest] show ?thesis by (simp add: split_terminator_simps)
  qed (simp add: split_terminator_simps)
qed

text \<open>
  C30: the result does not depend on how a text is cut into appended suffixes: validating two terminated
  suffixes one after the other is validating their concatenation, with every visitor.
\<close>

theorem validation_of_chunks:
  assumes "a = [] \<or> ends_with a LF" "b = [] \<or> ends_with b LF"
  shows "validate_appended_with env from_str visit stv (a @ b) =
    and_then (validate_appended_with env from_str visit stv a) (\<lambda>stv'. validate_appended_with env from_str visit stv' b)"
proof (cases "a = [] \<or> b = []")
  case True
  then show ?thesis
  proof
    assume "b = []"
    then show ?thesis by (cases "validate_appended_with env from_str visit stv a") (simp_all add: validate_appended_with_def)
  qed (simp add: validate_appended_with_def)
next
  case False
  with assms have "ends_with (a @ b) LF" by (auto simp: ends_with_def last_opt_def)
  with False assms show ?thesis by (simp add: validate_appended_with_def split_terminator_append fold_ok_append)
qed

text \<open>
  C12: the two validation paths agree. Reading back the journal line of a normalised event, with a parser
  that returns the value the line was printed from, has exactly the effect and the errors of
  validating the constructed event, and yields that event.
\<close>

theorem journal_line_agrees_with_construction:
  assumes "canonical_jsonl env e = Ok (line @ [LF])" "envelope_nfc env e"
    "from_str line = Some (to_value e)" "LF \<notin> set line" "\<not> ends_with line CR" "length line < usize_max"
  shows "validate_appended env from_str st (line @ [LF]) =
    (case validate_constructed_event env st e (length line + 1) of Ok st' \<Rightarrow> (st', Ok [e]) | Err x \<Rightarrow> (st, Err x))"
proof -
  have v: "validate_v0 env e = Ok ()" and c: "canonical_json env (to_value e) = Ok line"
    using assms(1) by (auto simp: canonical_jsonl_def LF_def)
  have parse: "parse_canonical_event env from_str n line = Ok e" for n
    using event_roundtrip [OF v assms(2)] assms(3) c by (simp add: parse_canonical_event_def)
  have LF_end: "ends_with (line @ [LF]) LF" by (simp add: ends_with_def last_opt_def)
  have bytes: "saturating_add_usize (length line) 1 = length line + 1" using assms(6) by (simp add: saturating_add_usize_def)
  have "split_terminator LF (line @ [LF]) = [line]" using assms(4) by (simp add: split_terminator_simps)
  then have "validate_appended_with env from_str (\<lambda>events event. Ok (events @ [event])) (st, []) (line @ [LF]) =
    and_then (validate_constructed_event env st e (length line + 1)) (\<lambda>st'. Ok (st', [e]))"
    using assms(5) v bytes
    by (simp add: validate_appended_with_def validate_line_def Let_def parse LF_end
        validate_constructed_event_def validate_structure_def result_simps)
  then show ?thesis by (simp add: validate_appended_def split: result.splits)
qed

subsection \<open>Instances\<close>

text \<open>A session of two events, its journal, and a parser that knows its lines.\<close>

definition sample_session :: "EventEnvelope list" where
  "sample_session =
     [EventEnvelope_new plain_env ''e1'' SessionStarted ''s1'' 1 ''2024-02-29T12:00:00Z'' ''agent'' (JObject []),
      EventEnvelope_new plain_env ''e2'' SessionCompleted ''s1'' 2 ''2024-02-29T12:00:01Z'' ''agent'' (JObject [])]"

definition sample_line :: "EventEnvelope \<Rightarrow> string" where
  "sample_line e = (case canonical_json plain_env (to_value e) of Ok t \<Rightarrow> t | Err _ \<Rightarrow> [])"

definition sample_from_str :: "string \<Rightarrow> json option" where
  "sample_from_str s = map_option to_value (find (\<lambda>e. sample_line e = s) sample_session)"

definition sample_text :: string where
  "sample_text = concat (map (\<lambda>e. sample_line e @ [LF]) sample_session)"

definition sample_state :: SessionAppendValidationState where
  "sample_state = fst (validate_appended plain_env sample_from_str (validation_state_new None) sample_text)"

lemma sample_appended:
  "validate_appended plain_env sample_from_str (validation_state_new None) sample_text = (sample_state, Ok sample_session)"
  by code_simp


theorem accepted_stream_ordered_witness:
  "sample_session \<noteq> [] \<and> well_ordered sample_session \<and> validate_v0 plain_env (hd sample_session) = Ok ()"
proof -
  have "validate_protocol_jsonl_text plain_env sample_from_str sample_text = Ok sample_session" by code_simp
  from accepted_stream_ordered [OF this] show ?thesis by (cases sample_session) simp_all
qed

theorem session_invariant_preserved_witness: "stream_inv sample_state ([] @ sample_session)"
  using session_invariant_preserved [OF stream_inv_new [of None], of plain_env "hd sample_session" 0 sample_from_str sample_text]
    sample_appended by blast


theorem validation_of_chunks_witness:
  "validate_appended_with plain_env sample_from_str (\<lambda>n e. Ok (n + 1)) (validation_state_new None, 0 :: nat)
     ((sample_line (hd sample_session) @ [LF]) @ (sample_line (last sample_session) @ [LF])) =
   and_then (validate_appended_with plain_env sample_from_str (\<lambda>n e. Ok (n + 1)) (validation_state_new None, 0)
     (sample_line (hd sample_session) @ [LF]))
     (\<lambda>stv. validate_appended_with plain_env sample_from_str (\<lambda>n e. Ok (n + 1)) stv (sample_line (last sample_session) @ [LF]))"
  by (rule validation_of_chunks) (simp_all add: ends_with_def last_opt_def)

theorem journal_line_agrees_with_construction_witness:
  "validate_appended plain_env sample_from_str (validation_state_new None) (sample_line (hd sample_session) @ [LF]) =
   (case validate_constructed_event plain_env (validation_state_new None) (hd sample_session)
      (length (sample_line (hd sample_session)) + 1) of
      Ok st' \<Rightarrow> (st', Ok [hd sample_session]) | Err x \<Rightarrow> (validation_state_new None, Err x))"
proof (rule journal_line_agrees_with_construction)
  show "canonical_jsonl plain_env (hd sample_session) = Ok (sample_line (hd sample_session) @ [LF])" by code_simp
  show "envelope_nfc plain_env (hd sample_session)" by code_simp
  show "sample_from_str (sample_line (hd sample_session)) = Some (to_value (hd sample_session))" by code_simp
  show "LF \<notin> set (sample_line (hd sample_session))" by code_simp
  show "\<not> ends_with (sample_line (hd sample_session)) CR" by code_simp
  show "length (sample_line (hd sample_session)) < usize_max" by code_simp
qed

end
