(* ===== verification/Unique_Json.thy ===== *)
theory Unique_Json
  imports Json
begin

text \<open>
  Parsing JSON without duplicate keys: \<open>parse_unique_json\<close> of \<open>proto/proto/src/canonical.rs\<close>. What the
  deserializer of \<open>serde_json\<close> shows to the visitor is a tree \<open>raw_json\<close> whose maps list their entries as
  written; the reading of the text into this tree is the parameter \<open>read\<close>.
\<close>

datatype raw_json =
    RawNull
  | RawBool bool
  | RawI64 int
  | RawU64 nat
  | RawF64 "64 word"
  | RawStr string
  | RawSeq "raw_json list"
  | RawMap "(string \<times> raw_json) list"

text \<open>\<open>Number::from\<close> stores a non-negative integer as unsigned.\<close>

definition number_from_i64 :: "int \<Rightarrow> json_number" where
  "number_from_i64 i = (if i < 0 then NegInt i else PosInt (nat i))"

fun UniqueJsonVisitor :: "raw_json \<Rightarrow> json option"
  and visit_seq :: "raw_json list \<Rightarrow> json list option"
  and visit_map :: "(string \<times> raw_json) list \<Rightarrow> (string, json) btree \<Rightarrow> (string, json) btree option" where
  "UniqueJsonVisitor RawNull = Some JNull"
| "UniqueJsonVisitor (RawBool b) = Some (JBool b)"
| "UniqueJsonVisitor (RawI64 i) = Some (JNumber (number_from_i64 i))"
| "UniqueJsonVisitor (RawU64 n) = Some (JNumber (PosInt n))"
| "UniqueJsonVisitor (RawF64 x) = (if f64_finite x then Some (JNumber (Float x)) else None)"
| "UniqueJsonVisitor (RawStr s) = Some (JString s)"
| "UniqueJsonVisitor (RawSeq xs) = map_option JArray (visit_seq xs)"
| "UniqueJsonVisitor (RawMap es) = map_option JObject (visit_map es [])"
| "visit_seq [] = Some []"
| "visit_seq (x # xs) = Option.bind (UniqueJsonVisitor x) (\<lambda>v. map_option ((#) v) (visit_seq xs))"
| "visit_map [] m = Some m"
| "visit_map ((name, x) # es) m =
     (if bt_get m name \<noteq> None then None
      else Option.bind (UniqueJsonVisitor x) (\<lambda>v. visit_map es (bt_insert name v m)))"

definition parse_unique_json :: "(string \<Rightarrow> raw_json option) \<Rightarrow> string \<Rightarrow> json option" where
  "parse_unique_json read source = Option.bind (read source) UniqueJsonVisitor"

subsection \<open>Correctness\<close>

text \<open>The reference: the value of a tree, and the trees without duplicate keys and infinite numbers.\<close>

fun raw_value :: "raw_json \<Rightarrow> json" where
  "raw_value RawNull = JNull"
| "raw_value (RawBool b) = JBool b"
| "raw_value (RawI64 i) = JNumber (number_from_i64 i)"
| "raw_value (RawU64 n) = JNumber (PosInt n)"
| "raw_value (RawF64 x) = JNumber (Float x)"
| "raw_value (RawStr s) = JString s"
| "raw_value (RawSeq xs) = JArray (map raw_value xs)"
| "raw_value (RawMap es) = JObject (sort_key fst (map (\<lambda>(k, x). (k, raw_value x)) es))"

fun raw_unique :: "raw_json \<Rightarrow> bool" where
  "raw_unique (RawF64 x) = f64_finite x"
| "raw_unique (RawSeq xs) = (\<forall>x \<in> set xs. raw_unique x)"
| "raw_unique (RawMap es) = (distinct (map fst es) \<and> (\<forall>(k, x) \<in> set es. raw_unique x))"
| "raw_unique _ = True"

lemma sort_entries_wf: "distinct (map fst es) \<Longrightarrow> bt_wf (sort_key fst es)" for es :: "('k::linorder \<times> 'v) list"
  by (simp add: bt_wf_def strict_sorted_iff distinct_map inj_on_def)

lemma sort_entries_get:
  fixes es :: "('k::linorder \<times> 'v) list"
  assumes "distinct (map fst es)"
  shows "bt_get (sort_key fst es) = map_of es"
  unfolding bt_get_def using assms
  by (subst map_of_inject_set) (auto simp: distinct_map inj_on_def)

definition entry_insert :: "(string, json) btree \<Rightarrow> string \<times> json \<Rightarrow> (string, json) btree" where
  "entry_insert m e = bt_insert (fst e) (snd e) m"

lemma entry_insert_fold:
  "bt_wf m \<Longrightarrow> bt_wf (foldl entry_insert m es)"
  "bt_get (foldl entry_insert m es) = bt_get m ++ map_of (rev es)"
proof (induction es arbitrary: m)
  case (Cons e es)
  { case 1 then show ?case using Cons by (simp add: entry_insert_def) }
  { case 2 show ?case using Cons(2) by (cases e) (simp add: entry_insert_def fun_eq_iff map_add_def split: option.split) }
qed (simp_all add: bt_get_def)

lemma entries_sorted:
  assumes "distinct (map fst es)"
  shows "foldl entry_insert [] es = sort_key fst es"
proof (rule bt_eqI)
  show "bt_wf (foldl entry_insert [] es)" by (rule entry_insert_fold) (simp add: bt_wf_def)
  show "bt_wf (sort_key fst es)" using assms by (rule sort_entries_wf)
  have "map_of (rev es) = map_of es"
    using assms by (subst map_of_inject_set) (simp_all add: rev_map [symmetric])
  then show "bt_get (foldl entry_insert [] es) = bt_get (sort_key fst es)"
    using entry_insert_fold(2) [of "[]" es] sort_entries_get [OF assms] by (simp add: bt_get_def fun_eq_iff map_add_def split: option.splits)
qed

lemma visitor_correct:
  "UniqueJsonVisitor r = Some v \<longleftrightarrow> raw_unique r \<and> v = raw_value r"
  "visit_seq xs = Some vs \<longleftrightarrow> (\<forall>x \<in> set xs. raw_unique x) \<and> vs = map raw_value xs"
  "visit_map es m = Some m' \<longleftrightarrow> distinct (map fst es) \<and> (\<forall>e \<in> set es. bt_get m (fst e) = None) \<and>
     (\<forall>(k, x) \<in> set es. raw_unique x) \<and> m' = foldl entry_insert m (map (\<lambda>(k, x). (k, raw_value x)) es)"
proof (induction r and xs and es m arbitrary: v and vs and m' rule: UniqueJsonVisitor_visit_seq_visit_map.induct)
  case (8 es)
  have "distinct (map fst (map (\<lambda>(k, x). (k, raw_value x)) es)) \<longleftrightarrow> distinct (map fst es)"
    by (simp add: comp_def case_prod_beta)
  then show ?case using 8 entries_sorted [of "map (\<lambda>(k, x). (k, raw_value x)) es"] by auto
next
  case (12 name x es m)
  show ?case
  proof (cases "bt_get m name = None \<and> raw_unique x")
    case True
    then have "UniqueJsonVisitor x = Some (raw_value x)" using 12(1) [of "raw_value x"] by simp
    with True show ?thesis using 12(2) [of "raw_value x" m'] by (auto simp: entry_insert_def)
  next
    case False
    then show ?thesis using 12(1) by (cases "UniqueJsonVisitor x") auto
  qed
qed (auto simp: bind_eq_Some_conv)

text \<open>
  C26: parsing without duplicates accepts exactly the texts whose maps, at every depth, name each key once
  and whose numbers are finite, and the result is the value written, with its maps in key order.
\<close>

theorem parse_unique_json_correct:
  "parse_unique_json read source = Some v \<longleftrightarrow> (\<exists>r. read source = Some r \<and> raw_unique r \<and> v = raw_value r)"
  by (cases "read source") (auto simp: parse_unique_json_def visitor_correct)

end
