(* ===== verification/Executor.thy ===== *)
theory Executor
  imports Event Unique_Json
begin

text \<open>
  The private protocol between the Flow agent and its Executor: \<open>proto/proto/src/executor.rs\<close> and its
  modules \<open>types.rs\<close>, \<open>validation.rs\<close> and \<open>codec.rs\<close>. Documents are records and enums with their derived
  serialisation; the parameters are SHA-256 (\<open>sha256\<close>), the reading of JSON text (\<open>read\<close>) and the derived
  deserializers (\<open>from_value\<close>).
\<close>

subsection \<open>Limits and schema names\<close>

definition EXECUTOR_REQUEST_SCHEMA_V0 :: string where "EXECUTOR_REQUEST_SCHEMA_V0 = ''flow-executor-request-v0''"
definition EXECUTOR_PREFLIGHT_SCHEMA_V0 :: string where "EXECUTOR_PREFLIGHT_SCHEMA_V0 = ''flow-executor-preflight-v0''"
definition EXECUTOR_START_SCHEMA_V0 :: string where "EXECUTOR_START_SCHEMA_V0 = ''flow-executor-start-v0''"
definition EXECUTOR_RESPONSE_SCHEMA_V0 :: string where "EXECUTOR_RESPONSE_SCHEMA_V0 = ''flow-executor-result-v0''"
definition EXECUTOR_PROBE_SCHEMA_V0 :: string where "EXECUTOR_PROBE_SCHEMA_V0 = ''flow-executor-probe-v0''"

definition MAX_EXECUTOR_REQUEST_BYTES_V0 :: nat where "MAX_EXECUTOR_REQUEST_BYTES_V0 = 1024 * 1024"
definition MAX_EXECUTOR_CONTROL_BYTES_V0 :: nat where "MAX_EXECUTOR_CONTROL_BYTES_V0 = 8 * 1024"
definition MAX_EXECUTOR_TOOL_STREAM_BYTES_V0 :: nat where "MAX_EXECUTOR_TOOL_STREAM_BYTES_V0 = 4 * 1024 * 1024"
definition MAX_EXECUTOR_EXEC_VECTOR_ENTRIES_V0 :: nat where "MAX_EXECUTOR_EXEC_VECTOR_ENTRIES_V0 = 2048"
definition MAX_EXECUTOR_EXEC_VECTOR_BYTES_V0 :: nat where "MAX_EXECUTOR_EXEC_VECTOR_BYTES_V0 = 128 * 1024"
definition MAX_EXECUTOR_ENCODED_STREAM_BYTES_V0 :: nat where
  "MAX_EXECUTOR_ENCODED_STREAM_BYTES_V0 = ((MAX_EXECUTOR_TOOL_STREAM_BYTES_V0 + 2) div 3) * 4"
definition MAX_EXECUTOR_RESPONSE_BYTES_V0 :: nat where
  "MAX_EXECUTOR_RESPONSE_BYTES_V0 = 2 * MAX_EXECUTOR_ENCODED_STREAM_BYTES_V0 + 64 * 1024"
definition MAX_EXECUTOR_PROBE_BYTES_V0 :: nat where "MAX_EXECUTOR_PROBE_BYTES_V0 = 64 * 1024"
definition MAX_EXECUTOR_PROTECTED_OBJECTS_V0 :: nat where "MAX_EXECUTOR_PROTECTED_OBJECTS_V0 = 128"
definition EXECUTOR_PROTECTED_DESCRIPTOR_BASE_V0 :: nat where "EXECUTOR_PROTECTED_DESCRIPTOR_BASE_V0 = 32"
definition MAX_ID_CHARS :: nat where "MAX_ID_CHARS = 256"
definition MAX_NAME_CHARS :: nat where "MAX_NAME_CHARS = 256"
definition MAX_PATH_CHARS :: nat where "MAX_PATH_CHARS = 4096"
definition MAX_ENVIRONMENT_ENTRIES :: nat where "MAX_ENVIRONMENT_ENTRIES = 256"
definition MAX_FEATURES :: nat where "MAX_FEATURES = 256"
definition MAX_ERROR_MESSAGE_CHARS :: nat where "MAX_ERROR_MESSAGE_CHARS = 4000"

subsection \<open>Documents\<close>

datatype ExecutorObjectKindV0 = ObjectFile | ObjectDirectory

record UnixObjectIdentityV0 =
  id_device :: nat
  id_inode :: nat
  id_kind :: ExecutorObjectKindV0

record ExecutorProtectedObjectV0 =
  po_descriptor :: nat
  po_identity :: UnixObjectIdentityV0
  po_path :: string

record ExecutorLimitsV0 =
  li_max_stderr_bytes :: nat
  li_max_stdout_bytes :: nat
  li_timeout_ms :: nat

record ExecutorResolvedPolicyV0 =
  rp_argv :: "string list"
  rp_environment :: "(string, string) btree"
  rp_executable :: string
  rp_limits :: ExecutorLimitsV0
  rp_protected_objects :: "ExecutorProtectedObjectV0 list"
  rp_tool_id :: string
  rp_tool_kind :: string
  rp_working_directory :: string

record ExecutorRequestV0 =
  rq_resolved_policy :: ExecutorResolvedPolicyV0
  rq_policy_digest :: string
  rq_request_id :: string
  rq_schema :: string

datatype ExecutorErrorCodeV0 = Unavailable | ProtocolMismatch | InvalidResponse | PolicyUnsupported | SandboxSetupFailed

datatype ExecutorPreflightV0 =
    PreflightReady (pf_request_id: string) (pf_schema: string)
  | PreflightError ExecutorErrorCodeV0 string (pf_request_id: string) (pf_schema: string)

record ExecutorStartV0 =
  es_request_id :: string
  es_schema :: string

record EnforcementReceiptV0 =
  er_applied_policy_digest :: string
  er_backend :: string
  er_backend_version :: string
  er_executor :: string
  er_executor_version :: string
  er_self_protection_active :: bool
  er_platform :: string

datatype ExecutorToolStatusV0 = Completed | Failed | TimedOut | Cancelled

datatype ExecutorToolClassificationV0 = NonzeroExit | SignalTermination | StderrCapExceeded | StdoutCapExceeded
  | StdoutStderrCapExceeded | ClassToolTimedOut | OutputCollectorFailed | OutputDrainTimeout | ClassCancelled

record ExecutorToolResultV0 =
  tr_classification :: "ExecutorToolClassificationV0 option"
  tr_exit_code :: "int option"
  tr_status :: ExecutorToolStatusV0
  tr_stderr_base64 :: string
  tr_stdout_base64 :: string

datatype ExecutorResponseV0 =
    ResponseCompleted EnforcementReceiptV0 (rs_request_id: string) (rs_schema: string) ExecutorToolResultV0
  | ResponseError ExecutorErrorCodeV0 string (rs_request_id: string) (rs_schema: string)

record ExecutorProbeV0 =
  pb_backend :: string
  pb_backend_version :: string
  pb_executor :: string
  pb_executor_version :: string
  pb_platform :: string
  pb_protocol_versions :: "string list"
  pb_ready :: bool
  pb_schema :: string
  pb_supported_policy_features :: "string list"

subsection \<open>Serialisation\<close>

abbreviation JNat :: "nat \<Rightarrow> json" where "JNat n \<equiv> JNumber (PosInt n)"

definition JInt :: "int \<Rightarrow> json" where "JInt i = JNumber (number_from_i64 i)"

definition JStrings :: "string list \<Rightarrow> json" where "JStrings ss = JArray (map JString ss)"

definition json_object :: "(string \<times> json) list \<Rightarrow> json" where "json_object es = JObject (build_map es)"

primrec ExecutorObjectKindV0_token :: "ExecutorObjectKindV0 \<Rightarrow> string" where
  "ExecutorObjectKindV0_token ObjectFile = ''file''"
| "ExecutorObjectKindV0_token ObjectDirectory = ''directory''"

primrec ExecutorErrorCodeV0_token :: "ExecutorErrorCodeV0 \<Rightarrow> string" where
  "ExecutorErrorCodeV0_token Unavailable = ''executor_unavailable''"
| "ExecutorErrorCodeV0_token ProtocolMismatch = ''executor_protocol_mismatch''"
| "ExecutorErrorCodeV0_token InvalidResponse = ''executor_invalid_response''"
| "ExecutorErrorCodeV0_token PolicyUnsupported = ''executor_policy_unsupported''"
| "ExecutorErrorCodeV0_token SandboxSetupFailed = ''sandbox_setup_failed''"

primrec ExecutorToolStatusV0_token :: "ExecutorToolStatusV0 \<Rightarrow> string" where
  "ExecutorToolStatusV0_token Completed = ''completed''"
| "ExecutorToolStatusV0_token Failed = ''failed''"
| "ExecutorToolStatusV0_token TimedOut = ''timed_out''"
| "ExecutorToolStatusV0_token Cancelled = ''cancelled''"

primrec ExecutorToolClassificationV0_token :: "ExecutorToolClassificationV0 \<Rightarrow> string" where
  "ExecutorToolClassificationV0_token NonzeroExit = ''nonzero_exit''"
| "ExecutorToolClassificationV0_token SignalTermination = ''signal_termination''"
| "ExecutorToolClassificationV0_token StderrCapExceeded = ''stderr_cap_exceeded''"
| "ExecutorToolClassificationV0_token StdoutCapExceeded = ''stdout_cap_exceeded''"
| "ExecutorToolClassificationV0_token StdoutStderrCapExceeded = ''stdout_stderr_cap_exceeded''"
| "ExecutorToolClassificationV0_token ClassToolTimedOut = ''tool_timed_out''"
| "ExecutorToolClassificationV0_token OutputCollectorFailed = ''output_collector_failed''"
| "ExecutorToolClassificationV0_token OutputDrainTimeout = ''output_drain_timeout''"
| "ExecutorToolClassificationV0_token ClassCancelled = ''cancelled''"

definition UnixObjectIdentityV0_to_value :: "UnixObjectIdentityV0 \<Rightarrow> json" where
  "UnixObjectIdentityV0_to_value i = json_object
     [(''device'', JNat (id_device i)), (''inode'', JNat (id_inode i)),
      (''kind'', JString (ExecutorObjectKindV0_token (id_kind i)))]"

definition ExecutorProtectedObjectV0_to_value :: "ExecutorProtectedObjectV0 \<Rightarrow> json" where
  "ExecutorProtectedObjectV0_to_value p = json_object
     [(''descriptor'', JNat (po_descriptor p)), (''identity'', UnixObjectIdentityV0_to_value (po_identity p)),
      (''path'', JString (po_path p))]"

definition ExecutorLimitsV0_to_value :: "ExecutorLimitsV0 \<Rightarrow> json" where
  "ExecutorLimitsV0_to_value l = json_object
     [(''max_stderr_bytes'', JNat (li_max_stderr_bytes l)), (''max_stdout_bytes'', JNat (li_max_stdout_bytes l)),
      (''timeout_ms'', JNat (li_timeout_ms l))]"

definition ExecutorResolvedPolicyV0_to_value :: "ExecutorResolvedPolicyV0 \<Rightarrow> json" where
  "ExecutorResolvedPolicyV0_to_value p = json_object
     [(''argv'', JStrings (rp_argv p)),
      (''environment'', json_object (map (\<lambda>(name, value). (name, JString value)) (rp_environment p))),
      (''executable'', JString (rp_executable p)),
      (''limits'', ExecutorLimitsV0_to_value (rp_limits p)),
      (''protected_objects'', JArray (map ExecutorProtectedObjectV0_to_value (rp_protected_objects p))),
      (''tool_id'', JString (rp_tool_id p)),
      (''tool_kind'', JString (rp_tool_kind p)),
      (''working_directory'', JString (rp_working_directory p))]"

definition ExecutorRequestV0_to_value :: "ExecutorRequestV0 \<Rightarrow> json" where
  "ExecutorRequestV0_to_value r = json_object
     [(''resolved_policy'', ExecutorResolvedPolicyV0_to_value (rq_resolved_policy r)),
      (''policy_digest'', JString (rq_policy_digest r)),
      (''request_id'', JString (rq_request_id r)),
      (''schema'', JString (rq_schema r))]"

fun ExecutorPreflightV0_to_value :: "ExecutorPreflightV0 \<Rightarrow> json" where
  "ExecutorPreflightV0_to_value (PreflightReady request_id schema) = json_object
     [(''outcome'', JString ''ready''), (''request_id'', JString request_id), (''schema'', JString schema)]"
| "ExecutorPreflightV0_to_value (PreflightError code message request_id schema) = json_object
     [(''outcome'', JString ''error''), (''code'', JString (ExecutorErrorCodeV0_token code)), (''message'', JString message),
      (''request_id'', JString request_id), (''schema'', JString schema)]"

definition ExecutorStartV0_to_value :: "ExecutorStartV0 \<Rightarrow> json" where
  "ExecutorStartV0_to_value s = json_object [(''request_id'', JString (es_request_id s)), (''schema'', JString (es_schema s))]"

definition EnforcementReceiptV0_to_value :: "EnforcementReceiptV0 \<Rightarrow> json" where
  "EnforcementReceiptV0_to_value r = json_object
     [(''applied_policy_digest'', JString (er_applied_policy_digest r)),
      (''backend'', JString (er_backend r)), (''backend_version'', JString (er_backend_version r)),
      (''executor'', JString (er_executor r)), (''executor_version'', JString (er_executor_version r)),
      (''self_protection_active'', JBool (er_self_protection_active r)), (''platform'', JString (er_platform r))]"

definition ExecutorToolResultV0_to_value :: "ExecutorToolResultV0 \<Rightarrow> json" where
  "ExecutorToolResultV0_to_value r = json_object
     [(''classification'', case tr_classification r of None \<Rightarrow> JNull | Some c \<Rightarrow> JString (ExecutorToolClassificationV0_token c)),
      (''exit_code'', case tr_exit_code r of None \<Rightarrow> JNull | Some c \<Rightarrow> JInt c),
      (''status'', JString (ExecutorToolStatusV0_token (tr_status r))),
      (''stderr_base64'', JString (tr_stderr_base64 r)),
      (''stdout_base64'', JString (tr_stdout_base64 r))]"

fun ExecutorResponseV0_to_value :: "ExecutorResponseV0 \<Rightarrow> json" where
  "ExecutorResponseV0_to_value (ResponseCompleted enforcement request_id schema tool_result) = json_object
     [(''outcome'', JString ''completed''), (''enforcement'', EnforcementReceiptV0_to_value enforcement),
      (''request_id'', JString request_id), (''schema'', JString schema),
      (''tool_result'', ExecutorToolResultV0_to_value tool_result)]"
| "ExecutorResponseV0_to_value (ResponseError code message request_id schema) = json_object
     [(''outcome'', JString ''error''), (''code'', JString (ExecutorErrorCodeV0_token code)), (''message'', JString message),
      (''request_id'', JString request_id), (''schema'', JString schema)]"

definition ExecutorProbeV0_to_value :: "ExecutorProbeV0 \<Rightarrow> json" where
  "ExecutorProbeV0_to_value p = json_object
     [(''backend'', JString (pb_backend p)), (''backend_version'', JString (pb_backend_version p)),
      (''executor'', JString (pb_executor p)), (''executor_version'', JString (pb_executor_version p)),
      (''platform'', JString (pb_platform p)), (''protocol_versions'', JStrings (pb_protocol_versions p)),
      (''ready'', JBool (pb_ready p)), (''schema'', JString (pb_schema p)),
      (''supported_policy_features'', JStrings (pb_supported_policy_features p))]"

subsection \<open>The exec vector\<close>

datatype ExecutorExecVectorErrorV0 = NulByte | EntryBudget nat | ByteBudget nat

definition size_of_usize :: nat where "size_of_usize = 8"

definition add_argument_bytes :: "nat \<Rightarrow> string \<Rightarrow> nat option" where
  "add_argument_bytes acc value =
     Option.bind (checked_add_usize (length value) 1) (\<lambda>bytes. checked_add_usize acc bytes)"

definition add_environment_bytes :: "nat \<Rightarrow> string \<times> string \<Rightarrow> nat option" where
  "add_environment_bytes acc = (\<lambda>(name, value).
     Option.bind (checked_add_usize acc (length name)) (\<lambda>t.
     Option.bind (checked_add_usize t 1) (\<lambda>t.
     Option.bind (checked_add_usize t (length value)) (\<lambda>t. checked_add_usize t 1))))"

primrec try_fold :: "('s \<Rightarrow> 'a \<Rightarrow> 's option) \<Rightarrow> 's \<Rightarrow> 'a list \<Rightarrow> 's option" where
  "try_fold f s [] = Some s"
| "try_fold f s (x # xs) = Option.bind (f s x) (\<lambda>s'. try_fold f s' xs)"

definition validate_executor_exec_vector_v0 ::
    "string \<Rightarrow> string list \<Rightarrow> (string, string) btree \<Rightarrow> (nat, ExecutorExecVectorErrorV0) result" where
  "validate_executor_exec_vector_v0 executable argv environment =
    (if contains_nul executable \<or> list_ex contains_nul argv \<or>
        list_ex (\<lambda>(name, value). contains_nul name \<or> contains_nul value) environment
     then Err NulByte
     else
       and_then (ok_or (EntryBudget usize_max) (checked_add_usize (length argv) 1)) (\<lambda>entries.
       if entries > MAX_EXECUTOR_EXEC_VECTOR_ENTRIES_V0 then Err (EntryBudget entries)
       else
       and_then (ok_or (ByteBudget usize_max) (try_fold add_argument_bytes 0 (executable # argv))) (\<lambda>string_bytes.
       and_then (ok_or (ByteBudget usize_max) (try_fold add_environment_bytes string_bytes environment)) (\<lambda>string_bytes.
       and_then (ok_or (ByteBudget usize_max)
         (Option.bind (checked_add_usize entries (length environment)) (\<lambda>count.
          Option.bind (checked_add_usize count 2) (\<lambda>count. checked_mul_usize count size_of_usize)))) (\<lambda>pointer_bytes.
       and_then (ok_or (ByteBudget usize_max) (checked_add_usize string_bytes pointer_bytes)) (\<lambda>encoded_bytes.
       if encoded_bytes > MAX_EXECUTOR_EXEC_VECTOR_BYTES_V0 then Err (ByteBudget encoded_bytes)
       else Ok encoded_bytes))))))"

subsection \<open>Validation\<close>

text \<open>
  \<open>Message\<close> carries the messages of the validation; \<open>InvalidDocument\<close> is the message that wraps an error of
  the JSON library or of the canonical writer.
\<close>

datatype document_failure = ParseFailure | CanonicalFailure CanonicalJsonError | DecodeFailure

datatype ExecutorProtocolError = Message string | InvalidDocument string document_failure

type_synonym 'a executor = "('a, ExecutorProtocolError) result"

definition executor_validate_schema :: "string \<Rightarrow> string \<Rightarrow> string \<Rightarrow> unit executor" where
  "executor_validate_schema actual expected doc =
     ensure (actual = expected) (Message (''unsupported Executor '' @ doc @ '' schema''))"

definition executor_validate_digest :: "string \<Rightarrow> string \<Rightarrow> unit executor" where
  "executor_validate_digest value name =
     ensure (decode_lowercase_sha256_hex value \<noteq> None) (Message (''Executor '' @ name @ '' is not lowercase SHA-256''))"

definition executor_validate_text :: "string \<Rightarrow> string \<Rightarrow> nat \<Rightarrow> unit executor" where
  "executor_validate_text value name max_chars =
    (let count = chars_count value in
     if count = 0 \<or> count > max_chars \<or> has_control value then Err (Message (''Executor '' @ name @ '' is invalid''))
     else Ok ())"

definition SLASH :: char where "SLASH = CHR 0x2F"
definition BACKSLASH :: char where "BACKSLASH = CHR 0x5C"

definition validate_absolute_path :: "string \<Rightarrow> string \<Rightarrow> unit executor" where
  "validate_absolute_path value name =
    (if value = [SLASH] \<or> (case value of [] \<Rightarrow> True | c # _ \<Rightarrow> c \<noteq> SLASH) \<or> last value = SLASH \<or> BACKSLASH \<in> set value \<or>
        list_ex (\<lambda>component. component = [] \<or> component = ''.'' \<or> component = ''..'') (split_on SLASH (tl value))
     then Err (Message (''Executor '' @ name @ '' is not a canonical absolute path''))
     else Ok ())"

definition hex_byte :: "u8 \<Rightarrow> string" where
  "hex_byte byte = [hex_char (unat byte div 16), hex_char (unat byte mod 16)]"

definition resolved_policy_digest_v0 :: "text_env \<Rightarrow> (string \<Rightarrow> u8 list) \<Rightarrow> ExecutorResolvedPolicyV0 \<Rightarrow> string executor" where
  "resolved_policy_digest_v0 env sha256 policy =
     and_then (map_err (\<lambda>e. InvalidDocument ''resolved policy'' (CanonicalFailure e))
       (canonical_json env (ExecutorResolvedPolicyV0_to_value policy))) (\<lambda>canonical.
     Ok (concat (map hex_byte (sha256 (canonical @ [CHR 0x0A])))))"

definition exec_vector_message :: "ExecutorExecVectorErrorV0 \<Rightarrow> ExecutorProtocolError" where
  "exec_vector_message error = Message
    (case error of
       NulByte \<Rightarrow> ''Executor argv is invalid''
     | EntryBudget _ \<Rightarrow> ''Executor argv entry bound is invalid''
     | ByteBudget n \<Rightarrow> if n = usize_max then ''Executor argv byte count overflow'' else ''Executor argv exceeds its byte limit'')"

text \<open>The loop over the protected objects; \<open>paths\<close> is the set of paths seen so far.\<close>

fun validate_protected_objects :: "nat \<Rightarrow> string bset \<Rightarrow> ExecutorProtectedObjectV0 list \<Rightarrow> unit executor" where
  "validate_protected_objects index paths [] = Ok ()"
| "validate_protected_objects index paths (object # objects) =
     and_then (ensure (po_descriptor object = EXECUTOR_PROTECTED_DESCRIPTOR_BASE_V0 + index)
       (Message ''Executor protected object descriptor is invalid'')) (\<lambda>_.
     and_then (executor_validate_text (po_path object) ''protected object path'' MAX_PATH_CHARS) (\<lambda>_.
     and_then (validate_absolute_path (po_path object) ''protected object path'') (\<lambda>_.
     if bs_contains paths (po_path object) then Err (Message ''Executor protected object path is duplicated'')
     else validate_protected_objects (index + 1) (bs_insert (po_path object) paths) objects)))"

definition validate_request :: "text_env \<Rightarrow> (string \<Rightarrow> u8 list) \<Rightarrow> ExecutorRequestV0 \<Rightarrow> unit executor" where
  "validate_request env sha256 request =
    (let policy = rq_resolved_policy request; limits = rp_limits policy in all_ok
      [executor_validate_schema (rq_schema request) EXECUTOR_REQUEST_SCHEMA_V0 ''request'',
       executor_validate_text (rq_request_id request) ''request_id'' MAX_ID_CHARS,
       executor_validate_text (rp_tool_id policy) ''tool_id'' MAX_ID_CHARS,
       executor_validate_text (rp_tool_kind policy) ''tool_kind'' MAX_NAME_CHARS,
       executor_validate_text (rp_executable policy) ''executable'' MAX_PATH_CHARS,
       validate_absolute_path (rp_executable policy) ''executable'',
       executor_validate_text (rp_working_directory policy) ''working_directory'' MAX_PATH_CHARS,
       validate_absolute_path (rp_working_directory policy) ''working_directory'',
       ensure (\<not> length (rp_environment policy) > MAX_ENVIRONMENT_ENTRIES) (Message ''Executor environment has too many entries''),
       each_ok (\<lambda>(name, value).
         and_then (executor_validate_text name ''environment name'' MAX_NAME_CHARS) (\<lambda>_.
         executor_validate_text value ''environment value'' MAX_PATH_CHARS)) (rp_environment policy),
       map_err exec_vector_message (and_then
         (validate_executor_exec_vector_v0 (rp_executable policy) (rp_argv policy) (rp_environment policy)) (\<lambda>_. Ok ())),
       ensure (rp_protected_objects policy \<noteq> []) (Message ''Executor protected object list must be nonempty''),
       ensure (\<not> length (rp_protected_objects policy) > MAX_EXECUTOR_PROTECTED_OBJECTS_V0)
         (Message ''Executor protected object list exceeds its limit''),
       validate_protected_objects 0 [] (rp_protected_objects policy),
       executor_validate_digest (rq_policy_digest request) ''policy_digest'',
       and_then (resolved_policy_digest_v0 env sha256 policy) (\<lambda>digest.
         ensure (digest = rq_policy_digest request) (Message ''Executor request policy digest does not match'')),
       ensure (\<not> (li_timeout_ms limits = 0 \<or> li_max_stdout_bytes limits = 0 \<or> li_max_stderr_bytes limits = 0))
         (Message ''Executor limits must be nonzero''),
       ensure (\<not> (li_max_stdout_bytes limits > MAX_EXECUTOR_TOOL_STREAM_BYTES_V0 \<or>
                  li_max_stderr_bytes limits > MAX_EXECUTOR_TOOL_STREAM_BYTES_V0))
         (Message ''Executor stream limits exceed the protocol bound'')])"

definition validate_preflight :: "ExecutorPreflightV0 \<Rightarrow> string \<Rightarrow> unit executor" where
  "validate_preflight preflight expected_request_id = all_ok
     [executor_validate_schema (pf_schema preflight) EXECUTOR_PREFLIGHT_SCHEMA_V0 ''preflight'',
      executor_validate_text (pf_request_id preflight) ''request_id'' MAX_ID_CHARS,
      ensure (pf_request_id preflight = expected_request_id) (Message ''Executor preflight request id does not match''),
      (case preflight of
         PreflightError code message _ _ \<Rightarrow>
           and_then (ensure (code \<in> {Unavailable, PolicyUnsupported}) (Message ''Executor preflight error code is invalid'')) (\<lambda>_.
           executor_validate_text message ''error message'' MAX_ERROR_MESSAGE_CHARS)
       | PreflightReady _ _ \<Rightarrow> Ok ())]"

definition validate_start :: "ExecutorStartV0 \<Rightarrow> string \<Rightarrow> unit executor" where
  "validate_start start expected_request_id = all_ok
     [executor_validate_schema (es_schema start) EXECUTOR_START_SCHEMA_V0 ''start'',
      executor_validate_text (es_request_id start) ''request_id'' MAX_ID_CHARS,
      ensure (es_request_id start = expected_request_id) (Message ''Executor start request id does not match'')]"

definition validate_receipt :: "EnforcementReceiptV0 \<Rightarrow> string \<Rightarrow> unit executor" where
  "validate_receipt receipt expected_policy_digest = all_ok
     [executor_validate_digest (er_applied_policy_digest receipt) ''applied_policy_digest'',
      each_ok (\<lambda>(name, value). executor_validate_text value name MAX_NAME_CHARS)
        [(''executor'', er_executor receipt), (''executor_version'', er_executor_version receipt),
         (''backend'', er_backend receipt), (''backend_version'', er_backend_version receipt),
         (''platform'', er_platform receipt)],
      ensure (er_applied_policy_digest receipt = expected_policy_digest) (Message ''Executor applied the wrong policy digest''),
      ensure (er_self_protection_active receipt) (Message ''Executor self-protection was not active'')]"

definition valid_terminal :: "ExecutorToolStatusV0 \<Rightarrow> ExecutorToolClassificationV0 option \<Rightarrow> int option \<Rightarrow> bool" where
  "valid_terminal status classification exit_code =
    (case (status, classification, exit_code) of
       (Completed, None, Some code) \<Rightarrow> code = 0
     | (Failed, Some NonzeroExit, Some code) \<Rightarrow> code \<noteq> 0
     | (Failed, Some SignalTermination, None) \<Rightarrow> True
     | (Failed, Some c, _) \<Rightarrow>
         c \<in> {StderrCapExceeded, StdoutCapExceeded, StdoutStderrCapExceeded, OutputCollectorFailed, OutputDrainTimeout}
     | (TimedOut, Some ClassToolTimedOut, None) \<Rightarrow> True
     | (Cancelled, Some ClassCancelled, None) \<Rightarrow> True
     | _ \<Rightarrow> False)"

definition invalid_base64 :: "StreamError \<Rightarrow> ExecutorProtocolError" where
  "invalid_base64 _ = Message ''Executor Tool stream is not canonical base64''"

definition validate_tool_result :: "ExecutorToolResultV0 \<Rightarrow> unit executor" where
  "validate_tool_result r = all_ok
     [ensure (valid_terminal (tr_status r) (tr_classification r) (tr_exit_code r))
        (Message ''Executor Tool result has an invalid terminal state''),
      each_ok (\<lambda>(name, encoded).
        and_then (map_err invalid_base64 (decode_executor_stream_v0 encoded)) (\<lambda>decoded.
        ensure (\<not> length decoded > MAX_EXECUTOR_TOOL_STREAM_BYTES_V0) (Message (''Executor Tool '' @ name @ '' exceeds its byte limit''))))
        [(''stdout'', tr_stdout_base64 r), (''stderr'', tr_stderr_base64 r)]]"

definition validate_response :: "ExecutorResponseV0 \<Rightarrow> string \<Rightarrow> string \<Rightarrow> unit executor" where
  "validate_response response expected_request_id expected_policy_digest = all_ok
     [executor_validate_schema (rs_schema response) EXECUTOR_RESPONSE_SCHEMA_V0 ''response'',
      executor_validate_text (rs_request_id response) ''request_id'' MAX_ID_CHARS,
      ensure (rs_request_id response = expected_request_id) (Message ''Executor response request id does not match''),
      (case response of
         ResponseCompleted enforcement _ _ tool_result \<Rightarrow>
           and_then (validate_receipt enforcement expected_policy_digest) (\<lambda>_. validate_tool_result tool_result)
       | ResponseError code message _ _ \<Rightarrow>
           and_then (ensure (code = SandboxSetupFailed) (Message ''Executor terminal error code is invalid'')) (\<lambda>_.
           executor_validate_text message ''error message'' MAX_ERROR_MESSAGE_CHARS))]"

definition validate_probe :: "ExecutorProbeV0 \<Rightarrow> unit executor" where
  "validate_probe probe = all_ok
     [executor_validate_schema (pb_schema probe) EXECUTOR_PROBE_SCHEMA_V0 ''probe'',
      each_ok (\<lambda>(name, value). executor_validate_text value name MAX_NAME_CHARS)
        [(''executor'', pb_executor probe), (''executor_version'', pb_executor_version probe),
         (''backend'', pb_backend probe), (''backend_version'', pb_backend_version probe), (''platform'', pb_platform probe)],
      ensure (\<not> (pb_protocol_versions probe = [] \<or> length (pb_protocol_versions probe) > MAX_FEATURES \<or>
                 length (pb_supported_policy_features probe) > MAX_FEATURES)) (Message ''Executor probe list bounds are invalid''),
      each_ok (\<lambda>value. executor_validate_text value ''probe feature'' MAX_NAME_CHARS)
        (pb_protocol_versions probe @ pb_supported_policy_features probe)]"

subsection \<open>Canonical documents\<close>

text \<open>\<open>str::from_utf8\<close>: the well-formed byte sequences of UTF-8.\<close>

record executor_env =
  ex_text :: text_env
  ex_sha256 :: "string \<Rightarrow> u8 list"
  ex_read :: "string \<Rightarrow> raw_json option"
  ex_request :: "json \<Rightarrow> ExecutorRequestV0 option"
  ex_preflight :: "json \<Rightarrow> ExecutorPreflightV0 option"
  ex_start :: "json \<Rightarrow> ExecutorStartV0 option"
  ex_response :: "json \<Rightarrow> ExecutorResponseV0 option"
  ex_probe :: "json \<Rightarrow> ExecutorProbeV0 option"

definition decode_document :: "(json \<Rightarrow> 'a option) \<Rightarrow> json \<Rightarrow> string \<Rightarrow> 'a executor" where
  "decode_document from_value value doc = ok_or (InvalidDocument doc DecodeFailure) (from_value value)"

definition parse_canonical_document :: "executor_env \<Rightarrow> string \<Rightarrow> nat \<Rightarrow> string \<Rightarrow> json executor" where
  "parse_canonical_document env bytes limit doc =
     and_then (ensure (\<not> length bytes > limit) (Message (''Executor '' @ doc @ '' exceeds its byte limit''))) (\<lambda>_.
     and_then (ensure (\<not> (bytes = [] \<or> last bytes \<noteq> CHR 0x0A \<or> CHR 0x0A \<in> set (butlast bytes)))
       (Message (''Executor '' @ doc @ '' must be one LF-terminated canonical JSON document''))) (\<lambda>_.
     let body = butlast bytes in
     and_then (ensure (utf8_valid body) (Message (''Executor '' @ doc @ '' is not UTF-8''))) (\<lambda>_.
     and_then (ok_or (InvalidDocument doc ParseFailure) (parse_unique_json (ex_read env) body)) (\<lambda>value.
     and_then (map_err (\<lambda>e. InvalidDocument doc (CanonicalFailure e)) (canonical_json (ex_text env) value)) (\<lambda>canonical.
     and_then (ensure (canonical = body) (Message (''Executor '' @ doc @ '' is not canonical JSON''))) (\<lambda>_.
     Ok value))))))"

definition canonical_document :: "executor_env \<Rightarrow> json \<Rightarrow> nat \<Rightarrow> string \<Rightarrow> (string \<times> json) executor" where
  "canonical_document env value limit doc =
     and_then (map_err (\<lambda>e. InvalidDocument doc (CanonicalFailure e)) (canonical_json (ex_text env) value)) (\<lambda>text.
     let bytes = text @ [CHR 0x0A] in
     and_then (ensure (\<not> length bytes > limit) (Message (''Executor '' @ doc @ '' exceeds its byte limit''))) (\<lambda>_.
     Ok (bytes, value)))"

definition bt_collect :: "('k::linorder \<times> 'v) list \<Rightarrow> ('k, 'v) btree" where
  "bt_collect es = foldl (\<lambda>m e. bt_insert (fst e) (snd e) m) [] es"

definition normalize_environment :: "text_env \<Rightarrow> ExecutorRequestV0 \<Rightarrow> ExecutorRequestV0" where
  "normalize_environment env r = r\<lparr> rq_resolved_policy := (rq_resolved_policy r)
     \<lparr> rp_environment := bt_collect (map (\<lambda>(name, value). (nfc_string env name, value)) (rp_environment (rq_resolved_policy r))) \<rparr> \<rparr>"

definition canonical_executor_request_v0 :: "executor_env \<Rightarrow> ExecutorRequestV0 \<Rightarrow> string executor" where
  "canonical_executor_request_v0 env request =
     and_then (validate_request (ex_text env) (ex_sha256 env) request) (\<lambda>_.
     and_then (canonical_document env (ExecutorRequestV0_to_value request) MAX_EXECUTOR_REQUEST_BYTES_V0 ''request'') (\<lambda>(bytes, value).
     and_then (decode_document (ex_request env) (nfc_json_string_values (ex_text env) value) ''request'') (\<lambda>normalized.
     and_then (validate_request (ex_text env) (ex_sha256 env) (normalize_environment (ex_text env) normalized)) (\<lambda>_.
     Ok bytes))))"

definition canonical_executor_preflight_v0 :: "executor_env \<Rightarrow> ExecutorPreflightV0 \<Rightarrow> string executor" where
  "canonical_executor_preflight_v0 env preflight =
     and_then (canonical_document env (ExecutorPreflightV0_to_value preflight) MAX_EXECUTOR_CONTROL_BYTES_V0 ''preflight'') (\<lambda>(bytes, value).
     and_then (decode_document (ex_preflight env) (nfc_json_string_values (ex_text env) value) ''preflight'') (\<lambda>normalized.
     and_then (validate_preflight normalized (pf_request_id preflight)) (\<lambda>_. Ok bytes)))"

definition canonical_executor_start_v0 :: "executor_env \<Rightarrow> ExecutorStartV0 \<Rightarrow> string executor" where
  "canonical_executor_start_v0 env start =
     and_then (canonical_document env (ExecutorStartV0_to_value start) MAX_EXECUTOR_CONTROL_BYTES_V0 ''start'') (\<lambda>(bytes, value).
     and_then (decode_document (ex_start env) (nfc_json_string_values (ex_text env) value) ''start'') (\<lambda>normalized.
     and_then (validate_start normalized (es_request_id start)) (\<lambda>_. Ok bytes)))"

definition response_policy_digest :: "ExecutorResponseV0 \<Rightarrow> string" where
  "response_policy_digest response =
    (case response of ResponseCompleted enforcement _ _ _ \<Rightarrow> er_applied_policy_digest enforcement | ResponseError _ _ _ _ \<Rightarrow> [])"

definition canonical_executor_response_v0 :: "executor_env \<Rightarrow> ExecutorResponseV0 \<Rightarrow> string executor" where
  "canonical_executor_response_v0 env response =
     and_then (canonical_document env (ExecutorResponseV0_to_value response) MAX_EXECUTOR_RESPONSE_BYTES_V0 ''response'') (\<lambda>(bytes, value).
     and_then (decode_document (ex_response env) (nfc_json_string_values (ex_text env) value) ''response'') (\<lambda>normalized.
     and_then (validate_response normalized (rs_request_id response) (response_policy_digest response)) (\<lambda>_. Ok bytes)))"

definition canonical_executor_probe_v0 :: "executor_env \<Rightarrow> ExecutorProbeV0 \<Rightarrow> string executor" where
  "canonical_executor_probe_v0 env probe =
     and_then (canonical_document env (ExecutorProbeV0_to_value probe) MAX_EXECUTOR_PROBE_BYTES_V0 ''probe'') (\<lambda>(bytes, value).
     and_then (decode_document (ex_probe env) (nfc_json_string_values (ex_text env) value) ''probe'') (\<lambda>normalized.
     and_then (validate_probe normalized) (\<lambda>_. Ok bytes)))"

definition parse_executor_request_v0 :: "executor_env \<Rightarrow> string \<Rightarrow> ExecutorRequestV0 executor" where
  "parse_executor_request_v0 env bytes =
     and_then (parse_canonical_document env bytes MAX_EXECUTOR_REQUEST_BYTES_V0 ''request'') (\<lambda>value.
     and_then (decode_document (ex_request env) value ''request'') (\<lambda>request.
     and_then (validate_request (ex_text env) (ex_sha256 env) request) (\<lambda>_. Ok request)))"

definition parse_executor_preflight_v0 :: "executor_env \<Rightarrow> string \<Rightarrow> string \<Rightarrow> ExecutorPreflightV0 executor" where
  "parse_executor_preflight_v0 env bytes expected_request_id =
     and_then (parse_canonical_document env bytes MAX_EXECUTOR_CONTROL_BYTES_V0 ''preflight'') (\<lambda>value.
     and_then (decode_document (ex_preflight env) value ''preflight'') (\<lambda>preflight.
     and_then (validate_preflight preflight expected_request_id) (\<lambda>_. Ok preflight)))"

definition parse_executor_start_v0 :: "executor_env \<Rightarrow> string \<Rightarrow> string \<Rightarrow> ExecutorStartV0 executor" where
  "parse_executor_start_v0 env bytes expected_request_id =
     and_then (parse_canonical_document env bytes MAX_EXECUTOR_CONTROL_BYTES_V0 ''start'') (\<lambda>value.
     and_then (decode_document (ex_start env) value ''start'') (\<lambda>start.
     and_then (validate_start start expected_request_id) (\<lambda>_. Ok start)))"

definition parse_executor_response_v0 :: "executor_env \<Rightarrow> string \<Rightarrow> string \<Rightarrow> string \<Rightarrow> ExecutorResponseV0 executor" where
  "parse_executor_response_v0 env bytes expected_request_id expected_policy_digest =
     and_then (parse_canonical_document env bytes MAX_EXECUTOR_RESPONSE_BYTES_V0 ''response'') (\<lambda>value.
     and_then (decode_document (ex_response env) value ''response'') (\<lambda>response.
     and_then (validate_response response expected_request_id expected_policy_digest) (\<lambda>_. Ok response)))"

definition parse_executor_probe_v0 :: "executor_env \<Rightarrow> string \<Rightarrow> ExecutorProbeV0 executor" where
  "parse_executor_probe_v0 env bytes =
     and_then (parse_canonical_document env bytes MAX_EXECUTOR_PROBE_BYTES_V0 ''probe'') (\<lambda>value.
     and_then (decode_document (ex_probe env) value ''probe'') (\<lambda>probe.
     and_then (validate_probe probe) (\<lambda>_. Ok probe)))"

end
