(* ===== verification/Executor_Correctness.thy ===== *)
theory Executor_Correctness
  imports Executor
begin

text \<open>
  What the Executor protocol guarantees: the exact size of an exec vector, canonical absolute paths, the
  round trip of every document (the locale \<open>canonical_codec\<close>, interpreted for the five documents), and
  what an accepted request and an accepted response prove to the reader.
\<close>

subsection \<open>The exec vector\<close>

definition argument_bytes :: "string list \<Rightarrow> nat" where
  "argument_bytes ss = (\<Sum>s \<leftarrow> ss. length s + 1)"

definition environment_bytes :: "(string, string) btree \<Rightarrow> nat" where
  "environment_bytes es = (\<Sum>(name, value) \<leftarrow> es. length name + length value + 2)"

definition vector_bytes :: "string \<Rightarrow> string list \<Rightarrow> (string, string) btree \<Rightarrow> nat" where
  "vector_bytes executable argv environment =
     argument_bytes (executable # argv) + environment_bytes environment + 8 * (length argv + length environment + 3)"

lemma checked_add_Some: "checked_add_usize a b = Some c \<longleftrightarrow> c = a + b \<and> a + b \<le> usize_max"
  by (auto simp: checked_add_usize_def)

lemma fold_arguments:
  "n \<le> usize_max \<Longrightarrow> try_fold add_argument_bytes n ss =
     (if n + argument_bytes ss \<le> usize_max then Some (n + argument_bytes ss) else None)"
proof (induction ss arbitrary: n)
  case (Cons s ss)
  then show ?case using Cons.IH [of "n + Suc (length s)"]
    by (auto simp: argument_bytes_def add_argument_bytes_def checked_add_usize_def)
qed (simp add: argument_bytes_def)

lemma add_environment_eq:
  "add_environment_bytes n (name, value) =
     (if n + (length name + length value + 2) \<le> usize_max then Some (n + (length name + length value + 2)) else None)"
  by (auto simp: add_environment_bytes_def checked_add_usize_def)

lemma fold_environment:
  "n \<le> usize_max \<Longrightarrow> try_fold add_environment_bytes n es =
     (if n + environment_bytes es \<le> usize_max then Some (n + environment_bytes es) else None)"
proof (induction es arbitrary: n)
  case (Cons e es)
  then show ?case using Cons.IH [of "n + (length (fst e) + length (snd e) + 2)"]
    by (cases e) (auto simp: environment_bytes_def add_environment_eq)
qed (simp add: environment_bytes_def)

text \<open>
  C25: the size an accepted exec vector reports is exact. A vector is accepted exactly when it has no NUL
  byte, at most 2048 entries, and strings, terminators and pointer arrays of at most 128 KiB, and no
  intermediate sum can overflow then.
\<close>

theorem exec_vector_exact:
  "validate_executor_exec_vector_v0 executable argv environment = Ok n \<longleftrightarrow>
     \<not> contains_nul executable \<and> \<not> list_ex contains_nul argv \<and>
     \<not> list_ex (\<lambda>(name, value). contains_nul name \<or> contains_nul value) environment \<and>
     length argv < 2048 \<and> n = vector_bytes executable argv environment \<and> n \<le> 131072"
proof -
  have big: "131072 \<le> usize_max" by (simp add: usize_max_def)
  have "validate_executor_exec_vector_v0 executable argv environment = Ok n \<longleftrightarrow>
     \<not> contains_nul executable \<and> \<not> list_ex contains_nul argv \<and>
     \<not> list_ex (\<lambda>(name, value). contains_nul name \<or> contains_nul value) environment \<and>
     length argv < 2048 \<and> n = vector_bytes executable argv environment \<and> n \<le> usize_max \<and> n \<le> 131072"
    unfolding validate_executor_exec_vector_v0_def
    by (auto simp del: try_fold.simps
        simp: fold_arguments fold_environment checked_add_usize_def checked_mul_usize_def size_of_usize_def
          MAX_EXECUTOR_EXEC_VECTOR_ENTRIES_V0_def MAX_EXECUTOR_EXEC_VECTOR_BYTES_V0_def vector_bytes_def)
  with big show ?thesis by auto
qed

subsection \<open>Paths\<close>

definition path_component :: "string \<Rightarrow> bool" where
  "path_component c \<longleftrightarrow> c \<noteq> [] \<and> c \<noteq> ''.'' \<and> c \<noteq> ''..'' \<and> SLASH \<notin> set c \<and> BACKSLASH \<notin> set c"

definition canonical_path :: "string \<Rightarrow> bool" where
  "canonical_path p \<longleftrightarrow> (\<exists>cs. cs \<noteq> [] \<and> list_all path_component cs \<and> p = concat (map (\<lambda>c. SLASH # c) cs))"

lemma join_slash: "SLASH # join_with SLASH cs = concat (map (\<lambda>c. SLASH # c) cs)" if "cs \<noteq> []"
  using that by (induction SLASH cs rule: join_with.induct) auto

lemma join_with_set: "set (join_with x cs) \<subseteq> insert x (\<Union>c \<in> set cs. set c)"
  by (induction x cs rule: join_with.induct) auto

lemma absolute_path_iff: "validate_absolute_path p name = Ok () \<longleftrightarrow> canonical_path p"
proof
  assume "validate_absolute_path p name = Ok ()"
  then obtain q where q: "p = SLASH # q" "BACKSLASH \<notin> set q"
    and cs: "\<forall>c \<in> set (split_on SLASH q). c \<noteq> [] \<and> c \<noteq> ''.'' \<and> c \<noteq> ''..''"
    by (cases p) (auto simp: validate_absolute_path_def list_ex_iff split: if_splits)
  have "list_all path_component (split_on SLASH q)"
    using cs q(2) piece_subset split_on_pieces by (fastforce simp: list_all_iff path_component_def)
  moreover have "p = concat (map (\<lambda>c. SLASH # c) (split_on SLASH q))"
    using join_slash [OF split_on_nonempty [of SLASH q]] by (simp add: q join_split_on)
  ultimately show "canonical_path p" unfolding canonical_path_def using split_on_nonempty by blast
next
  assume "canonical_path p"
  then obtain cs where cs: "cs \<noteq> []" "list_all path_component cs" "p = SLASH # join_with SLASH cs"
    by (auto simp: canonical_path_def join_slash)
  have pieces: "split_on SLASH (join_with SLASH cs) = cs"
    using cs by (intro split_join) (auto simp: list_all_iff path_component_def)
  have ends: "join_with SLASH cs \<noteq> [] \<and> last (join_with SLASH cs) \<noteq> SLASH"
    using cs(1,2) by (induction SLASH cs rule: join_with.induct) (auto simp: path_component_def, metis last_in_set)
  have "BACKSLASH \<notin> set p"
    using cs join_with_set [of SLASH cs] by (auto simp: list_all_iff path_component_def SLASH_def BACKSLASH_def)
  with pieces ends cs show "validate_absolute_path p name = Ok ()"
    by (auto simp: validate_absolute_path_def list_ex_iff list_all_iff path_component_def)
qed

subsection \<open>Round trips of the documents\<close>

lemma parse_canonical_eq_Ok:
  "parse_canonical_document env bytes limit doc = Ok v \<longleftrightarrow>
    (\<exists>body. bytes = body @ [CHR 0x0A] \<and> CHR 0x0A \<notin> set body \<and> length bytes \<le> limit \<and> utf8_valid body \<and>
      parse_unique_json (ex_read env) body = Some v \<and> canonical_json (ex_text env) v = Ok body)"
  by (cases bytes rule: rev_cases) (auto simp: parse_canonical_document_def Let_def)

lemma canonical_document_eq_Ok:
  "canonical_document env v limit doc = Ok (bytes, v') \<longleftrightarrow>
    v' = v \<and> (\<exists>body. bytes = body @ [CHR 0x0A] \<and> length bytes \<le> limit \<and> canonical_json (ex_text env) v = Ok body)"
  by (auto simp: canonical_document_def Let_def)

text \<open>A text that the parser reads back as the value it was printed from.\<close>

definition reads_back :: "executor_env \<Rightarrow> string \<Rightarrow> json \<Rightarrow> bool" where
  "reads_back env body v \<longleftrightarrow> parse_unique_json (ex_read env) body = Some v \<and> utf8_valid body \<and> CHR 0x0A \<notin> set body"

text \<open>
  The contract of a document: \<open>print\<close> and \<open>parse\<close> use the same value, limit and check. \<open>fits\<close> says that the
  document belongs to the exchange the reader expects.
\<close>

locale canonical_codec =
  fixes env :: executor_env and to_value :: "'a \<Rightarrow> json" and from_value :: "json \<Rightarrow> 'a option"
    and limit :: nat and doc :: string and fits :: "'a \<Rightarrow> bool" and check :: "'a \<Rightarrow> unit executor"
    and print :: "'a \<Rightarrow> string executor" and parse :: "string \<Rightarrow> 'a executor"
  assumes print_document: "print x = Ok bytes \<Longrightarrow> canonical_document env (to_value x) limit doc = Ok (bytes, to_value x)"
    and print_checks: "print x = Ok bytes \<Longrightarrow> fits x \<Longrightarrow> from_value (nfc_json_string_values (ex_text env) (to_value x)) = Some x \<Longrightarrow>
      check x = Ok ()"
    and parse_steps: "parse bytes = and_then (parse_canonical_document env bytes limit doc) (\<lambda>value.
      and_then (decode_document from_value value doc) (\<lambda>x. and_then (check x) (\<lambda>_. Ok x)))"
begin

lemma parse_print:
  assumes "print x = Ok bytes" "fits x" "from_value (to_value x) = Some x"
    "nfc_json_string_values (ex_text env) (to_value x) = to_value x" "reads_back env (butlast bytes) (to_value x)"
  shows "parse bytes = Ok x"
proof -
  obtain body where body: "bytes = body @ [CHR 0x0A]" "length bytes \<le> limit" "canonical_json (ex_text env) (to_value x) = Ok body"
    using print_document [OF assms(1)] by (auto simp: canonical_document_eq_Ok)
  then have "parse_canonical_document env bytes limit doc = Ok (to_value x)"
    using assms(5) by (simp add: parse_canonical_eq_Ok reads_back_def)
  moreover have "check x = Ok ()" using print_checks assms by simp
  ultimately show ?thesis by (simp add: parse_steps decode_document_def assms(3))
qed

lemma parse_sound:
  assumes "parse bytes = Ok x"
  obtains v body where "check x = Ok ()" "from_value v = Some x" "bytes = body @ [CHR 0x0A]" "length bytes \<le> limit"
    "canonical_json (ex_text env) v = Ok body" "parse_unique_json (ex_read env) body = Some v"
  using assms by (auto simp: parse_steps decode_document_def parse_canonical_eq_Ok)

end

interpretation request: canonical_codec env ExecutorRequestV0_to_value "ex_request env" MAX_EXECUTOR_REQUEST_BYTES_V0 "''request''"
    "\<lambda>_. True" "validate_request (ex_text env) (ex_sha256 env)" "canonical_executor_request_v0 env" "parse_executor_request_v0 env" for env
  by unfold_locales (auto simp: canonical_executor_request_v0_def parse_executor_request_v0_def canonical_document_def Let_def)

interpretation preflight: canonical_codec env ExecutorPreflightV0_to_value "ex_preflight env" MAX_EXECUTOR_CONTROL_BYTES_V0 "''preflight''"
    "\<lambda>p. pf_request_id p = rid" "\<lambda>p. validate_preflight p rid" "canonical_executor_preflight_v0 env"
    "\<lambda>bytes. parse_executor_preflight_v0 env bytes rid" for env rid
  by unfold_locales (auto simp: canonical_executor_preflight_v0_def parse_executor_preflight_v0_def canonical_document_def
      decode_document_def Let_def)

interpretation start: canonical_codec env ExecutorStartV0_to_value "ex_start env" MAX_EXECUTOR_CONTROL_BYTES_V0 "''start''"
    "\<lambda>s. es_request_id s = rid" "\<lambda>s. validate_start s rid" "canonical_executor_start_v0 env"
    "\<lambda>bytes. parse_executor_start_v0 env bytes rid" for env rid
  by unfold_locales (auto simp: canonical_executor_start_v0_def parse_executor_start_v0_def canonical_document_def
      decode_document_def Let_def)

interpretation response: canonical_codec env ExecutorResponseV0_to_value "ex_response env" MAX_EXECUTOR_RESPONSE_BYTES_V0 "''response''"
    "\<lambda>r. rs_request_id r = rid \<and> response_policy_digest r = digest" "\<lambda>r. validate_response r rid digest"
    "canonical_executor_response_v0 env" "\<lambda>bytes. parse_executor_response_v0 env bytes rid digest" for env rid digest
  by unfold_locales (auto simp: canonical_executor_response_v0_def parse_executor_response_v0_def canonical_document_def
      decode_document_def Let_def)

interpretation probe: canonical_codec env ExecutorProbeV0_to_value "ex_probe env" MAX_EXECUTOR_PROBE_BYTES_V0 "''probe''"
    "\<lambda>_. True" validate_probe "canonical_executor_probe_v0 env" "parse_executor_probe_v0 env" for env
  by unfold_locales (auto simp: canonical_executor_probe_v0_def parse_executor_probe_v0_def canonical_document_def
      decode_document_def Let_def)



subsection \<open>What accepted documents prove\<close>

lemma protected_objects_iff:
  "validate_protected_objects i seen objects = Ok () \<longleftrightarrow>
    map po_descriptor objects = [32 + i..<32 + i + length objects] \<and> distinct (map po_path objects) \<and>
    (\<forall>p \<in> po_path ` set objects. canonical_path p \<and> executor_validate_text p ''protected object path'' MAX_PATH_CHARS = Ok () \<and>
       \<not> bs_contains seen p)"
proof (induction objects arbitrary: i seen)
  case (Cons x objects)
  have "[32 + i..<32 + i + length (x # objects)] = (32 + i) # [32 + Suc i..<32 + Suc i + length objects]"
    by (simp add: upt_conv_Cons add.assoc)
  then show ?case
    by (auto simp: Cons.IH absolute_path_iff EXECUTOR_PROTECTED_DESCRIPTOR_BASE_V0_def simp del: upt_Suc)
      (metis image_eqI)
qed simp

text \<open>
  C4: an accepted request is safe to run. Its protected objects sit in consecutive descriptors from 32 with
  distinct canonical absolute paths, its digest is the SHA-256 of its canonical policy, its exec vector
  is within the bounds and its limits lie between 1 byte or millisecond and 4 MiB.
\<close>

theorem accepted_request_safe:
  assumes "parse_executor_request_v0 env bytes = Ok request" "policy = rq_resolved_policy request"
  shows "map po_descriptor (rp_protected_objects policy) = [32..<32 + length (rp_protected_objects policy)] \<and>
    0 < length (rp_protected_objects policy) \<and> length (rp_protected_objects policy) \<le> 128 \<and>
    distinct (map po_path (rp_protected_objects policy)) \<and>
    list_all canonical_path (rp_executable policy # rp_working_directory policy # map po_path (rp_protected_objects policy)) \<and>
    resolved_policy_digest_v0 (ex_text env) (ex_sha256 env) policy = Ok (rq_policy_digest request) \<and>
    is_ok (validate_executor_exec_vector_v0 (rp_executable policy) (rp_argv policy) (rp_environment policy)) \<and>
    {li_max_stdout_bytes (rp_limits policy), li_max_stderr_bytes (rp_limits policy)} \<subseteq> {1..4 * 1024 * 1024} \<and>
    0 < li_timeout_ms (rp_limits policy)"
proof -
  have v: "validate_request (ex_text env) (ex_sha256 env) request = Ok ()"
    using request.parse_sound [OF assms(1)] by blast
  then have "validate_protected_objects 0 [] (rp_protected_objects policy) = Ok ()"
    by (simp add: validate_request_def Let_def assms(2))
  note objects = this [unfolded protected_objects_iff]
  from v show ?thesis
    unfolding assms(2) [symmetric]
    using objects
    by (auto simp: validate_request_def Let_def assms(2) [symmetric] absolute_path_iff list_all_iff is_ok_iff
        MAX_EXECUTOR_PROTECTED_OBJECTS_V0_def MAX_EXECUTOR_TOOL_STREAM_BYTES_V0_def)
qed

text \<open>
  C5: an accepted terminal response is evidence. It answers the expected request; a completed one was run
  under the expected policy with self-protection active, in a coherent terminal state and with streams
  that decode to at most 4 MiB; an error one reports a failed sandbox setup.
\<close>

theorem accepted_response_is_evidence:
  assumes "parse_executor_response_v0 env bytes rid digest = Ok response"
  shows "rs_request_id response = rid \<and> rs_schema response = ''flow-executor-result-v0'' \<and>
    (case response of
       ResponseCompleted receipt _ _ r \<Rightarrow>
         er_applied_policy_digest receipt = digest \<and> er_self_protection_active receipt \<and>
         valid_terminal (tr_status r) (tr_classification r) (tr_exit_code r) \<and>
         (tr_status r = Completed \<longleftrightarrow> tr_exit_code r = Some 0 \<and> tr_classification r = None) \<and>
         (\<exists>out err. tr_stdout_base64 r = encode_executor_stream_v0 out \<and> length out \<le> 4 * 1024 * 1024 \<and>
            tr_stderr_base64 r = encode_executor_stream_v0 err \<and> length err \<le> 4 * 1024 * 1024)
     | ResponseError code _ _ _ \<Rightarrow> code = SandboxSetupFailed)"
proof -
  have v: "validate_response response rid digest = Ok ()" using response.parse_sound [OF assms] by blast
  have "tr_status r = Completed \<longleftrightarrow> tr_exit_code r = Some 0 \<and> tr_classification r = None"
    if "valid_terminal (tr_status r) (tr_classification r) (tr_exit_code r)" for r
    using that by (cases "tr_status r") (auto simp: valid_terminal_def split: option.splits ExecutorToolClassificationV0.splits)
  then show ?thesis
    using v by (cases response) (auto simp: validate_response_def validate_receipt_def validate_tool_result_def
        executor_validate_schema_def EXECUTOR_RESPONSE_SCHEMA_V0_def MAX_EXECUTOR_TOOL_STREAM_BYTES_V0_def
        not_less dest!: encode_decode_stream [symmetric])
qed

subsection \<open>Instances\<close>

text \<open>A concrete exchange: a constant digest, a reader and deserializers that know its two documents.\<close>

fun raw_of :: "json \<Rightarrow> raw_json" where
  "raw_of JNull = RawNull"
| "raw_of (JBool b) = RawBool b"
| "raw_of (JNumber (PosInt n)) = RawU64 n"
| "raw_of (JNumber (NegInt i)) = RawI64 i"
| "raw_of (JNumber (Float x)) = RawF64 x"
| "raw_of (JString s) = RawStr s"
| "raw_of (JArray vs) = RawSeq (map raw_of vs)"
| "raw_of (JObject m) = RawMap (map (\<lambda>(k, v). (k, raw_of v)) m)"

definition sample_request :: ExecutorRequestV0 where
  "sample_request = \<lparr> rq_resolved_policy =
      \<lparr> rp_argv = [''-l''], rp_environment = [(''HOME'', ''/tmp'')], rp_executable = ''/bin/ls'',
        rp_limits = \<lparr> li_max_stderr_bytes = 1024, li_max_stdout_bytes = 1024, li_timeout_ms = 1000 \<rparr>,
        rp_protected_objects = [\<lparr> po_descriptor = 32,
          po_identity = \<lparr> id_device = 1, id_inode = 2, id_kind = ObjectDirectory \<rparr>, po_path = ''/flow'' \<rparr>],
        rp_tool_id = ''list'', rp_tool_kind = ''predefined-command'', rp_working_directory = ''/tmp'' \<rparr>,
      rq_policy_digest = replicate 64 CHR ''0'', rq_request_id = ''r1'', rq_schema = EXECUTOR_REQUEST_SCHEMA_V0 \<rparr>"

definition sample_response :: ExecutorResponseV0 where
  "sample_response = ResponseCompleted
     \<lparr> er_applied_policy_digest = replicate 64 CHR ''0'', er_backend = ''landlock'', er_backend_version = ''4'',
       er_executor = ''flow-executor'', er_executor_version = ''0'', er_self_protection_active = True, er_platform = ''linux'' \<rparr>
     ''r1'' EXECUTOR_RESPONSE_SCHEMA_V0
     \<lparr> tr_classification = None, tr_exit_code = Some 0, tr_status = Completed, tr_stderr_base64 = [], tr_stdout_base64 = ''aGk='' \<rparr>"

definition sample_body :: "json \<Rightarrow> string" where
  "sample_body v = (case canonical_json plain_env v of Ok t \<Rightarrow> t | Err _ \<Rightarrow> [])"

definition sample_executor :: executor_env where
  "sample_executor =
     \<lparr> ex_text = plain_env, ex_sha256 = (\<lambda>_. replicate 32 0),
       ex_read = (\<lambda>s. map_option raw_of (find (\<lambda>v. sample_body v = s)
         [ExecutorRequestV0_to_value sample_request, ExecutorResponseV0_to_value sample_response])),
       ex_request = (\<lambda>v. if v = ExecutorRequestV0_to_value sample_request then Some sample_request else None),
       ex_preflight = (\<lambda>_. None), ex_start = (\<lambda>_. None),
       ex_response = (\<lambda>v. if v = ExecutorResponseV0_to_value sample_response then Some sample_response else None),
       ex_probe = (\<lambda>_. None) \<rparr>"

abbreviation sample_request_bytes :: string where
  "sample_request_bytes \<equiv> sample_body (ExecutorRequestV0_to_value sample_request) @ [CHR 0x0A]"

abbreviation sample_response_bytes :: string where
  "sample_response_bytes \<equiv> sample_body (ExecutorResponseV0_to_value sample_response) @ [CHR 0x0A]"



theorem accepted_request_safe_witness:
  "resolved_policy_digest_v0 plain_env (\<lambda>_. replicate 32 0) (rq_resolved_policy sample_request) = Ok (replicate 64 CHR ''0'') \<and>
   distinct (map po_path (rp_protected_objects (rq_resolved_policy sample_request)))"
proof -
  have "parse_executor_request_v0 sample_executor sample_request_bytes = Ok sample_request" by code_simp
  from accepted_request_safe [OF this refl] show ?thesis by (simp add: sample_executor_def sample_request_def)
qed

theorem accepted_response_is_evidence_witness:
  "rs_request_id sample_response = ''r1'' \<and> rs_schema sample_response = ''flow-executor-result-v0''"
proof -
  have "parse_executor_response_v0 sample_executor sample_response_bytes ''r1'' (replicate 64 CHR ''0'') = Ok sample_response"
    by code_simp
  from accepted_response_is_evidence [OF this] show ?thesis by blast
qed

end
