(* ===== verification/Sort_Key.thy ===== *)
theory Sort_Key
  imports Prelude
begin

text \<open>
  The sort keys of the Liquid workspace, \<open>liquid/liquid-core/src/sort_key.rs\<close>: fractional indices whose
  integer part carries its own length in its first character. A new key fits between any two neighbours,
  so placing an object writes only inside that object.

  The routines index slices, subtract unsigned numbers and unwrap options; every such step is a value of
  \<open>run\<close>, whose error is the panic, and the last theorem shows that none of them happens.
\<close>

subsection \<open>Panics\<close>

definition index_at :: "'a list \<Rightarrow> nat \<Rightarrow> 'a run" where
  "index_at xs i = (if i < length xs then Ok (xs ! i) else Err IndexOutOfBounds)"

definition slice_from :: "'a list \<Rightarrow> nat \<Rightarrow> 'a list run" where
  "slice_from xs i = (if i \<le> length xs then Ok (drop i xs) else Err IndexOutOfBounds)"

definition sub_usize :: "nat \<Rightarrow> nat \<Rightarrow> nat run" where
  "sub_usize a b = (if b \<le> a then Ok (a - b) else Err ArithmeticOverflow)"

definition add_u8 :: "char \<Rightarrow> nat \<Rightarrow> char run" where
  "add_u8 c n = (if of_char c + n < 256 then Ok (char_of (of_char c + n)) else Err ArithmeticOverflow)"

definition sub_u8 :: "char \<Rightarrow> nat \<Rightarrow> char run" where
  "sub_u8 c n = (if n \<le> of_char c then Ok (char_of (of_char c - n)) else Err ArithmeticOverflow)"

declare and_then_cong [fundef_cong]

subsection \<open>Digits\<close>

definition DIGITS :: string where
  "DIGITS = ''0123456789ABCDEFGHIJKLMNOPQRSTUVWXYZabcdefghijklmnopqrstuvwxyz''"

definition SMALLEST :: string where
  "SMALLEST = ''A00000000000000000000000000''"

fun position :: "('a \<Rightarrow> bool) \<Rightarrow> 'a list \<Rightarrow> nat option" where
  "position P [] = None"
| "position P (x # xs) = (if P x then Some 0 else map_option Suc (position P xs))"

definition digit_value :: "char \<Rightarrow> nat" where
  "digit_value digit = (case position (\<lambda>d. d = digit) DIGITS of Some i \<Rightarrow> i | None \<Rightarrow> 0)"

subsection \<open>Integer parts\<close>

text \<open>The integer part of a key, whose head gives its length; \<open>None\<close> when the text is no valid key.\<close>

definition head_length :: "char \<Rightarrow> nat option" where
  "head_length head =
    (if CHR ''a'' \<le> head \<and> head \<le> CHR ''z'' then Some (of_char head - of_char CHR ''a'' + 2)
     else if CHR ''A'' \<le> head \<and> head \<le> CHR ''Z'' then Some (of_char CHR ''Z'' - of_char head + 2)
     else None)"

definition integer :: "string \<Rightarrow> string option" where
  "integer key =
    (case key of [] \<Rightarrow> None | head # rest \<Rightarrow>
     case head_length head of None \<Rightarrow> None | Some len \<Rightarrow>
     if len \<le> length key \<and> key \<noteq> SMALLEST \<and> list_all (\<lambda>d. d \<in> set DIGITS) rest \<and>
        (let fraction = drop len key in fraction = [] \<or> last fraction \<noteq> CHR ''0'')
     then Some (take len key) else None)"

text \<open>
  The loops over the digits from the last to the first, on the reversed digits; the flag says that every
  digit wrapped around.
\<close>

fun increment_digits :: "string \<Rightarrow> (string \<times> bool) run" where
  "increment_digits [] = Ok ([], True)"
| "increment_digits (digit # digits) =
    (if digit = CHR ''z''
     then and_then (increment_digits digits) (\<lambda>(digits, wrapped). Ok (CHR ''0'' # digits, wrapped))
     else and_then (index_at DIGITS (digit_value digit + 1)) (\<lambda>digit. Ok (digit # digits, False)))"

fun decrement_digits :: "string \<Rightarrow> (string \<times> bool) run" where
  "decrement_digits [] = Ok ([], True)"
| "decrement_digits (digit # digits) =
    (if digit = CHR ''0''
     then and_then (decrement_digits digits) (\<lambda>(digits, wrapped). Ok (CHR ''z'' # digits, wrapped))
     else and_then (sub_usize (digit_value digit) 1) (\<lambda>i. and_then (index_at DIGITS i) (\<lambda>digit. Ok (digit # digits, False))))"

fun increment :: "string \<Rightarrow> string option run" where
  "increment [] = Err IndexOutOfBounds"
| "increment (head # digits) =
     and_then (increment_digits (rev digits)) (\<lambda>(reversed, wrapped).
     let digits = rev reversed in
     if \<not> wrapped then Ok (Some (head # digits))
     else if head = CHR ''Z'' then Ok (Some [CHR ''a'', CHR ''0''])
     else if head = CHR ''z'' then Ok None
     else and_then (add_u8 head 1) (\<lambda>head.
       Ok (Some (head # (if head > CHR ''a'' then digits @ [CHR ''0''] else butlast digits)))))"

fun decrement :: "string \<Rightarrow> string option run" where
  "decrement [] = Err IndexOutOfBounds"
| "decrement (head # digits) =
     and_then (decrement_digits (rev digits)) (\<lambda>(reversed, wrapped).
     let digits = rev reversed in
     if \<not> wrapped then Ok (Some (head # digits))
     else if head = CHR ''a'' then Ok (Some [CHR ''Z'', CHR ''z''])
     else if head = CHR ''A'' then Ok None
     else and_then (sub_u8 head 1) (\<lambda>head.
       Ok (Some (head # (if head < CHR ''Z'' then digits @ [CHR ''z''] else butlast digits)))))"

subsection \<open>Fractions\<close>

definition digit_or_zero :: "string \<Rightarrow> nat \<Rightarrow> char" where
  "digit_or_zero key i = (if i < length key then key ! i else CHR ''0'')"

fun shared :: "string \<Rightarrow> string \<Rightarrow> nat" where
  "shared before [] = 0"
| "shared before (a # after) =
     (if digit_or_zero before 0 = a then Suc (shared (drop 1 before) after) else 0)"

definition div_ceil :: "nat \<Rightarrow> nat \<Rightarrow> nat" where
  "div_ceil a b = (a + b - 1) div b"

function midpoint :: "string \<Rightarrow> string option \<Rightarrow> string run" where
  "midpoint before after =
    (case after of
       Some a \<Rightarrow>
         let n = shared before a in
         if n > 0 then and_then (midpoint (drop n before) (Some (drop n a))) (\<lambda>key. Ok (take n a @ key))
         else
           let low = digit_value (digit_or_zero before 0) in
           and_then (index_at a 0) (\<lambda>first.
           let high = digit_value first in
           and_then (sub_usize high low) (\<lambda>gap.
           if gap > 1 then and_then (index_at DIGITS (div_ceil (low + high) 2)) (\<lambda>d. Ok [d])
           else if length a > 1 then Ok [first]
           else and_then (index_at DIGITS low) (\<lambda>d.
             and_then (midpoint (drop 1 before) None) (\<lambda>key. Ok (d # key)))))
     | None \<Rightarrow>
         let low = digit_value (digit_or_zero before 0) in
         let high = length DIGITS in
         and_then (sub_usize high low) (\<lambda>gap.
         if gap > 1 then and_then (index_at DIGITS (div_ceil (low + high) 2)) (\<lambda>d. Ok [d])
         else and_then (index_at DIGITS low) (\<lambda>d.
           and_then (midpoint (drop 1 before) None) (\<lambda>key. Ok (d # key)))))"
  by pat_completeness auto

lemma shared_le: "shared before after \<le> length after"
  by (induction before after rule: shared.induct) auto

lemma digit_value_zero [simp]: "digit_value CHR ''0'' = 0"
  by (simp add: digit_value_def DIGITS_def)

lemma shared_drop: "0 < shared before after \<Longrightarrow> length after - shared before after < length after"
  by (cases after) auto

lemma length_DIGITS [simp]: "length DIGITS = 62"
  by (simp add: DIGITS_def)

termination midpoint
  by (relation "measure (\<lambda>(before, after). length before + (case after of None \<Rightarrow> 0 | Some a \<Rightarrow> Suc (length a)))")
    (auto simp: sub_usize_def digit_or_zero_def dest: shared_drop split: if_splits)

subsection \<open>Keys\<close>

definition key_between :: "string option \<Rightarrow> string option \<Rightarrow> string run" where
  "key_between before after =
    (case (before, after) of
       (None, None) \<Rightarrow> Ok ''a0''
     | (None, Some after) \<Rightarrow>
         and_then (run_expect ''a valid key'' (integer after)) (\<lambda>int.
         if int = SMALLEST then
           and_then (slice_from after (length int)) (\<lambda>fraction.
           and_then (midpoint [] (Some fraction)) (\<lambda>key. Ok (int @ key)))
         else if length int < length after then Ok int
         else and_then (decrement int) (\<lambda>smaller.
           case smaller of
             Some smaller \<Rightarrow>
               if smaller = SMALLEST then and_then (midpoint [] None) (\<lambda>key. Ok (SMALLEST @ key)) else Ok smaller
           | None \<Rightarrow>
               and_then (slice_from after (length int)) (\<lambda>fraction.
               and_then (midpoint [] (Some fraction)) (\<lambda>key. Ok (int @ key)))))
     | (Some before, None) \<Rightarrow>
         and_then (run_expect ''a valid key'' (integer before)) (\<lambda>int.
         and_then (increment int) (\<lambda>next.
           case next of
             Some next \<Rightarrow> Ok next
           | None \<Rightarrow>
               and_then (slice_from before (length int)) (\<lambda>fraction.
               and_then (midpoint fraction None) (\<lambda>key. Ok (int @ key)))))
     | (Some before, Some after) \<Rightarrow>
         and_then (run_expect ''a valid key'' (integer before)) (\<lambda>low.
         and_then (run_expect ''a valid key'' (integer after)) (\<lambda>high.
         if low = high then
           and_then (slice_from before (length low)) (\<lambda>b.
           and_then (slice_from after (length high)) (\<lambda>a.
           and_then (midpoint b (Some a)) (\<lambda>key. Ok (low @ key))))
         else and_then (increment low) (\<lambda>next.
           let fall_back = and_then (slice_from before (length low)) (\<lambda>b. and_then (midpoint b None) (\<lambda>key. Ok (low @ key)))
           in case next of
             Some next \<Rightarrow> if next < after then Ok next else fall_back
           | None \<Rightarrow> fall_back))))"

definition opt_filter :: "('a \<Rightarrow> bool) \<Rightarrow> 'a option \<Rightarrow> 'a option" where
  "opt_filter P x = (case x of Some v \<Rightarrow> if P v then Some v else None | None \<Rightarrow> None)"

definition between :: "string option \<Rightarrow> string option \<Rightarrow> string run" where
  "between before after =
    (let before = opt_filter (\<lambda>key. integer key \<noteq> None) before;
         after = opt_filter (\<lambda>after. case before of None \<Rightarrow> True | Some before \<Rightarrow> before < after)
           (opt_filter (\<lambda>key. integer key \<noteq> None) after)
     in and_then (key_between before after) (\<lambda>key.
        if utf8_valid key then Ok key else Err (Expected ''ASCII digits'')))"

declare midpoint.simps [simp del]

subsection \<open>Digits in order\<close>

lemma position_Some: "position P xs = Some i \<longleftrightarrow> i < length xs \<and> P (xs ! i) \<and> (\<forall>j < i. \<not> P (xs ! j))"
proof (induction xs arbitrary: i)
  case (Cons x xs)
  then show ?case by (cases i) (auto simp: All_less_Suc2)
qed simp

lemma position_None: "position P xs = None \<longleftrightarrow> (\<forall>x \<in> set xs. \<not> P x)"
  by (induction xs) auto

lemma sorted_DIGITS: "sorted_wrt (<) DIGITS"
  by (simp add: DIGITS_def less_char_def)

lemma distinct_DIGITS: "distinct DIGITS"
  by (simp add: DIGITS_def)

lemma nth_DIGITS_less: "i < 62 \<Longrightarrow> j < 62 \<Longrightarrow> DIGITS ! i < DIGITS ! j \<longleftrightarrow> i < j"
  using sorted_wrt_nth_less [OF sorted_DIGITS, of i j] sorted_wrt_nth_less [OF sorted_DIGITS, of j i]
  by (cases i j rule: linorder_cases) auto

lemma digit_value_nth [simp]: "i < 62 \<Longrightarrow> digit_value (DIGITS ! i) = i"
proof -
  assume i: "i < 62"
  have "position (\<lambda>d. d = DIGITS ! i) DIGITS = Some i"
    using i nth_eq_iff_index_eq [OF distinct_DIGITS] by (auto simp: position_Some)
  then show ?thesis by (simp add: digit_value_def)
qed

lemma digit_value_less [simp]: "digit_value d < 62"
  by (auto simp: digit_value_def position_Some split: option.splits)

lemma nth_digit_value [simp]: "d \<in> set DIGITS \<Longrightarrow> DIGITS ! digit_value d = d"
  by (auto simp: in_set_conv_nth)

lemma digit_value_mono: "c \<in> set DIGITS \<Longrightarrow> d \<in> set DIGITS \<Longrightarrow> digit_value c < digit_value d \<longleftrightarrow> c < d"
  using nth_DIGITS_less [of "digit_value c" "digit_value d"] by simp

lemma zero_digit [simp]: "CHR ''0'' \<in> set DIGITS"
  by (simp add: DIGITS_def)

lemma last_digit [simp]: "CHR ''z'' \<in> set DIGITS"
  by (simp add: DIGITS_def)

lemma digit_value_last [simp]: "digit_value CHR ''z'' = 61"
  by (simp add: digit_value_def DIGITS_def)

lemma digit_value_eq_0: "d \<in> set DIGITS \<Longrightarrow> digit_value d = 0 \<longleftrightarrow> d = CHR ''0''"
  using nth_digit_value [of d] by (auto simp: DIGITS_def)

lemma digit_value_eq_61: "d \<in> set DIGITS \<Longrightarrow> digit_value d = 61 \<longleftrightarrow> d = CHR ''z''"
  using nth_digit_value [of d] by (auto simp: DIGITS_def)

lemma index_at_DIGITS: "i < 62 \<Longrightarrow> index_at DIGITS i = Ok (DIGITS ! i)"
  by (simp add: index_at_def)

lemma nth_DIGITS_in [simp]: "i < 62 \<Longrightarrow> DIGITS ! i \<in> set DIGITS"
  by simp

lemma nth_DIGITS_zero: "i < 62 \<Longrightarrow> DIGITS ! i = CHR ''0'' \<longleftrightarrow> i = 0"
  using digit_value_nth [of i] digit_value_eq_0 [of "DIGITS ! i"] by auto

abbreviation digits :: "string \<Rightarrow> bool" where
  "digits s \<equiv> set s \<subseteq> set DIGITS"

subsection \<open>Lexicographic comparison\<close>

lemma Nil_less [simp]: "[] < x \<longleftrightarrow> x \<noteq> ([] :: string)"
  by (cases x) auto

lemma append_less_append [simp]: "p @ x < p @ y \<longleftrightarrow> x < (y :: string)"
  by (induction p) auto

lemma less_append: "y \<noteq> [] \<Longrightarrow> x < x @ (y :: string)"
  by (induction x) (auto simp: neq_Nil_conv)

lemma same_length_less: "length x = length y \<Longrightarrow> x \<noteq> y \<Longrightarrow> x @ s < y @ t \<longleftrightarrow> x < (y :: string)"
  by (induction x y rule: list_induct2) auto

subsection \<open>Fractions\<close>

lemma middle_digit:
  assumes "low + 1 < high" "high \<le> 62"
  shows "index_at DIGITS (div_ceil (low + high) 2) = Ok (DIGITS ! div_ceil (low + high) 2)"
    "low < div_ceil (low + high) 2" "div_ceil (low + high) 2 < high"
  using assms by (auto simp: div_ceil_def index_at_def)

definition fraction_above :: "string \<Rightarrow> string \<Rightarrow> bool" where
  "fraction_above b m \<longleftrightarrow> digits m \<and> m \<noteq> [] \<and> last m \<noteq> CHR ''0'' \<and> b < m"

lemma fraction_above_digit:
  assumes "i < 62" "\<And>c cs. b = c # cs \<Longrightarrow> c < DIGITS ! i" "0 < i"
  shows "fraction_above b [DIGITS ! i]"
  using assms by (cases b) (auto simp: fraction_above_def nth_DIGITS_zero)

lemma midpoint_None: "digits b \<Longrightarrow> \<exists>m. midpoint b None = Ok m \<and> fraction_above b m"
proof (induction b)
  case Nil
  have "fraction_above [] [DIGITS ! 31]" by (rule fraction_above_digit) simp_all
  then show ?case by (subst midpoint.simps) (simp add: digit_or_zero_def sub_usize_def div_ceil_def index_at_DIGITS)
next
  case (Cons c b)
  then obtain m where m: "midpoint b None = Ok m" "fraction_above b m" by auto
  show ?case
  proof (cases "digit_value c < 61")
    case True
    then have "digit_value c + 1 < 62" by simp
    note mid = middle_digit [OF this order.refl]
    have "fraction_above (c # b) [DIGITS ! div_ceil (digit_value c + 62) 2]"
      using mid Cons.prems digit_value_mono [of c "DIGITS ! div_ceil (digit_value c + 62) 2"]
      by (intro fraction_above_digit) auto
    moreover have "Suc 0 < 62 - digit_value c" using True by simp
    ultimately show ?thesis
      using mid by (subst midpoint.simps) (simp add: digit_or_zero_def sub_usize_def Let_def)
  next
    case False
    then have "digit_value c = 61" using digit_value_less [of c] by linarith
    moreover from this have "DIGITS ! 61 = c" using Cons.prems nth_digit_value [of c] by simp
    ultimately show ?thesis
      using m Cons.prems by (subst midpoint.simps)
        (simp add: digit_or_zero_def sub_usize_def Let_def index_at_DIGITS fraction_above_def)
  qed
qed

lemma shared_split:
  assumes "b < a" "last a \<noteq> CHR ''0''" "a \<noteq> []"
  shows "drop (shared b a) a \<noteq> []" "drop (shared b a) b < drop (shared b a) a"
    "shared (drop (shared b a) b) (drop (shared b a) a) = 0"
    "drop (shared b a) b < m \<Longrightarrow> b < take (shared b a) a @ m"
  using assms
proof (induction b a rule: shared.induct)
  case (2 b x a)
  { case 1 then show ?case using 2 by (cases b) (auto simp: digit_or_zero_def split: if_splits) }
  { case 2 then show ?case using "2.IH" by (cases b) (auto simp: digit_or_zero_def split: if_splits) }
  { case 3 then show ?case using "2.IH" by (cases b) (auto simp: digit_or_zero_def split: if_splits) }
  { case 4 then show ?case using "2.IH" by (cases b) (auto simp: digit_or_zero_def split: if_splits) }
qed auto

lemma shared_0: "shared b a = 0 \<Longrightarrow> a \<noteq> [] \<Longrightarrow> digit_or_zero b 0 \<noteq> a ! 0"
  by (cases a) (auto split: if_splits)

lemma midpoint_apart:
  assumes "shared b a = 0" "digits b" "digits a" "a \<noteq> []" "b < a"
  shows "\<exists>m. midpoint b (Some a) = Ok m \<and> fraction_above b m \<and> m < a"
proof -
  obtain x as where a: "a = x # as" using assms by (cases a) auto
  let ?low = "digit_value (digit_or_zero b 0)" and ?high = "digit_value x"
  have x: "x \<in> set DIGITS" "digit_or_zero b 0 \<in> set DIGITS" "digit_or_zero b 0 \<noteq> x"
    using assms shared_0 [OF assms(1)] a by (auto simp: digit_or_zero_def)
  have b: "b = [] \<or> (\<exists>c cs. b = c # cs \<and> c < x)" using assms x a by (cases b) (auto simp: digit_or_zero_def)
  have low: "?low < ?high"
  proof (cases b)
    case Nil
    then show ?thesis using x digit_value_eq_0 [of x] by (auto simp: digit_or_zero_def)
  next
    case (Cons c cs)
    then show ?thesis using x b digit_value_mono [of c x] by (auto simp: digit_or_zero_def)
  qed
  have less: "c < DIGITS ! i" if "b = c # cs" "?low < i" "i < 62" for c cs i
    using that x digit_value_mono [of c "DIGITS ! i"] by (simp add: digit_or_zero_def)
  show ?thesis
  proof (cases "?low + 1 < ?high")
    case True
    note mid = middle_digit [OF True less_imp_le [OF digit_value_less]]
    have "DIGITS ! div_ceil (?low + ?high) 2 < x"
      using mid x digit_value_mono [of "DIGITS ! div_ceil (?low + ?high) 2" x] digit_value_less [of x] by simp
    moreover have "fraction_above b [DIGITS ! div_ceil (?low + ?high) 2]"
    proof (rule fraction_above_digit)
      show "div_ceil (?low + ?high) 2 < 62" using mid(3) digit_value_less [of x] by linarith
      then show "c < DIGITS ! div_ceil (?low + ?high) 2" if "b = c # cs" for c cs using less [OF that mid(2)] by blast
    qed (use mid(2) in linarith)
    ultimately show ?thesis
      using True mid assms(1) a by (subst midpoint.simps) (auto simp: index_at_def sub_usize_def Let_def)
  next
    case gap: False
    show ?thesis
    proof (cases "as = []")
      case False
      have "fraction_above b [x]"
        using low b x digit_value_eq_0 [of x] by (auto simp: fraction_above_def)
      with False low gap assms(1) a show ?thesis
        by (subst midpoint.simps) (auto simp: index_at_def sub_usize_def Let_def)
    next
      case True
      have "digits (drop 1 b)" using assms(2) by (auto dest: in_set_dropD)
      then obtain m where m: "midpoint (drop 1 b) None = Ok m" "fraction_above (drop 1 b) m"
        using midpoint_None by blast
      have "DIGITS ! ?low < x" using low x digit_value_mono [of "DIGITS ! ?low" x] by simp
      moreover have "fraction_above b (DIGITS ! ?low # m)"
        using m x by (cases b) (auto simp: fraction_above_def digit_or_zero_def)
      ultimately show ?thesis
        using True m low gap assms(1) a
        by (subst midpoint.simps) (auto simp: index_at_def sub_usize_def Let_def)
    qed
  qed
qed

lemma midpoint_Some:
  assumes "digits b" "digits a" "a \<noteq> []" "last a \<noteq> CHR ''0''" "b < a"
  shows "\<exists>m. midpoint b (Some a) = Ok m \<and> fraction_above b m \<and> m < a"
proof (cases "shared b a = 0")
  case True
  then show ?thesis using assms by (intro midpoint_apart) auto
next
  case False
  let ?n = "shared b a"
  note split = shared_split [OF assms(5,4,3)]
  have "digits (drop ?n b)" "digits (drop ?n a)" using assms(1,2) by (auto dest: in_set_dropD)
  then obtain m where m: "midpoint (drop ?n b) (Some (drop ?n a)) = Ok m" "fraction_above (drop ?n b) m" "m < drop ?n a"
    using midpoint_apart [OF split(3) _ _ split(1,2)] by blast
  have "take ?n a @ m < take ?n a @ drop ?n a" using m(3) by (simp del: append_take_drop_id)
  then have "take ?n a @ m < a" by simp
  moreover have "fraction_above b (take ?n a @ m)"
    using m split(4) [of m] assms(2) by (auto simp: fraction_above_def dest: in_set_takeD)
  ultimately show ?thesis using False m by (subst midpoint.simps) (auto simp: Let_def)
qed

subsection \<open>Integer parts\<close>

definition int_shape :: "string \<Rightarrow> bool" where
  "int_shape u \<longleftrightarrow> u \<noteq> [] \<and> head_length (hd u) = Some (length u) \<and> digits (tl u)"

lemma integer_eq:
  "integer key = Some u \<longleftrightarrow> int_shape u \<and> key \<noteq> SMALLEST \<and>
     (\<exists>f. key = u @ f \<and> digits f \<and> (f = [] \<or> last f \<noteq> CHR ''0''))" (is "?l \<longleftrightarrow> ?r")
proof
  assume ?l
  then obtain head rest len where key: "key = head # rest" "head_length head = Some len" "len \<le> length key"
    "key \<noteq> SMALLEST" "digits rest" "drop len key = [] \<or> last (drop len key) \<noteq> CHR ''0''" "u = take len key"
    by (auto simp: integer_def list_all_iff Let_def split: list.splits option.splits if_splits)
  moreover obtain n where "len = Suc n" using key(2) by (auto simp: head_length_def split: if_splits)
  ultimately show ?r
    by (auto simp: int_shape_def intro!: exI [of _ "drop n rest"] dest: in_set_takeD in_set_dropD)
next
  assume ?r
  then obtain f where "int_shape u" "key \<noteq> SMALLEST" "key = u @ f" "digits f" "f = [] \<or> last f \<noteq> CHR ''0''" by blast
  then show ?l by (cases u) (auto simp: integer_def int_shape_def list_all_iff)
qed

lemma int_shape_order:
  assumes "int_shape u" "int_shape v" "u \<noteq> v"
  shows "u @ x < v @ y \<longleftrightarrow> u < v"
proof (cases "hd u = hd v")
  case True
  then have "length u = length v" using assms by (simp add: int_shape_def)
  then show ?thesis using assms(3) by (rule same_length_less)
next
  case False
  then show ?thesis using assms by (cases u; cases v) (auto simp: int_shape_def)
qed

lemma increment_digits_correct:
  assumes "digits ds"
  shows "\<exists>ds' w. increment_digits (rev ds) = Ok (rev ds', w) \<and> digits ds' \<and> length ds' = length ds \<and> (w \<or> ds < ds')"
  using assms
proof (induction ds rule: rev_induct)
  case (snoc d ds)
  show ?case
  proof (cases "d = CHR ''z''")
    case True
    with snoc obtain ds' w where "increment_digits (rev ds) = Ok (rev ds', w)" "digits ds'" "length ds' = length ds"
      "w \<or> ds < ds'" by auto
    with True show ?thesis
      by (intro exI [of _ "ds' @ [CHR ''0'']"] exI [of _ w]) (auto simp: same_length_less)
  next
    case False
    then have "digit_value d \<noteq> 61" using snoc.prems digit_value_eq_61 by auto
    then have i: "digit_value d + 1 < 62" using digit_value_less [of d] by linarith
    then have "d < DIGITS ! (digit_value d + 1)"
      using snoc.prems digit_value_mono [of d "DIGITS ! (digit_value d + 1)"] by simp
    with i False snoc.prems show ?thesis
      by (intro exI [of _ "ds @ [DIGITS ! (digit_value d + 1)]"] exI [of _ False]) (auto simp: index_at_DIGITS)
  qed
qed auto

lemma decrement_digits_correct:
  assumes "digits ds"
  shows "\<exists>ds' w. decrement_digits (rev ds) = Ok (rev ds', w) \<and> digits ds' \<and> length ds' = length ds \<and>
    (if w then set ds \<subseteq> {CHR ''0''} else ds' < ds)"
  using assms
proof (induction ds rule: rev_induct)
  case (snoc d ds)
  show ?case
  proof (cases "d = CHR ''0''")
    case True
    with snoc obtain ds' w where "decrement_digits (rev ds) = Ok (rev ds', w)" "digits ds'" "length ds' = length ds"
      "if w then set ds \<subseteq> {CHR ''0''} else ds' < ds" by auto
    with True show ?thesis
      by (intro exI [of _ "ds' @ [CHR ''z'']"] exI [of _ w])
        (auto simp: same_length_less split: if_splits)
  next
    case False
    then have i: "0 < digit_value d" using snoc.prems digit_value_eq_0 [of d] by auto
    then have "digit_value d - 1 < 62" using digit_value_less [of d] by linarith
    moreover from this have "DIGITS ! (digit_value d - 1) < d"
      using i snoc.prems digit_value_mono [of "DIGITS ! (digit_value d - 1)" d] by simp
    ultimately show ?thesis
      using i False snoc.prems
      by (intro exI [of _ "ds @ [DIGITS ! (digit_value d - 1)]"] exI [of _ False])
        (auto simp: index_at_DIGITS sub_usize_def)
  qed
qed auto

lemma head_cases:
  assumes "head_length h = Some n"
  obtains (lower) "97 \<le> (of_char h :: nat)" "(of_char h :: nat) \<le> 122" "n = of_char h - 97 + 2"
  | (upper) "65 \<le> (of_char h :: nat)" "(of_char h :: nat) \<le> 90" "n = 90 - of_char h + 2"
  using assms by (auto simp: head_length_def less_eq_char_def split: if_splits)

lemma head_length_code:
  "97 \<le> (of_char h :: nat) \<Longrightarrow> (of_char h :: nat) \<le> 122 \<Longrightarrow> head_length h = Some (of_char h - 97 + 2)"
  "65 \<le> (of_char h :: nat) \<Longrightarrow> (of_char h :: nat) \<le> 90 \<Longrightarrow> head_length h = Some (90 - of_char h + 2)"
  by (auto simp: head_length_def less_eq_char_def)

lemma char_code_eq: "h = c \<longleftrightarrow> (of_char h :: nat) = of_char c"
  by simp

lemma increment_correct:
  assumes "int_shape u"
  shows "increment u = Ok None \<or> (\<exists>v. increment u = Ok (Some v) \<and> int_shape v \<and> u < v)"
proof -
  obtain h ds where u: "u = h # ds" "head_length h = Some (Suc (length ds))" "digits ds"
    using assms by (cases u) (auto simp: int_shape_def)
  obtain ds' w where inc: "increment_digits (rev ds) = Ok (rev ds', w)" "digits ds'" "length ds' = length ds" "w \<or> ds < ds'"
    using increment_digits_correct [OF u(3)] by blast
  consider "\<not> w" | "w" "h = CHR ''Z''" | "w" "h = CHR ''z''" | "w" "h \<noteq> CHR ''Z''" "h \<noteq> CHR ''z''" by blast
  then show ?thesis
  proof cases
    case 1
    then show ?thesis using u inc by (auto simp: int_shape_def)
  next
    case 2
    then show ?thesis using u inc by (auto simp: int_shape_def head_length_def less_char_def)
  next
    case 3
    then show ?thesis using u inc by auto
  next
    case 4
    let ?h = "char_of (of_char h + 1 :: nat) :: char"
    show ?thesis
      using u(2)
    proof (cases rule: head_cases)
      case lower
      then have "(of_char h :: nat) < 122" using 4 char_code_eq [of h "CHR ''z''"] by auto
      then have code: "(of_char ?h :: nat) = of_char h + 1" by simp
      moreover have "?h > CHR ''a''" using code lower by (simp add: less_char_def)
      ultimately show ?thesis
        using 4 u inc lower \<open>of_char h < 122\<close>
        by (auto simp: add_u8_def int_shape_def head_length_code less_char_def)
    next
      case upper
      then have "(of_char h :: nat) < 90" using 4 char_code_eq [of h "CHR ''Z''"] by auto
      then have code: "(of_char ?h :: nat) = of_char h + 1" by simp
      moreover have "\<not> ?h > CHR ''a''" using code upper by (simp add: less_char_def)
      moreover have "ds' \<noteq> []" using upper inc(3) by auto
      ultimately show ?thesis
        using 4 u inc upper \<open>of_char h < 90\<close>
        by (auto simp: add_u8_def int_shape_def head_length_code less_char_def dest: in_set_butlastD)
    qed
  qed
qed

lemma smallest_shape: "int_shape SMALLEST"
  by (simp add: int_shape_def SMALLEST_def head_length_def less_eq_char_def)

lemma smallest_eq: "length ds = 26 \<Longrightarrow> set ds \<subseteq> {CHR ''0''} \<Longrightarrow> CHR ''A'' # ds = SMALLEST"
proof -
  assume "length ds = 26" "set ds \<subseteq> {CHR ''0''}"
  then have "ds = replicate 26 CHR ''0''" by (metis in_set_replicate replicate_eqI singletonD subsetD)
  then show ?thesis by (simp add: SMALLEST_def numeral_eq_Suc)
qed

lemma zeros_least: "digits ds \<Longrightarrow> \<not> ds < replicate (length ds) CHR ''0''"
proof (induction ds)
  case (Cons c ds)
  then show ?case using digit_value_mono [of c "CHR ''0''"] by auto
qed simp

lemma smallest_least: "int_shape u \<Longrightarrow> \<not> u < SMALLEST"
proof -
  assume "int_shape u"
  then obtain h ds where u: "u = h # ds" "head_length h = Some (Suc (length ds))" "digits ds"
    by (cases u) (auto simp: int_shape_def)
  have S: "SMALLEST = CHR ''A'' # replicate 26 CHR ''0''" by (simp add: SMALLEST_def numeral_eq_Suc)
  have "\<not> h < CHR ''A''" using u(2) by (auto simp: head_length_def less_eq_char_def less_char_def split: if_splits)
  moreover have "length ds = 26" if "h = CHR ''A''" using that u(2) by (simp add: head_length_def less_eq_char_def)
  ultimately show ?thesis unfolding S u(1) using zeros_least [OF u(3)] by auto
qed

lemma decrement_correct:
  assumes "int_shape u" "u \<noteq> SMALLEST"
  shows "\<exists>v. decrement u = Ok (Some v) \<and> int_shape v \<and> v < u"
proof -
  obtain h ds where u: "u = h # ds" "head_length h = Some (Suc (length ds))" "digits ds"
    using assms by (cases u) (auto simp: int_shape_def)
  obtain ds' w where dec: "decrement_digits (rev ds) = Ok (rev ds', w)" "digits ds'" "length ds' = length ds"
      "if w then set ds \<subseteq> {CHR ''0''} else ds' < ds"
    using decrement_digits_correct [OF u(3)] by blast
  have not_A: "h \<noteq> CHR ''A''" if w
    using that u dec(4) assms(2) smallest_eq [of ds] by (auto simp: head_length_def less_eq_char_def)
  consider "\<not> w" | "w" "h = CHR ''a''" | "w" "h \<noteq> CHR ''a''" by blast
  then show ?thesis
  proof cases
    case 1
    then show ?thesis using u dec by (auto simp: int_shape_def)
  next
    case 2
    then show ?thesis using u dec by (auto simp: int_shape_def head_length_def less_eq_char_def less_char_def)
  next
    case 3
    let ?h = "char_of (of_char h - 1 :: nat) :: char"
    show ?thesis
      using u(2)
    proof (cases rule: head_cases)
      case lower
      then have "97 < (of_char h :: nat)" using 3 char_code_eq [of h "CHR ''a''"] by auto
      moreover from lower have code: "(of_char ?h :: nat) = of_char h - 1" by simp
      moreover have "\<not> ?h < CHR ''Z''" using code lower by (simp add: less_char_def)
      moreover have "ds' \<noteq> []" using lower dec(3) by auto
      ultimately show ?thesis
        using 3 not_A u dec lower
        by (auto simp: sub_u8_def int_shape_def head_length_code less_char_def dest: in_set_butlastD)
    next
      case upper
      then have "65 < (of_char h :: nat)" using not_A [OF 3(1)] char_code_eq [of h "CHR ''A''"] by auto
      moreover from upper have code: "(of_char ?h :: nat) = of_char h - 1" by simp
      moreover have "?h < CHR ''Z''" using code upper by (simp add: less_char_def)
      ultimately show ?thesis
        using 3 not_A u dec upper
        by (auto simp: sub_u8_def int_shape_def head_length_code less_char_def)
    qed
  qed
qed

subsection \<open>Keys between neighbours\<close>

definition valid_key :: "string \<Rightarrow> bool" where
  "valid_key key \<longleftrightarrow> integer key \<noteq> None"

lemma valid_keyI:
  "int_shape u \<Longrightarrow> fraction_above b m \<Longrightarrow> valid_key (u @ m)"
  "int_shape u \<Longrightarrow> u \<noteq> SMALLEST \<Longrightarrow> valid_key u"
proof -
  assume u: "int_shape u" and m: "fraction_above b m"
  have "u @ m \<noteq> SMALLEST"
    using int_shape_order [OF u smallest_shape] u m
    by (metis append.right_neutral fraction_above_def int_shape_order less_append less_irrefl smallest_shape)
  with u m have "integer (u @ m) = Some u" by (auto simp: integer_eq fraction_above_def)
  then show "valid_key (u @ m)" by (simp add: valid_key_def)
next
  assume "int_shape u" "u \<noteq> SMALLEST"
  then have "integer u = Some u" by (simp add: integer_eq)
  then show "valid_key u" by (simp add: valid_key_def)
qed

lemma valid_keyE:
  assumes "valid_key key"
  obtains u f where "key = u @ f" "integer key = Some u" "int_shape u" "digits f" "f = [] \<or> last f \<noteq> CHR ''0''" "key \<noteq> SMALLEST"
  using assms by (auto simp: valid_key_def integer_eq)

lemma key_first: "key_between None None = Ok key \<Longrightarrow> valid_key key"
  by (auto simp: key_between_def intro!: valid_keyI(2)) (simp_all add: int_shape_def head_length_def less_eq_char_def SMALLEST_def DIGITS_def)

lemma key_before:
  assumes "valid_key after"
  shows "\<exists>key. key_between None (Some after) = Ok key \<and> valid_key key \<and> key < after"
proof -
  from assms obtain u f where a: "after = u @ f" "integer after = Some u" "int_shape u" "digits f"
    "f = [] \<or> last f \<noteq> CHR ''0''" "after \<noteq> SMALLEST" by (rule valid_keyE)
  show ?thesis
  proof (cases "u = SMALLEST")
    case True
    then have "f \<noteq> []" using a by auto
    then obtain m where "midpoint [] (Some f) = Ok m" "fraction_above [] m" "m < f"
      using midpoint_Some [of "[]" f] a by auto
    with True a show ?thesis using valid_keyI(1) [OF a(3)] by (auto simp: key_between_def run_expect_def slice_from_def)
  next
    case u: False
    show ?thesis
    proof (cases "f = []")
      case False
      then show ?thesis using a u valid_keyI(2) [OF a(3) u] by (auto simp: key_between_def run_expect_def less_append)
    next
      case True
      obtain v where v: "decrement u = Ok (Some v)" "int_shape v" "v < u" using decrement_correct [OF a(3) u] by blast
      obtain m where m: "midpoint [] None = Ok m" "fraction_above [] m" using midpoint_None [of "[]"] by auto
      have "v @ m < u" using int_shape_order [of v u m "[]"] v a(3) by auto
      then show ?thesis
        using v m u a True valid_keyI(1) [OF v(2) m(2)] valid_keyI(2) [OF v(2)]
        by (auto simp: key_between_def run_expect_def)
    qed
  qed
qed

lemma key_after_last:
  assumes "valid_key before"
  shows "\<exists>key. key_between (Some before) None = Ok key \<and> valid_key key \<and> before < key"
proof -
  from assms obtain u f where b: "before = u @ f" "integer before = Some u" "int_shape u" "digits f"
    "f = [] \<or> last f \<noteq> CHR ''0''" by (rule valid_keyE)
  obtain m where m: "midpoint f None = Ok m" "fraction_above f m" using midpoint_None b(4) by blast
  show ?thesis
    using increment_correct [OF b(3)]
  proof
    assume "increment u = Ok None"
    then show ?thesis
      using b m valid_keyI(1) [OF b(3) m(2)] by (auto simp: key_between_def run_expect_def slice_from_def fraction_above_def)
  next
    assume "\<exists>v. increment u = Ok (Some v) \<and> int_shape v \<and> u < v"
    then obtain v where v: "increment u = Ok (Some v)" "int_shape v" "u < v" by blast
    have "before < v" using int_shape_order [OF b(3) v(2), of f "[]"] v(3) b(1) by auto
    moreover have "v \<noteq> SMALLEST" using smallest_least [OF b(3)] v(3) by auto
    ultimately show ?thesis using b v valid_keyI(2) [OF v(2)] by (auto simp: key_between_def run_expect_def)
  qed
qed

lemma key_inside:
  assumes "valid_key before" "valid_key after" "before < after"
  shows "\<exists>key. key_between (Some before) (Some after) = Ok key \<and> valid_key key \<and> before < key \<and> key < after"
proof -
  from assms(1) obtain u f where b: "before = u @ f" "integer before = Some u" "int_shape u" "digits f" by (rule valid_keyE)
  from assms(2) obtain v g where a: "after = v @ g" "integer after = Some v" "int_shape v" "digits g"
    "g = [] \<or> last g \<noteq> CHR ''0''" by (rule valid_keyE)
  show ?thesis
  proof (cases "u = v")
    case True
    then have "f < g" using assms(3) a b by simp
    moreover from this have "g \<noteq> []" by auto
    ultimately obtain m where m: "midpoint f (Some g) = Ok m" "fraction_above f m" "m < g"
      using midpoint_Some [of f g] a b by auto
    then show ?thesis
      using True a b valid_keyI(1) [OF b(3) m(2)]
      by (auto simp: key_between_def run_expect_def slice_from_def fraction_above_def)
  next
    case False
    have "u < v" using int_shape_order [OF b(3) a(3) False] assms(3) a(1) b(1) by auto
    obtain m where m: "midpoint f None = Ok m" "fraction_above f m" using midpoint_None b(4) by blast
    have low: "u @ m < after" using int_shape_order [OF b(3) a(3) False] a(1) \<open>u < v\<close> by auto
    have fall_back: "valid_key (u @ m)" "before < u @ m" using valid_keyI(1) [OF b(3) m(2)] b m by (auto simp: fraction_above_def)
    show ?thesis
      using increment_correct [OF b(3)]
    proof
      assume "increment u = Ok None"
      then show ?thesis using False a b m low fall_back by (auto simp: key_between_def run_expect_def slice_from_def)
    next
      assume "\<exists>w. increment u = Ok (Some w) \<and> int_shape w \<and> u < w"
      then obtain w where w: "increment u = Ok (Some w)" "int_shape w" "u < w" by blast
      have "before < w" using int_shape_order [OF b(3) w(2), of f "[]"] w(3) b(1) by auto
      moreover have "w \<noteq> SMALLEST" using smallest_least [OF b(3)] w(3) by auto
      ultimately show ?thesis
        using False a b m low fall_back w valid_keyI(2) [OF w(2)]
        by (cases "w < after") (auto simp: key_between_def run_expect_def slice_from_def)
    qed
  qed
qed

lemma valid_key_utf8:
  assumes "valid_key key"
  shows "utf8_valid key"
proof -
  from assms obtain u f where k: "key = u @ f" "int_shape u" "digits f" by (rule valid_keyE)
  have "list_all is_ascii DIGITS" by (simp add: DIGITS_def is_ascii_def less_char_def)
  moreover have "is_ascii (hd u)" using k(2) by (auto simp: int_shape_def is_ascii_def less_char_def elim: head_cases)
  ultimately have "list_all is_ascii key" using k by (cases u) (auto simp: list_all_iff int_shape_def)
  then show ?thesis by (rule utf8_valid_ascii)
qed

lemma between_valid:
  "\<exists>key. between before after = Ok key \<and> valid_key key \<and>
    (\<forall>b. before = Some b \<and> valid_key b \<longrightarrow> b < key) \<and>
    (\<forall>a. after = Some a \<and> valid_key a \<and> (\<forall>b. before = Some b \<and> valid_key b \<longrightarrow> b < a) \<longrightarrow> key < a)"
proof -
  define b' where "b' = opt_filter valid_key before"
  define a' where "a' = opt_filter (\<lambda>a. case b' of None \<Rightarrow> True | Some b \<Rightarrow> b < a) (opt_filter valid_key after)"
  have "\<exists>key. key_between b' a' = Ok key \<and> valid_key key \<and> (\<forall>b. b' = Some b \<longrightarrow> b < key) \<and> (\<forall>a. a' = Some a \<longrightarrow> key < a)"
  proof (cases b')
    case None
    show ?thesis
    proof (cases a')
      case None': None
      have "key_between None None = Ok ''a0''" by (simp add: key_between_def)
      with key_first show ?thesis using None None' by blast
    next
      case (Some a)
      then have "valid_key a" by (auto simp: a'_def opt_filter_def split: option.splits if_splits)
      then show ?thesis using key_before [of a] None Some by auto
    qed
  next
    case b: (Some b)
    then have "valid_key b" by (auto simp: b'_def opt_filter_def split: option.splits if_splits)
    show ?thesis
    proof (cases a')
      case None
      then show ?thesis using key_after_last [OF \<open>valid_key b\<close>] b by auto
    next
      case (Some a)
      then have "valid_key a" "b < a" using b by (auto simp: a'_def opt_filter_def split: option.splits if_splits)
      then show ?thesis using key_inside [OF \<open>valid_key b\<close>] b Some by auto
    qed
  qed
  then obtain key where key: "key_between b' a' = Ok key" "valid_key key" "\<forall>b. b' = Some b \<longrightarrow> b < key"
    "\<forall>a. a' = Some a \<longrightarrow> key < a" by blast
  have "(\<lambda>key. integer key \<noteq> None) = valid_key" by (simp add: fun_eq_iff valid_key_def)
  then have "between before after = Ok key"
    using key(1) valid_key_utf8 [OF key(2)] by (simp only: between_def Let_def b'_def [symmetric] a'_def [symmetric]) simp
  then show ?thesis
    using key(2-4) by (auto simp: b'_def a'_def opt_filter_def split: option.splits if_splits)
qed

text \<open>
  C6: a sort key fits between any two neighbours. Placing an object never panics and gives a valid key;
  the key comes after the neighbour before it, and before the neighbour after it whenever the two
  neighbours are in order. Neighbours that are no valid keys count as the start or the end.
\<close>

theorem key_fits_between:
  "\<exists>key. between before after = Ok key \<and> valid_key key \<and>
    (\<forall>b. before = Some b \<and> valid_key b \<longrightarrow> b < key) \<and>
    (\<forall>a. after = Some a \<and> valid_key a \<and> (\<forall>b. before = Some b \<and> valid_key b \<longrightarrow> b < a) \<longrightarrow> key < a)"
  by (rule between_valid)

theorem key_fits_between_witness: "\<exists>key. between (Some ''a1'') (Some ''a2'') = Ok key \<and> ''a1'' < key \<and> key < ''a2''"
proof -
  have "valid_key ''a1''" "valid_key ''a2''" "''a1'' < ''a2''" by code_simp+
  with key_fits_between [of "Some ''a1''" "Some ''a2''"] show ?thesis by auto
qed

end
