(* ===== verification/Liquid_Model.thy ===== *)
theory Liquid_Model
  imports Sort_Key "HOL-Library.Option_ord" "HOL-Library.Product_Lexorder"
begin

text \<open>
  The document schema of the Liquid workspace, \<open>liquid/liquid-core/src/model.rs\<close>, with the identities of
  \<open>id.rs\<close> and the shared types of \<open>mutation.rs\<close>: reading objects, ordering siblings, choosing the sort
  key of a new sibling, the page tree and the styles of text blocks.

  A document is the tree of values the Automerge library shows to a reader: a map object is the list of
  its entries, and an object identity stands for the object it names.
\<close>

subsection \<open>Shared types\<close>

datatype Error = NotAllowed | NotFound | OutOfRange | NoChange | SectionBoundary | WrongKind | TooMany | Random
  | DocumentError string | StorageError string

text \<open>A request is refused with an error; \<open>Panicked\<close> is a panic below it.\<close>

datatype failure = Refused Error | Panicked panic

type_synonym 'a action = "('a, failure) result"

datatype TextStyle = Paragraph | Heading "8 word" | Bullet | Numbered | Todo bool | Quote

datatype 'a Place = First | After 'a | Last

datatype BlockKind = TextBlock | DatabaseBlock | UnknownBlock

definition BlockKind_of :: "string option \<Rightarrow> BlockKind" where
  "BlockKind_of name =
    (if name = Some ''text'' then TextBlock else if name = Some ''database'' then DatabaseBlock else UnknownBlock)"

definition id_parse :: "string \<Rightarrow> string option" where
  "id_parse text =
    (if length text = 32 \<and> list_all (\<lambda>b. CHR ''0'' \<le> b \<and> b \<le> CHR ''9'' \<or> CHR ''a'' \<le> b \<and> b \<le> CHR ''f'') text
     then Some text else None)"

subsection \<open>Documents\<close>

datatype scalar = Str string | Boolean bool | F64 "64 word" | OtherScalar

datatype doc_value = Scalar scalar | Map "(string \<times> doc_value) list" | OtherObject

fun map_range :: "doc_value \<Rightarrow> (string \<times> doc_value) list" where
  "map_range (Map es) = es"
| "map_range _ = []"

definition doc_get :: "doc_value \<Rightarrow> string \<Rightarrow> doc_value option" where
  "doc_get obj key = map_of (map_range obj) key"

definition child :: "doc_value \<Rightarrow> string \<Rightarrow> doc_value option" where
  "child parent key =
    (case doc_get parent key of Some (Scalar _) \<Rightarrow> None | Some obj \<Rightarrow> Some obj | None \<Rightarrow> None)"

definition doc_string :: "doc_value \<Rightarrow> string \<Rightarrow> string option" where
  "doc_string obj key = (case doc_get obj key of Some (Scalar (Str text)) \<Rightarrow> Some text | _ \<Rightarrow> None)"

definition deleted :: "doc_value \<Rightarrow> bool" where
  "deleted obj \<longleftrightarrow> doc_get obj ''deleted'' \<noteq> Some (Scalar (Boolean False))"

definition live_in :: "doc_value \<Rightarrow> string \<Rightarrow> doc_value option" where
  "live_in m ident = (case child m ident of Some obj \<Rightarrow> if \<not> deleted obj then Some obj else None | None \<Rightarrow> None)"

definition live :: "doc_value \<Rightarrow> string \<Rightarrow> string \<Rightarrow> doc_value option" where
  "live doc m ident = (case child doc m of Some objects \<Rightarrow> live_in objects ident | None \<Rightarrow> None)"

subsection \<open>Entries\<close>

record Entry =
  en_id :: string
  en_fields :: "(string \<times> string) list"

definition entry_get :: "Entry \<Rightarrow> string \<Rightarrow> string option" where
  "entry_get e key = map_option snd (find (\<lambda>(field, _). field = key) (en_fields e))"

definition show_bool :: "bool \<Rightarrow> string" where
  "show_bool b = (if b then ''true'' else ''false'')"

fun entry_field :: "bool \<times> (string \<times> string) list \<Rightarrow> string \<times> doc_value \<Rightarrow> bool \<times> (string \<times> string) list" where
  "entry_field (is_live, texts) (key, Scalar (Str v)) = (is_live, texts @ [(key, v)])"
| "entry_field (is_live, texts) (key, Scalar (Boolean b)) =
     (if \<not> b \<and> key = ''deleted'' then (True, texts) else (is_live, texts @ [(key, show_bool b)]))"
| "entry_field acc _ = acc"

fun entry_of :: "string \<times> doc_value \<Rightarrow> Entry option" where
  "entry_of (key, Map es) =
    (let (is_live, texts) = foldl entry_field (False, []) es
     in if is_live then Some \<lparr> en_id = key, en_fields = texts \<rparr> else None)"
| "entry_of _ = None"

definition sorted_in :: "doc_value \<Rightarrow> Entry list" where
  "sorted_in m = sort_key (\<lambda>e. (entry_get e ''sort'', en_id e)) (List.map_filter entry_of (map_range m))"

definition sorted_entries :: "doc_value \<Rightarrow> string \<Rightarrow> Entry list" where
  "sorted_entries doc m = (case child doc m of Some objects \<Rightarrow> sorted_in objects | None \<Rightarrow> [])"

definition get_at :: "'a list \<Rightarrow> nat \<Rightarrow> 'a option" where
  "get_at xs i = (if i < length xs then Some (xs ! i) else None)"

definition key_around :: "(nat \<Rightarrow> string option) \<Rightarrow> nat \<Rightarrow> string action" where
  "key_around key i = map_err Panicked (between (if i = 0 then None else key (i - 1)) (key i))"

definition sort_at :: "Entry list \<Rightarrow> string Place \<Rightarrow> string action" where
  "sort_at siblings place =
     and_then (case place of
         First \<Rightarrow> Ok 0
       | After after \<Rightarrow> and_then (ok_or (Refused NotFound) (position (\<lambda>e. en_id e = after) siblings)) (\<lambda>i. Ok (i + 1))
       | Last \<Rightarrow> Ok (length siblings)) (\<lambda>i.
     key_around (\<lambda>i. Option.bind (get_at siblings i) (\<lambda>e. entry_get e ''sort'')) i)"

definition sort_after :: "Entry list \<Rightarrow> string option \<Rightarrow> string action" where
  "sort_after siblings after = sort_at siblings (case after of None \<Rightarrow> First | Some after \<Rightarrow> After after)"

subsection \<open>Areas and pages\<close>

record Area =
  ar_id :: string
  ar_name :: string

definition unwrap_or_default :: "string option \<Rightarrow> string" where
  "unwrap_or_default x = (case x of Some v \<Rightarrow> v | None \<Rightarrow> [])"

definition areas :: "doc_value \<Rightarrow> Area list" where
  "areas doc = map (\<lambda>e. \<lparr> ar_id = en_id e, ar_name = unwrap_or_default (entry_get e ''name'') \<rparr>) (sorted_entries doc ''areas'')"

record PageEntry =
  pg_id :: string
  pg_parent :: "string option"
  pg_title :: string

definition page_entry :: "Entry \<Rightarrow> PageEntry" where
  "page_entry e = \<lparr> pg_id = en_id e, pg_parent = entry_get e ''parent'', pg_title = unwrap_or_default (entry_get e ''title'') \<rparr>"

text \<open>The map from a parent to its pages in order, and the entries still to show, the next one first.\<close>

type_synonym page_children = "(string option \<times> PageEntry list) list"

fun push_child :: "page_children \<Rightarrow> PageEntry \<Rightarrow> page_children" where
  "push_child [] page = [(pg_parent page, [page])]"
| "push_child ((parent, ps) # children) page =
    (if parent = pg_parent page then (parent, ps @ [page]) # children else (parent, ps) # push_child children page)"

definition remove_children :: "page_children \<Rightarrow> string option \<Rightarrow> PageEntry list option \<times> page_children" where
  "remove_children children key = (map_of children key, filter (\<lambda>(k, _). k \<noteq> key) children)"

function page_loop :: "page_children \<Rightarrow> PageEntry list \<Rightarrow> PageEntry list \<Rightarrow> PageEntry list" where
  "page_loop children [] tree = tree"
| "page_loop children (page # pending) tree =
    (let (nested, children') = remove_children children (Some (pg_id page))
     in page_loop children' ((case nested of Some ps \<Rightarrow> ps | None \<Rightarrow> []) @ pending) (tree @ [page]))"
  by pat_completeness auto

definition page_tree :: "PageEntry list \<Rightarrow> PageEntry list" where
  "page_tree entries =
    (let (roots, children) = remove_children (foldl push_child [] entries) None
     in page_loop children (case roots of Some ps \<Rightarrow> ps | None \<Rightarrow> []) [])"

definition pages :: "doc_value \<Rightarrow> PageEntry list" where
  "pages doc = page_tree (map page_entry (sorted_entries doc ''pages''))"

subsection \<open>Styles\<close>

definition style_name :: "TextStyle \<Rightarrow> (string, Error) result" where
  "style_name style =
    (case style of
       Paragraph \<Rightarrow> Ok ''paragraph''
     | Heading level \<Rightarrow> if 1 \<le> level \<and> level \<le> 3 then Ok (''heading'' @ show_nat (unat level)) else Err OutOfRange
     | Bullet \<Rightarrow> Ok ''bullet''
     | Numbered \<Rightarrow> Ok ''numbered''
     | Todo done \<Rightarrow> Ok (if done then ''done'' else ''todo'')
     | Quote \<Rightarrow> Ok ''quote'')"

definition style :: "string option \<Rightarrow> TextStyle" where
  "style name =
    (if name = Some ''heading1'' then Heading 1
     else if name = Some ''heading2'' then Heading 2
     else if name = Some ''heading3'' then Heading 3
     else if name = Some ''bullet'' then Bullet
     else if name = Some ''numbered'' then Numbered
     else if name = Some ''todo'' then Todo False
     else if name = Some ''done'' then Todo True
     else if name = Some ''quote'' then Quote
     else Paragraph)"

definition children_count :: "page_children \<Rightarrow> nat" where
  "children_count children = (\<Sum>(k, ps) \<leftarrow> children. length ps)"

lemma remove_children_count:
  "remove_children children key = (nested, children') \<Longrightarrow>
   length (case nested of Some ps \<Rightarrow> ps | None \<Rightarrow> []) + children_count children' \<le> children_count children"
  unfolding remove_children_def children_count_def
proof (induction children arbitrary: nested children')
  case (Cons e children)
  obtain k ps where e: "e = (k, ps)" by force
  have "(\<Sum>(k, ps) \<leftarrow> filter (\<lambda>(k, _). k \<noteq> key) children. length ps) \<le> (\<Sum>(k, ps) \<leftarrow> children. length ps)"
    by (induction children) auto
  then show ?case using Cons.IH [OF refl] Cons.prems e by (auto split: if_splits)
qed simp

termination page_loop
proof (relation "measure (\<lambda>(children, pending, _). children_count children + length pending)", goal_cases)
  case (2 children page pending tree r nested children')
  then show ?case using remove_children_count [of children "Some (pg_id page)" nested children'] by simp
qed simp

subsection \<open>The page tree\<close>

text \<open>A page is shown when its chain of parents is live and ends at the top of the area.\<close>

inductive page_shown :: "PageEntry list \<Rightarrow> PageEntry \<Rightarrow> bool" for entries where
  page_root: "page \<in> set entries \<Longrightarrow> pg_parent page = None \<Longrightarrow> page_shown entries page"
| page_nested: "page \<in> set entries \<Longrightarrow> pg_parent page = Some (pg_id parent) \<Longrightarrow> page_shown entries parent \<Longrightarrow>
    page_shown entries page"

lemma push_child_get:
  "map_of (push_child children page) key =
     (if key = pg_parent page then Some ((case map_of children key of Some ps \<Rightarrow> ps | None \<Rightarrow> []) @ [page]) else map_of children key)"
  by (induction children) (auto split: option.splits)

lemma push_children_get:
  "map_of (foldl push_child children entries) key =
     (let ps = filter (\<lambda>p. pg_parent p = key) entries in
      if ps = [] then map_of children key else Some ((case map_of children key of Some ps \<Rightarrow> ps | None \<Rightarrow> []) @ ps))"
  by (induction entries arbitrary: children) (auto simp: push_child_get Let_def split: option.splits)

definition children_of :: "PageEntry list \<Rightarrow> string option \<Rightarrow> PageEntry list" where
  "children_of entries key = filter (\<lambda>p. pg_parent p = key) entries"

lemma collected_children: "(case map_of (foldl push_child [] entries) key of Some ps \<Rightarrow> ps | None \<Rightarrow> []) = children_of entries key"
  by (simp add: push_children_get children_of_def Let_def)

definition pending_children :: "page_children \<Rightarrow> string option \<Rightarrow> PageEntry list" where
  "pending_children children key = (case map_of children key of Some ps \<Rightarrow> ps | None \<Rightarrow> [])"

lemma remove_children_eq:
  assumes "remove_children children key = (nested, children')"
  shows "(case nested of Some ps \<Rightarrow> ps | None \<Rightarrow> []) = pending_children children key"
    "pending_children children' k = (if k = key then [] else pending_children children k)"
proof -
  have "map_of (filter (\<lambda>(k, _). k \<noteq> key) children) k = (if k = key then None else map_of children k)"
    by (induction children) auto
  then show "(case nested of Some ps \<Rightarrow> ps | None \<Rightarrow> []) = pending_children children key"
    "pending_children children' k = (if k = key then [] else pending_children children k)"
    using assms by (auto simp: remove_children_def pending_children_def)
qed

text \<open>
  The invariant of the loop: what is shown or pending is part of the area, a parent is shown before its
  child is pending, and the pages below a page are taken exactly when it is shown.
\<close>

definition page_inv :: "PageEntry list \<Rightarrow> page_children \<Rightarrow> PageEntry list \<Rightarrow> PageEntry list \<Rightarrow> bool" where
  "page_inv entries children pending tree \<longleftrightarrow>
     distinct (map pg_id (tree @ pending)) \<and>
     (\<forall>p \<in> set (tree @ pending). page_shown entries p) \<and>
     (\<forall>p \<in> set entries. pg_parent p = None \<longrightarrow> p \<in> set (tree @ pending)) \<and>
     (\<forall>q \<in> set tree. set (children_of entries (Some (pg_id q))) \<subseteq> set (tree @ pending)) \<and>
     (\<forall>p \<in> set pending. \<forall>q. pg_parent p = Some q \<longrightarrow> q \<in> pg_id ` set tree) \<and>
     (\<forall>xs p ys q. tree = xs @ p # ys \<and> pg_parent p = Some q \<longrightarrow> q \<in> pg_id ` set xs) \<and>
     (\<forall>key. pending_children children (Some key) = (if key \<in> pg_id ` set tree then [] else children_of entries (Some key)))"

lemma page_shown_entry: "page_shown entries p \<Longrightarrow> p \<in> set entries"
  by (cases rule: page_shown.cases) auto

lemma page_inv_fresh:
  assumes "page_inv entries children (page # pending) tree" "distinct (map pg_id entries)"
  shows "pg_id ` set (children_of entries (Some (pg_id page))) \<inter> pg_id ` set (tree @ page # pending) = {}"
proof -
  have "False" if p: "p \<in> set entries" "pg_parent p = Some (pg_id page)" and r: "r \<in> set (tree @ page # pending)" "pg_id r = pg_id p" for p r
  proof -
    have "r \<in> set entries" using assms(1) r(1) page_shown_entry unfolding page_inv_def by blast
    then have "r = p" using p(1) r(2) assms(2) by (auto simp: distinct_map inj_on_def)
    have "pg_id page \<in> pg_id ` set tree"
    proof (cases "r \<in> set tree")
      case True
      then obtain xs ys where "tree = xs @ r # ys" by (auto simp: in_set_conv_decomp)
      moreover from this have "pg_id page \<in> pg_id ` set xs"
        using assms(1) p(2) \<open>r = p\<close> unfolding page_inv_def by blast
      ultimately show ?thesis by auto
    next
      case False
      then have "r \<in> set (page # pending)" using r(1) by auto
      then show ?thesis using assms(1) p(2) \<open>r = p\<close> unfolding page_inv_def by blast
    qed
    then show False using assms(1) by (auto simp: page_inv_def)
  qed
  then show ?thesis by (fastforce simp: children_of_def)
qed

lemma page_inv_step:
  assumes inv: "page_inv entries children (page # pending) tree" and ids: "distinct (map pg_id entries)"
    and rem: "remove_children children (Some (pg_id page)) = (nested, children')"
  shows "page_inv entries children' ((case nested of Some ps \<Rightarrow> ps | None \<Rightarrow> []) @ pending) (tree @ [page])"
proof -
  let ?C = "children_of entries (Some (pg_id page))"
  have fresh: "pg_id page \<notin> pg_id ` set tree" using inv by (auto simp: page_inv_def)
  have nested: "(case nested of Some ps \<Rightarrow> ps | None \<Rightarrow> []) = ?C"
    using remove_children_eq(1) [OF rem] inv fresh by (simp add: page_inv_def)
  have shown: "page_shown entries p" if "p \<in> set ?C" for p
    using that inv page_nested [of p entries page] by (auto simp: children_of_def page_inv_def)
  have C_distinct: "distinct (map pg_id ?C)" using ids by (simp add: children_of_def distinct_map_filter)
  have new_distinct: "distinct (map pg_id ((tree @ [page]) @ ?C @ pending))"
    using inv page_inv_fresh [OF inv ids] C_distinct by (auto simp: page_inv_def)
  have parents: "q \<in> pg_id ` set xs" if "tree @ [page] = xs @ p # ys" "pg_parent p = Some q" for xs p ys q
  proof (cases ys rule: rev_cases)
    case Nil
    then show ?thesis using that inv by (auto simp: page_inv_def)
  next
    case (snoc zs z)
    then have "tree = xs @ p # zs" using that(1) by simp
    then show ?thesis using that(2) inv unfolding page_inv_def by blast
  qed
  have kids: "pending_children children' (Some key) =
      (if key \<in> pg_id ` set (tree @ [page]) then [] else children_of entries (Some key))" for key
    using remove_children_eq(2) [OF rem, of "Some key"] inv by (simp add: page_inv_def)
  show ?thesis
    unfolding page_inv_def nested
  proof (intro conjI)
    show "\<forall>p \<in> set ((tree @ [page]) @ ?C @ pending). page_shown entries p" using inv shown by (auto simp: page_inv_def)
    show "\<forall>p \<in> set entries. pg_parent p = None \<longrightarrow> p \<in> set ((tree @ [page]) @ ?C @ pending)" using inv by (auto simp: page_inv_def)
    show "\<forall>q \<in> set (tree @ [page]). set (children_of entries (Some (pg_id q))) \<subseteq> set ((tree @ [page]) @ ?C @ pending)"
      using inv by (auto simp: page_inv_def)
    show "\<forall>p \<in> set (?C @ pending). \<forall>q. pg_parent p = Some q \<longrightarrow> q \<in> pg_id ` set (tree @ [page])"
      using inv by (auto simp: page_inv_def children_of_def)
  qed (use new_distinct parents kids in blast)+
qed

lemma page_loop_inv:
  "page_inv entries children pending tree \<Longrightarrow> distinct (map pg_id entries) \<Longrightarrow>
   \<exists>children'. page_inv entries children' [] (page_loop children pending tree)"
proof (induction children pending tree rule: page_loop.induct)
  case (2 children page pending tree)
  obtain nested children' where rem: "remove_children children (Some (pg_id page)) = (nested, children')" by force
  from 2(1) [OF rem [symmetric] refl page_inv_step [OF 2(2,3) rem] 2(3)] rem show ?case by simp
qed auto

lemma page_inv_start:
  assumes "remove_children (foldl push_child [] entries) None = (roots, children)" "distinct (map pg_id entries)"
  shows "page_inv entries children (case roots of Some ps \<Rightarrow> ps | None \<Rightarrow> []) []"
proof -
  have roots: "(case roots of Some ps \<Rightarrow> ps | None \<Rightarrow> []) = children_of entries None"
    using remove_children_eq(1) [OF assms(1)] collected_children [of entries None] by (simp add: pending_children_def)
  have "pending_children children (Some key) = children_of entries (Some key)" for key
    using remove_children_eq(2) [OF assms(1), of "Some key"] collected_children [of entries "Some key"]
    by (simp add: pending_children_def)
  then show ?thesis
    unfolding page_inv_def roots
    using assms(2) by (auto simp: children_of_def distinct_map_filter intro: page_root)
qed

text \<open>
  C13: the page tree of an area is right. The loop ends for every document, also one whose pages nest in a
  circle; it lists exactly the pages whose chain of parents is live up to the top of the area, each once and
  after its parent.
\<close>

theorem page_tree_correct:
  assumes "distinct (map pg_id entries)"
  shows "set (page_tree entries) = {p. page_shown entries p} \<and> distinct (map pg_id (page_tree entries)) \<and>
    (\<forall>xs p ys q. page_tree entries = xs @ p # ys \<and> pg_parent p = Some q \<longrightarrow> q \<in> pg_id ` set xs)"
proof -
  obtain roots children where rem: "remove_children (foldl push_child [] entries) None = (roots, children)" by force
  obtain children' where inv: "page_inv entries children' [] (page_tree entries)"
    using page_loop_inv [OF page_inv_start [OF rem assms] assms] rem by (auto simp: page_tree_def)
  have "p \<in> set (page_tree entries)" if "page_shown entries p" for p
    using that
  proof induction
    case (page_nested p parent)
    then have "p \<in> set (children_of entries (Some (pg_id parent)))" by (simp add: children_of_def)
    then show ?case using inv page_nested.IH unfolding page_inv_def by auto
  qed (use inv in \<open>auto simp: page_inv_def\<close>)
  then show ?thesis using inv unfolding page_inv_def by auto
qed

definition sample_pages :: "PageEntry list" where
  "sample_pages = [\<lparr> pg_id = ''p1'', pg_parent = Some ''p2'', pg_title = ''Child'' \<rparr>,
     \<lparr> pg_id = ''p2'', pg_parent = None, pg_title = ''Root'' \<rparr>, \<lparr> pg_id = ''p3'', pg_parent = Some ''p3'', pg_title = ''Lost'' \<rparr>]"

theorem page_tree_correct_witness:
  "set (page_tree sample_pages) = {p. page_shown sample_pages p} \<and> map pg_id (page_tree sample_pages) = [''p2'', ''p1'']"
proof -
  have "distinct (map pg_id sample_pages)" by code_simp
  moreover have "map pg_id (page_tree sample_pages) = [''p2'', ''p1'']" by code_simp
  ultimately show ?thesis using page_tree_correct [of sample_pages] by blast
qed

text \<open>The names of styles: a style that can be stored reads back as itself.\<close>

lemma style_roundtrip: "style_name s = Ok name \<Longrightarrow> style (Some name) = s"
proof (cases s)
  case (Heading level)
  assume "style_name s = Ok name"
  then have *: "1 \<le> level" "level \<le> 3" and name: "name = ''heading'' @ show_nat (unat level)"
    using Heading by (auto simp: style_name_def split: if_splits)
  have "unat level \<in> {1, 2, 3}" using * by (auto simp: word_le_nat_alt)
  then consider "level = 1" | "level = 2" | "level = 3"
    by (auto simp: word_unat_eq_iff)
  moreover have "show_nat 1 = ''1''" "show_nat 2 = ''2''" "show_nat 3 = ''3''" by code_simp+
  ultimately show ?thesis by cases (auto simp: name Heading style_def)
qed (auto simp: style_name_def style_def split: if_splits)

end
