(* ===== verification/View_Order.thy ===== *)
theory View_Order
  imports Liquid_Model
begin

text \<open>
  The order of a page's views, \<open>liquid/liquid-core/src/order.rs\<close>, and the order of a database's rows, the
  \<open>Index\<close> of \<open>liquid/liquid-core/src/database.rs\<close>: sequences kept beside the loaded document, placed by
  sort key. The locale \<open>placement\<close> is the contract both share, interpreted for both: a new element lands
  exactly where it was placed, and the keys stay valid and strictly increasing.
\<close>

subsection \<open>Binary search\<close>

text \<open>\<open>slice::partition_point\<close> on a slice whose elements that satisfy the predicate come first.\<close>

definition partition_point :: "('a \<Rightarrow> bool) \<Rightarrow> 'a list \<Rightarrow> nat" where
  "partition_point P xs = length (takeWhile P xs)"

definition vec_insert :: "nat \<Rightarrow> 'a \<Rightarrow> 'a list \<Rightarrow> 'a list" where
  "vec_insert i x xs = take i xs @ x # drop i xs"

definition vec_remove :: "nat \<Rightarrow> 'a list \<Rightarrow> 'a list" where
  "vec_remove i xs = take i xs @ drop (Suc i) xs"

subsection \<open>Views\<close>

record View =
  vw_id :: string
  vw_block :: string
  vw_boundary :: bool
  vw_kind :: BlockKind

record Placed =
  pl_sort :: string
  pl_view :: View

definition placed_of :: "(string \<Rightarrow> BlockKind option) \<Rightarrow> Entry \<Rightarrow> Placed option" where
  "placed_of blocks e =
     Option.bind (entry_get e ''block'') (\<lambda>block. Option.bind (blocks block) (\<lambda>kind.
     Some \<lparr> pl_sort = unwrap_or_default (entry_get e ''sort''),
            pl_view = \<lparr> vw_id = en_id e, vw_block = block, vw_boundary = (entry_get e ''boundary'' = Some ''true''), vw_kind = kind \<rparr> \<rparr>))"

definition order_read :: "doc_value \<Rightarrow> Placed list" where
  "order_read doc =
    (let blocks = map_of (rev (map (\<lambda>e. (en_id e, BlockKind_of (entry_get e ''kind''))) (sorted_entries doc ''blocks'')))
     in List.map_filter (placed_of blocks) (sorted_entries doc ''views''))"

definition order_position :: "Placed list \<Rightarrow> string \<Rightarrow> nat option" where
  "order_position placed view = position (\<lambda>p. vw_id (pl_view p) = view) placed"

definition key_after :: "Placed list \<Rightarrow> string option \<Rightarrow> string action" where
  "key_after placed after =
     and_then (case after of
         None \<Rightarrow> Ok 0
       | Some after \<Rightarrow> and_then (ok_or (Refused NotFound) (order_position placed after)) (\<lambda>i. Ok (i + 1))) (\<lambda>i.
     key_around (\<lambda>i. map_option pl_sort (get_at placed i)) i)"

definition order_insert :: "string \<Rightarrow> View \<Rightarrow> Placed list \<Rightarrow> Placed list" where
  "order_insert key view placed =
    (let i = partition_point (\<lambda>p. (pl_sort p, vw_id (pl_view p)) < (key, vw_id view)) placed
     in vec_insert i \<lparr> pl_sort = key, pl_view = view \<rparr> placed)"

definition order_remove :: "string \<Rightarrow> Placed list \<Rightarrow> Placed list" where
  "order_remove view placed = (case order_position placed view of Some i \<Rightarrow> vec_remove i placed | None \<Rightarrow> placed)"

definition order_shows :: "Placed list \<Rightarrow> string \<Rightarrow> string \<Rightarrow> bool" where
  "order_shows placed block besides \<longleftrightarrow> list_ex (\<lambda>p. vw_block (pl_view p) = block \<and> vw_id (pl_view p) \<noteq> besides) placed"

definition order_view :: "Placed list \<Rightarrow> string \<Rightarrow> View option" where
  "order_view placed view = map_option (\<lambda>i. pl_view (placed ! i)) (order_position placed view)"

definition order_above :: "Placed list \<Rightarrow> string \<Rightarrow> View option" where
  "order_above placed view =
     Option.bind (order_position placed view) (\<lambda>i. if i = 0 then None else Some (pl_view (placed ! (i - 1))))"

definition set_boundary :: "string \<Rightarrow> bool \<Rightarrow> Placed list \<Rightarrow> Placed list" where
  "set_boundary view boundary placed =
    (case order_position placed view of
       Some i \<Rightarrow> placed[i := (placed ! i)\<lparr> pl_view := (pl_view (placed ! i))\<lparr> vw_boundary := boundary \<rparr> \<rparr>]
     | None \<Rightarrow> placed)"

definition window :: "nat \<Rightarrow> nat \<Rightarrow> Placed list \<Rightarrow> View list" where
  "window start limit placed = map pl_view (take limit (drop start placed))"

subsection \<open>Rows\<close>

datatype Cell = CellEmpty | CellText string | CellNumber "64 word" | CellSelect string | CellDate string | CellCheckbox bool

record Indexed =
  ix_sort :: string
  ix_id :: string
  ix_cells :: "(string \<times> Cell) list"

definition index_position :: "Indexed list \<Rightarrow> string \<Rightarrow> nat option" where
  "index_position rows row = position (\<lambda>r. ix_id r = row) rows"

definition key_at :: "Indexed list \<Rightarrow> string Place \<Rightarrow> string action" where
  "key_at rows place =
     and_then (case place of
         First \<Rightarrow> Ok 0
       | After after \<Rightarrow> and_then (ok_or (Refused NotFound) (index_position rows after)) (\<lambda>i. Ok (i + 1))
       | Last \<Rightarrow> Ok (length rows)) (\<lambda>i.
     key_around (\<lambda>i. map_option ix_sort (get_at rows i)) i)"

definition index_insert :: "string \<Rightarrow> string \<Rightarrow> Indexed list \<Rightarrow> Indexed list" where
  "index_insert key ident rows =
    (let i = partition_point (\<lambda>r. (ix_sort r, ix_id r) < (key, ident)) rows
     in vec_insert i \<lparr> ix_sort = key, ix_id = ident, ix_cells = [] \<rparr> rows)"

definition index_remove :: "string \<Rightarrow> Indexed list \<Rightarrow> Indexed list" where
  "index_remove row rows = (case index_position rows row of Some i \<Rightarrow> vec_remove i rows | None \<Rightarrow> rows)"

text \<open>The cells of a row are a map from field to value.\<close>

definition cells_remove :: "string \<Rightarrow> (string \<times> Cell) list \<Rightarrow> (string \<times> Cell) list" where
  "cells_remove field cells = filter (\<lambda>(f, _). f \<noteq> field) cells"

definition index_set :: "string \<Rightarrow> string \<Rightarrow> Cell \<Rightarrow> Indexed list \<Rightarrow> Indexed list" where
  "index_set row field cell rows =
    (case index_position rows row of
       None \<Rightarrow> rows
     | Some i \<Rightarrow> rows[i := (rows ! i)\<lparr> ix_cells :=
         (case cell of CellEmpty \<Rightarrow> cells_remove field (ix_cells (rows ! i))
          | v \<Rightarrow> (field, v) # cells_remove field (ix_cells (rows ! i))) \<rparr>])"

subsection \<open>The contract of placed sequences\<close>

text \<open>
  A provider names the sort key and the identity of its elements, an insertion that keeps the pair of
  them in order and a removal by identity.
\<close>

definition placed_ok :: "('p \<Rightarrow> string) \<Rightarrow> ('p \<Rightarrow> string) \<Rightarrow> 'p list \<Rightarrow> bool" where
  "placed_ok skey ident ps \<longleftrightarrow>
     sorted_wrt (\<lambda>p q. skey p < skey q) ps \<and> list_all (\<lambda>p. valid_key (skey p)) ps \<and> distinct (map ident ps)"

locale placement =
  fixes skey ident :: "'p \<Rightarrow> string" and fresh :: "'p \<Rightarrow> bool" and insert :: "'p \<Rightarrow> 'p list \<Rightarrow> 'p list" and remove :: "string \<Rightarrow> 'p list \<Rightarrow> 'p list"
  assumes insert_eq: "fresh p \<Longrightarrow> insert p ps =
      (let i = partition_point (\<lambda>q. (skey q, ident q) < (skey p, ident p)) ps in vec_insert i p ps)"
    and remove_eq: "remove x ps = (case position (\<lambda>p. ident p = x) ps of Some i \<Rightarrow> vec_remove i ps | None \<Rightarrow> ps)"
begin

lemma key_around_ok:
  assumes ok: "placed_ok skey ident ps" and i: "i \<le> length ps"
  shows "\<exists>key. key_around (\<lambda>i. map_option skey (get_at ps i)) i = Ok key \<and> valid_key key \<and>
    (\<forall>j < i. skey (ps ! j) < key) \<and> (\<forall>j < length ps. i \<le> j \<longrightarrow> key < skey (ps ! j))"
proof -
  let ?key = "\<lambda>i. map_option skey (get_at ps i)"
  have mono: "skey (ps ! j) < skey (ps ! k)" if "j < k" "k < length ps" for j k
    using ok that by (auto simp: placed_ok_def sorted_wrt_iff_nth_less)
  have valid: "valid_key (skey (ps ! j))" if "j < length ps" for j
    using ok that by (auto simp: placed_ok_def list_all_length)
  obtain key where key: "between (if i = 0 then None else ?key (i - 1)) (?key i) = Ok key" "valid_key key"
    "\<forall>b. (if i = 0 then None else ?key (i - 1)) = Some b \<and> valid_key b \<longrightarrow> b < key"
    "\<forall>a. ?key i = Some a \<and> valid_key a \<and> (\<forall>b. (if i = 0 then None else ?key (i - 1)) = Some b \<and> valid_key b \<longrightarrow> b < a) \<longrightarrow> key < a"
    using between_valid by blast
  have low: "skey (ps ! (i - 1)) < key" if "0 < i"
    using key(3) that i valid [of "i - 1"] by (auto simp: get_at_def)
  have high: "key < skey (ps ! i)" if "i < length ps"
    using key(4) that i valid [of i] mono [of "i - 1" i] by (cases "i = 0") (auto simp: get_at_def)
  have "skey (ps ! j) < key" if "j < i" for j
  proof (cases "j = i - 1")
    case False
    then show ?thesis using mono [of j "i - 1"] low that i by fastforce
  qed (use low that in auto)
  moreover have "key < skey (ps ! j)" if "j < length ps" "i \<le> j" for j
  proof (cases "j = i")
    case False
    then show ?thesis using mono [of i j] high that by fastforce
  qed (use high that in auto)
  ultimately show ?thesis using key(1,2) by (auto simp: key_around_def)
qed

text \<open>An element whose key lies between its neighbours lands between them.\<close>

lemma insert_between:
  assumes "fresh p" "i \<le> length ps" "\<forall>j < i. skey (ps ! j) < skey p" "\<forall>j < length ps. i \<le> j \<longrightarrow> skey p < skey (ps ! j)"
  shows "insert p ps = take i ps @ p # drop i ps"
proof -
  let ?P = "\<lambda>q. (skey q, ident q) < (skey p, ident p)"
  have "\<forall>q \<in> set (take i ps). ?P q" using assms(2,3) by (auto simp: in_set_conv_nth)
  moreover have "drop i ps = [] \<or> \<not> ?P (hd (drop i ps))"
  proof (cases "i < length ps")
    case True
    then have "skey p < skey (hd (drop i ps))" using assms(4) by (simp add: hd_drop_conv_nth)
    then show ?thesis by (simp add: not_le less_not_sym)
  qed simp
  ultimately have "takeWhile ?P (take i ps @ drop i ps) = take i ps"
    by (subst takeWhile_append2) (auto simp: takeWhile_eq_Nil_iff)
  then have "partition_point ?P ps = i" using assms(2) by (simp add: partition_point_def)
  then show ?thesis using assms(1) by (simp add: insert_eq vec_insert_def)
qed

lemma insert_ok:
  assumes ok: "placed_ok skey ident ps" and i: "i \<le> length ps" and p: "fresh p" "valid_key (skey p)" "ident p \<notin> ident ` set ps"
    and around: "\<forall>j < i. skey (ps ! j) < skey p" "\<forall>j < length ps. i \<le> j \<longrightarrow> skey p < skey (ps ! j)"
  shows "placed_ok skey ident (insert p ps)"
proof -
  have "skey q < skey p" if "q \<in> set (take i ps)" for q using that around(1) i by (auto simp: in_set_conv_nth)
  moreover have "skey p < skey q" if "q \<in> set (drop i ps)" for q using that around(2) i by (auto simp: in_set_conv_nth)
  moreover have "placed_ok skey ident (take i ps @ drop i ps)" using ok by simp
  ultimately show ?thesis
    unfolding insert_between [OF p(1) i around] using p
    by (auto simp: placed_ok_def sorted_wrt_append simp del: append_take_drop_id dest: in_set_takeD in_set_dropD)
qed

lemma remove_filter: "distinct (map ident ps) \<Longrightarrow> remove x ps = filter (\<lambda>p. ident p \<noteq> x) ps"
proof (induction ps)
  case (Cons p ps)
  show ?case
  proof (cases "ident p = x")
    case True
    then have "filter (\<lambda>p. ident p \<noteq> x) ps = ps" using Cons.prems by (intro filter_True) (auto simp: image_iff)
    with True show ?thesis by (simp add: remove_eq vec_remove_def)
  next
    case False
    have "remove x (p # ps) = p # remove x ps"
      using False by (simp add: remove_eq vec_remove_def split: option.split)
    with Cons False show ?thesis by simp
  qed
qed (simp add: remove_eq)

lemma remove_ok: "placed_ok skey ident ps \<Longrightarrow> placed_ok skey ident (remove x ps)"
  using remove_filter [of ps x] by (auto simp: placed_ok_def sorted_wrt_filter list_all_iff distinct_map_filter)

end

interpretation order: placement pl_sort "\<lambda>p :: Placed. vw_id (pl_view p)" "\<lambda>_. True"
    "\<lambda>p. order_insert (pl_sort p) (pl_view p)" order_remove
proof unfold_locales
  fix p :: Placed and ps
  have eq: "\<lparr> pl_sort = pl_sort p, pl_view = pl_view p \<rparr> = p" by simp
  show "order_insert (pl_sort p) (pl_view p) ps =
      (let i = partition_point (\<lambda>q. (pl_sort q, vw_id (pl_view q)) < (pl_sort p, vw_id (pl_view p))) ps in vec_insert i p ps)"
    by (simp only: order_insert_def eq)
qed (simp add: order_remove_def order_position_def)

interpretation rows: placement ix_sort ix_id "\<lambda>p. ix_cells p = []" "\<lambda>p. index_insert (ix_sort p) (ix_id p)" index_remove
proof unfold_locales
  fix p :: Indexed and ps
  assume "ix_cells p = []"
  then have "\<lparr> ix_sort = ix_sort p, ix_id = ix_id p, ix_cells = [] \<rparr> = p" by simp
  then show "index_insert (ix_sort p) (ix_id p) ps =
      (let i = partition_point (\<lambda>q. (ix_sort q, ix_id q) < (ix_sort p, ix_id p)) ps in vec_insert i p ps)"
    by (simp add: index_insert_def)
qed (simp add: index_remove_def index_position_def)

subsection \<open>What placing keeps\<close>

lemma position_correct: "position P xs = Some i \<Longrightarrow> i < length xs"
  by (simp add: position_Some)

lemma key_after_ok:
  assumes "placed_ok pl_sort (\<lambda>p. vw_id (pl_view p)) placed"
    "case after of None \<Rightarrow> i = 0 | Some v \<Rightarrow> \<exists>j. order_position placed v = Some j \<and> i = j + 1"
  shows "\<exists>key. key_after placed after = Ok key \<and> valid_key key \<and> i \<le> length placed \<and>
    (\<forall>j < i. pl_sort (placed ! j) < key) \<and> (\<forall>j < length placed. i \<le> j \<longrightarrow> key < pl_sort (placed ! j))"
proof -
  have i: "i \<le> length placed" using assms(2) by (auto simp: order_position_def position_Some split: option.splits)
  have "key_after placed after = key_around (\<lambda>i. map_option pl_sort (get_at placed i)) i"
    using assms(2) by (auto simp: key_after_def split: option.splits)
  then show ?thesis using order.key_around_ok [OF assms(1) i] i by simp
qed

text \<open>
  C18: adding a view places it exactly there. In an order whose keys are valid and strictly increasing, a new
  view added after a view goes right after it, one added first goes first, and the order keeps its keys
  valid and strictly increasing; no step panics.
\<close>

theorem adding_a_view_places_it:
  assumes "placed_ok pl_sort (\<lambda>p. vw_id (pl_view p)) placed" "vw_id view \<notin> (\<lambda>p. vw_id (pl_view p)) ` set placed"
    "case after of None \<Rightarrow> i = 0 | Some v \<Rightarrow> \<exists>j. order_position placed v = Some j \<and> i = j + 1"
  shows "\<exists>key. key_after placed after = Ok key \<and>
    map pl_view (order_insert key view placed) = take i (map pl_view placed) @ view # drop i (map pl_view placed) \<and>
    placed_ok pl_sort (\<lambda>p. vw_id (pl_view p)) (order_insert key view placed)"
proof -
  obtain key where key: "key_after placed after = Ok key" "valid_key key" "i \<le> length placed"
    "\<forall>j < i. pl_sort (placed ! j) < key" "\<forall>j < length placed. i \<le> j \<longrightarrow> key < pl_sort (placed ! j)"
    using key_after_ok [OF assms(1,3)] by blast
  let ?p = "\<lparr> pl_sort = key, pl_view = view \<rparr>"
  have "order_insert key view placed = take i placed @ ?p # drop i placed"
    using order.insert_between [where p = ?p and i = i and ps = placed] key by simp
  moreover have "placed_ok pl_sort (\<lambda>p. vw_id (pl_view p)) (order_insert key view placed)"
    using order.insert_ok [where p = ?p and i = i and ps = placed] key assms(1,2) by simp
  ultimately show ?thesis using key(1) by (auto simp: take_map drop_map)
qed

definition sample_order :: "Placed list" where
  "sample_order = [\<lparr> pl_sort = ''a0'', pl_view = \<lparr> vw_id = ''v1'', vw_block = ''b1'', vw_boundary = False, vw_kind = TextBlock \<rparr> \<rparr>,
     \<lparr> pl_sort = ''a1'', pl_view = \<lparr> vw_id = ''v2'', vw_block = ''b2'', vw_boundary = False, vw_kind = TextBlock \<rparr> \<rparr>]"

definition sample_view :: View where
  "sample_view = \<lparr> vw_id = ''v3'', vw_block = ''b3'', vw_boundary = False, vw_kind = TextBlock \<rparr>"

theorem adding_a_view_places_it_witness:
  "\<exists>key. key_after sample_order (Some ''v1'') = Ok key \<and>
    map (\<lambda>p. vw_id (pl_view p)) (order_insert key sample_view sample_order) = [''v1'', ''v3'', ''v2'']"
proof -
  have "placed_ok pl_sort (\<lambda>p. vw_id (pl_view p)) sample_order" by code_simp
  moreover have "vw_id sample_view \<notin> (\<lambda>p. vw_id (pl_view p)) ` set sample_order" by code_simp
  moreover have "order_position sample_order ''v1'' = Some 0" by code_simp
  ultimately obtain key where "key_after sample_order (Some ''v1'') = Ok key"
    "map pl_view (order_insert key sample_view sample_order) =
      take 1 (map pl_view sample_order) @ sample_view # drop 1 (map pl_view sample_order)"
    using adding_a_view_places_it [of sample_order sample_view 1 "Some ''v1''"] by auto
  moreover from this(2) have "map vw_id (map pl_view (order_insert key sample_view sample_order)) =
      map vw_id (take 1 (map pl_view sample_order) @ sample_view # drop 1 (map pl_view sample_order))" by (rule arg_cong)
  ultimately show ?thesis by (auto simp: sample_order_def sample_view_def comp_def)
qed

lemma set_boundary_ok:
  assumes "placed_ok pl_sort (\<lambda>p. vw_id (pl_view p)) placed"
  shows "placed_ok pl_sort (\<lambda>p. vw_id (pl_view p)) (set_boundary view b placed)"
proof -
  have "map pl_sort (set_boundary view b placed) = map pl_sort placed"
    "map (\<lambda>p. vw_id (pl_view p)) (set_boundary view b placed) = map (\<lambda>p. vw_id (pl_view p)) placed"
    by (auto simp: set_boundary_def map_update order_position_def position_Some list_update_same_conv split: option.splits)
  moreover have "placed_ok pl_sort (\<lambda>p. vw_id (pl_view p)) ps \<longleftrightarrow>
      sorted_wrt (<) (map pl_sort ps) \<and> (\<forall>k \<in> set (map pl_sort ps). valid_key k) \<and> distinct (map (\<lambda>p. vw_id (pl_view p)) ps)" for ps :: "Placed list"
    by (simp add: placed_ok_def sorted_wrt_map list_all_iff)
  ultimately show ?thesis using assms by metis
qed

text \<open>The steps of a loaded order: placing a new view, removing one, moving a section boundary.\<close>

inductive order_step :: "Placed list \<Rightarrow> Placed list \<Rightarrow> bool" where
  order_add: "key_after placed after = Ok key \<Longrightarrow> vw_id view \<notin> (\<lambda>p. vw_id (pl_view p)) ` set placed \<Longrightarrow>
    order_step placed (order_insert key view placed)"
| order_drop: "order_step placed (order_remove view placed)"
| order_boundary: "order_step placed (set_boundary view b placed)"

inductive_cases order_stepE: "order_step placed placed'"

lemma key_after_place:
  assumes "key_after placed after = Ok key"
  shows "\<exists>i. case after of None \<Rightarrow> i = 0 | Some v \<Rightarrow> \<exists>j. order_position placed v = Some j \<and> i = j + 1"
  using assms by (auto simp: key_after_def split: option.splits)

lemma order_step_ok:
  assumes "order_step placed placed'" "placed_ok pl_sort (\<lambda>p. vw_id (pl_view p)) placed"
  shows "placed_ok pl_sort (\<lambda>p. vw_id (pl_view p)) placed'"
  using assms
proof (cases rule: order_step.cases)
  case (order_add after key view)
  obtain i where "case after of None \<Rightarrow> i = 0 | Some v \<Rightarrow> \<exists>j. order_position placed v = Some j \<and> i = j + 1"
    using key_after_place [OF order_add(2)] by blast
  from key_after_ok [OF assms(2) this] order.insert_ok [OF assms(2), where p = "\<lparr> pl_sort = key, pl_view = view \<rparr>" and i = i] order_add
  show ?thesis by auto
next
  case (order_drop view)
  then show ?thesis using order.remove_ok assms(2) by simp
next
  case (order_boundary view b)
  then show ?thesis using set_boundary_ok assms(2) by simp
qed

text \<open>
  C17: an order stays an order. From the empty page, after any sequence of added, removed and re-bounded views,
  the sort keys are valid and strictly increasing and no view is placed twice.
\<close>

theorem reachable_orders_ok:
  assumes "order_step\<^sup>*\<^sup>* [] placed"
  shows "placed_ok pl_sort (\<lambda>p. vw_id (pl_view p)) placed"
  using assms
proof (induction rule: rtranclp_induct)
  case base
  show ?case by (simp add: placed_ok_def)
next
  case (step placed placed')
  then show ?case using order_step_ok by blast
qed

theorem reachable_orders_ok_witness:
  "\<exists>placed. order_step\<^sup>*\<^sup>* [] placed \<and> map pl_view placed = [sample_view] \<and> placed_ok pl_sort (\<lambda>p. vw_id (pl_view p)) placed"
proof -
  have "key_after [] None = Ok ''a0''" by code_simp
  then have "order_step [] (order_insert ''a0'' sample_view [])" by (intro order_add) auto
  then have step: "order_step\<^sup>*\<^sup>* [] (order_insert ''a0'' sample_view [])" by (rule r_into_rtranclp)
  have "map pl_view (order_insert ''a0'' sample_view []) = [sample_view]"
    by (simp add: order_insert_def vec_insert_def partition_point_def)
  with step reachable_orders_ok [OF step] show ?thesis
    by (intro exI [of _ "order_insert ''a0'' sample_view []"] conjI)
qed

text \<open>The rows of a database keep the same contract.\<close>

lemma key_at_ok:
  assumes "placed_ok ix_sort ix_id rows" "key_at rows place = Ok key" "ident \<notin> ix_id ` set rows"
  shows "placed_ok ix_sort ix_id (index_insert key ident rows)"
proof -
  have "\<exists>i \<le> length rows. key_around (\<lambda>i. map_option ix_sort (get_at rows i)) i = Ok key"
  proof (cases place)
    case (After after)
    then obtain j where "position (\<lambda>r. ix_id r = after) rows = Some j"
      "key_around (\<lambda>i. map_option ix_sort (get_at rows i)) (j + 1) = Ok key"
      using assms(2) by (auto simp: key_at_def index_position_def)
    then show ?thesis by (intro exI [of _ "j + 1"]) (simp add: position_Some)
  qed (use assms(2) in \<open>auto simp: key_at_def\<close>)
  then obtain i where i: "i \<le> length rows" "key_around (\<lambda>i. map_option ix_sort (get_at rows i)) i = Ok key" by blast
  let ?p = "\<lparr> ix_sort = key, ix_id = ident, ix_cells = [] \<rparr>"
  have "valid_key key" "\<forall>j < i. ix_sort (rows ! j) < key" "\<forall>j < length rows. i \<le> j \<longrightarrow> key < ix_sort (rows ! j)"
    using rows.key_around_ok [OF assms(1) i(1)] i(2) by auto
  then show ?thesis using rows.insert_ok [OF assms(1) i(1), where p = ?p] assms(3) by simp
qed

lemma index_remove_ok: "placed_ok ix_sort ix_id rows \<Longrightarrow> placed_ok ix_sort ix_id (index_remove row rows)"
  by (rule rows.remove_ok)

end
