(* ===== verification/Liquid_Database.thy ===== *)
theory Liquid_Database
  imports View_Order Calendar "HOL-Library.Multiset"
begin

text \<open>
  Database blocks of the Liquid workspace, \<open>liquid/liquid-core/src/database.rs\<close>: the kinds of fields, the
  values a cell takes, reading a database and its row index from a document, and the sorted and filtered
  windows of rows; and the in-memory store of \<open>store.rs\<close> with its paged history.

  Writing to the document is the Automerge library's; what the code decides before a write, the value to
  store or the refusal, is \<open>cell_scalar\<close>. Lower-casing of Unicode text is the parameter \<open>lower\<close>.
\<close>

subsection \<open>Fields\<close>

datatype FieldKind = FieldText | FieldNumber | FieldSelect | FieldDate | FieldCheckbox

definition kind_name :: "FieldKind \<Rightarrow> string" where
  "kind_name k =
    (case k of FieldText \<Rightarrow> ''text'' | FieldNumber \<Rightarrow> ''number'' | FieldSelect \<Rightarrow> ''select'' | FieldDate \<Rightarrow> ''date''
     | FieldCheckbox \<Rightarrow> ''checkbox'')"

definition field_kind :: "string option \<Rightarrow> FieldKind option" where
  "field_kind name =
    (if name = Some ''text'' then Some FieldText
     else if name = Some ''number'' then Some FieldNumber
     else if name = Some ''select'' then Some FieldSelect
     else if name = Some ''date'' then Some FieldDate
     else if name = Some ''checkbox'' then Some FieldCheckbox
     else None)"

record SelectOption =
  so_id :: string
  so_name :: string
  so_color :: nat

record Field =
  fd_id :: string
  fd_name :: string
  fd_kind :: FieldKind
  fd_options :: "SelectOption list"

record Database =
  db_name :: string
  db_fields :: "Field list"

record Row =
  rw_id :: string
  rw_cells :: "(string \<times> Cell) list"

definition database_entry :: "doc_value \<Rightarrow> string \<Rightarrow> doc_value action" where
  "database_entry doc block =
     and_then (ok_or (Refused NotFound) (live doc ''blocks'' block)) (\<lambda>entry.
     if doc_string entry ''kind'' \<noteq> Some ''database'' then Err (Refused NotFound) else Ok entry)"

definition database_map :: "doc_value \<Rightarrow> string \<Rightarrow> doc_value action" where
  "database_map entry key = ok_or (Refused (DocumentError (''no '' @ key @ '' map''))) (child entry key)"

definition database_field :: "doc_value \<Rightarrow> string \<Rightarrow> string \<Rightarrow> (doc_value \<times> FieldKind) action" where
  "database_field doc block field =
     and_then (database_entry doc block) (\<lambda>entry.
     and_then (database_map entry ''fields'') (\<lambda>all_fields.
     and_then (ok_or (Refused NotFound) (live_in all_fields field)) (\<lambda>entry.
     and_then (ok_or (Refused NotFound) (field_kind (doc_string entry ''kind''))) (\<lambda>kind.
     Ok (entry, kind)))))"

definition database_row :: "doc_value \<Rightarrow> string \<Rightarrow> string \<Rightarrow> doc_value action" where
  "database_row doc block row =
     and_then (database_entry doc block) (\<lambda>entry.
     and_then (database_map entry ''rows'') (\<lambda>all_rows.
     ok_or (Refused NotFound) (live_in all_rows row)))"

text \<open>\<open>str::parse::<u8>\<close>, which takes an optional plus sign.\<close>

definition parse_u8 :: "string \<Rightarrow> nat option" where
  "parse_u8 s = (case parse_nat (case s of c # t \<Rightarrow> if c = CHR ''+'' then t else s | [] \<Rightarrow> s) of
     Some n \<Rightarrow> if n < 256 then Some n else None | None \<Rightarrow> None)"

definition select_option :: "Entry \<Rightarrow> SelectOption" where
  "select_option e = \<lparr> so_id = en_id e, so_name = unwrap_or_default (entry_get e ''name''),
     so_color = (case Option.bind (entry_get e ''color'') parse_u8 of Some n \<Rightarrow> n | None \<Rightarrow> 0) \<rparr>"

definition read_field :: "doc_value \<Rightarrow> Entry \<Rightarrow> Field option" where
  "read_field entry e =
     Option.bind (field_kind (entry_get e ''kind'')) (\<lambda>kind.
     Option.bind (if kind = FieldSelect
       then Option.bind (Option.bind (child entry ''fields'') (\<lambda>all_fields. child all_fields (en_id e))) (\<lambda>field.
         Some (case child field ''options'' of Some options \<Rightarrow> map select_option (sorted_in options) | None \<Rightarrow> []))
       else Some []) (\<lambda>options.
     Some \<lparr> fd_id = en_id e, fd_name = unwrap_or_default (entry_get e ''name''), fd_kind = kind, fd_options = options \<rparr>))"

definition database_read :: "doc_value \<Rightarrow> string \<Rightarrow> Database option action" where
  "database_read doc block =
    (case database_entry doc block of
       Err _ \<Rightarrow> Ok None
     | Ok entry \<Rightarrow>
         and_then (database_map entry ''fields'') (\<lambda>all_fields.
         Ok (Some \<lparr> db_name = unwrap_or_default (doc_string entry ''name''),
                    db_fields = List.map_filter (read_field entry) (sorted_in all_fields) \<rparr>)))"

subsection \<open>Cells\<close>

definition stored_cell :: "FieldKind \<Rightarrow> scalar \<Rightarrow> Cell option" where
  "stored_cell kind v =
    (case (kind, v) of
       (FieldText, Str text) \<Rightarrow> Some (CellText text)
     | (FieldNumber, F64 number) \<Rightarrow> Some (CellNumber number)
     | (FieldDate, Str date) \<Rightarrow> Some (CellDate date)
     | (FieldCheckbox, Boolean ticked) \<Rightarrow> Some (CellCheckbox ticked)
     | (FieldSelect, Str option) \<Rightarrow> Some (CellSelect option)
     | _ \<Rightarrow> None)"

definition read_cells :: "doc_value \<Rightarrow> string \<Rightarrow> (string \<times> FieldKind) list \<Rightarrow> (string \<times> Cell) list" where
  "read_cells all_rows row kinds =
    (case Option.bind (child all_rows row) (\<lambda>r. child r ''cells'') of
       None \<Rightarrow> []
     | Some cells \<Rightarrow> List.map_filter (\<lambda>(field, kind).
         case doc_get cells field of
           Some (Scalar v) \<Rightarrow> map_option (\<lambda>c. (field, c)) (stored_cell kind v)
         | _ \<Rightarrow> None) kinds)"

definition index_read :: "doc_value \<Rightarrow> string \<Rightarrow> Indexed list action" where
  "index_read doc block =
     and_then (database_entry doc block) (\<lambda>entry.
     and_then (database_map entry ''fields'') (\<lambda>all_fields.
     let kinds = List.map_filter (\<lambda>e. map_option (\<lambda>k. (en_id e, k)) (field_kind (entry_get e ''kind''))) (sorted_in all_fields) in
     and_then (database_map entry ''rows'') (\<lambda>all_rows.
     Ok (map (\<lambda>e. \<lparr> ix_sort = unwrap_or_default (entry_get e ''sort''), ix_id = en_id e, ix_cells = read_cells all_rows (en_id e) kinds \<rparr>)
       (sorted_in all_rows)))))"

text \<open>Whether a text is a real day \<open>YYYY-MM-DD\<close>.\<close>

definition date_number :: "nat \<Rightarrow> string option \<Rightarrow> nat option" where
  "date_number n text = Option.bind text (\<lambda>text. if length text = n \<and> list_all is_digit text then parse_nat text else None)"

definition day_limit :: "nat \<Rightarrow> nat \<Rightarrow> nat option" where
  "day_limit year month =
    (let leap = year mod 4 = 0 \<and> (year mod 100 \<noteq> 0 \<or> year mod 400 = 0) in
     if month \<in> {1, 3, 5, 7, 8, 10, 12} then Some 31
     else if month \<in> {4, 6, 9, 11} then Some 30
     else if month = 2 \<and> leap then Some 29
     else if month = 2 then Some 28 else None)"

definition valid_day :: "string \<Rightarrow> bool" where
  "valid_day date =
    (let parts = split_on CHR ''-'' date in
     case (date_number 4 (get_at parts 0), date_number 2 (get_at parts 1), date_number 2 (get_at parts 2), get_at parts 3) of
       (Some year, Some month, Some of_month, None) \<Rightarrow>
         (case day_limit year month of Some days \<Rightarrow> 1 \<le> of_month \<and> of_month \<le> days | None \<Rightarrow> False)
     | _ \<Rightarrow> False)"

text \<open>Numbers are IEEE doubles by their bits: \<open>is_finite\<close>, the sum with zero, equality and \<open>total_cmp\<close>.\<close>

definition double_exponent :: "64 word \<Rightarrow> nat" where
  "double_exponent b = unat b div 2 ^ 52 mod 2048"

definition double_is_zero :: "64 word \<Rightarrow> bool" where
  "double_is_zero b \<longleftrightarrow> unat b mod 2 ^ 63 = 0"

definition double_is_nan :: "64 word \<Rightarrow> bool" where
  "double_is_nan b \<longleftrightarrow> double_exponent b = 2047 \<and> unat b mod 2 ^ 52 \<noteq> 0"

definition double_finite :: "64 word \<Rightarrow> bool" where
  "double_finite b \<longleftrightarrow> double_exponent b \<noteq> 2047"

definition double_plus_zero :: "64 word \<Rightarrow> 64 word" where
  "double_plus_zero b = (if double_is_zero b then 0 else b)"

definition double_eq :: "64 word \<Rightarrow> 64 word \<Rightarrow> bool" where
  "double_eq a b \<longleftrightarrow> \<not> double_is_nan a \<and> \<not> double_is_nan b \<and> (a = b \<or> double_is_zero a \<and> double_is_zero b)"

definition total_key :: "64 word \<Rightarrow> int" where
  "total_key b = (if unat b < 2 ^ 63 then int (unat b) else - 1 - int (unat b mod 2 ^ 63))"

text \<open>What \<open>set_cell\<close> stores: nothing for an empty cell, the scalar, or the refusal of the value.\<close>

definition cell_scalar :: "doc_value \<Rightarrow> FieldKind \<Rightarrow> Cell \<Rightarrow> scalar option action" where
  "cell_scalar field_entry kind v =
    (case (kind, v) of
       (_, CellEmpty) \<Rightarrow> Ok None
     | (FieldText, CellText text) \<Rightarrow> Ok (Some (Str text))
     | (FieldNumber, CellNumber number) \<Rightarrow>
         if double_finite number then Ok (Some (F64 (double_plus_zero number))) else Err (Refused WrongKind)
     | (FieldDate, CellDate date) \<Rightarrow> if valid_day date then Ok (Some (Str date)) else Err (Refused WrongKind)
     | (FieldCheckbox, CellCheckbox ticked) \<Rightarrow> Ok (Some (Boolean ticked))
     | (FieldSelect, CellSelect option) \<Rightarrow>
         and_then (database_map field_entry ''options'') (\<lambda>options.
         and_then (ok_or (Refused NotFound) (live_in options option)) (\<lambda>_. Ok (Some (Str option))))
     | _ \<Rightarrow> Err (Refused WrongKind))"

definition indexed_cell :: "scalar option \<Rightarrow> Cell \<Rightarrow> Cell" where
  "indexed_cell s v = (case (s, v) of (Some (F64 number), CellNumber _) \<Rightarrow> CellNumber number | _ \<Rightarrow> v)"

subsection \<open>Windows of rows\<close>

datatype ordering = Less | Equal | Greater

definition compare_by :: "'a::linorder \<Rightarrow> 'a \<Rightarrow> ordering" where
  "compare_by a b = (if a < b then Less else if a = b then Equal else Greater)"

definition ordering_reverse :: "ordering \<Rightarrow> ordering" where
  "ordering_reverse c = (case c of Less \<Rightarrow> Greater | Equal \<Rightarrow> Equal | Greater \<Rightarrow> Less)"

text \<open>\<open>slice::sort_by\<close>, a stable sort.\<close>

fun insert_by :: "('a \<Rightarrow> 'a \<Rightarrow> ordering) \<Rightarrow> 'a \<Rightarrow> 'a list \<Rightarrow> 'a list" where
  "insert_by cmp x [] = [x]"
| "insert_by cmp x (y # ys) = (if cmp x y = Greater then y # insert_by cmp x ys else x # y # ys)"

definition sort_by :: "('a \<Rightarrow> 'a \<Rightarrow> ordering) \<Rightarrow> 'a list \<Rightarrow> 'a list" where
  "sort_by cmp xs = foldr (insert_by cmp) xs []"

fun str_contains :: "string \<Rightarrow> string \<Rightarrow> bool" where
  "str_contains [] part \<longleftrightarrow> part = []"
| "str_contains (c # text) part \<longleftrightarrow> take (length part) (c # text) = part \<or> str_contains text part"

datatype Match = MatchEmpty | MatchNotEmpty | MatchIs Cell | MatchContains string

record Sort =
  st_field :: string
  st_descending :: bool

record Filter =
  fl_field :: string
  fl_matches :: Match

record RowQuery =
  rq_sort :: "Sort option"
  rq_filter :: "Filter option"
  rq_start :: nat
  rq_limit :: nat

record Rows =
  rs_count :: nat
  rs_rows :: "Row list"

definition cell_matches :: "(string \<Rightarrow> string) \<Rightarrow> Cell option \<Rightarrow> Match \<Rightarrow> bool" where
  "cell_matches lower cell m =
    (case (m, cell) of
       (MatchEmpty, cell) \<Rightarrow> cell = None
     | (MatchNotEmpty, cell) \<Rightarrow> cell \<noteq> None
     | (MatchIs (CellNumber v), Some (CellNumber stored)) \<Rightarrow> double_eq v stored
     | (MatchIs v, cell) \<Rightarrow> cell = Some v
     | (MatchContains part, Some (CellText text)) \<Rightarrow> str_contains (lower text) (lower part)
     | (MatchContains _, _) \<Rightarrow> False)"

definition compare_cells :: "(string \<Rightarrow> string) \<Rightarrow> (string \<Rightarrow> nat option) \<Rightarrow> Cell \<Rightarrow> Cell \<Rightarrow> ordering" where
  "compare_cells lower positions a b =
    (case (a, b) of
       (CellText a, CellText b) \<Rightarrow> compare_by (lower a) (lower b)
     | (CellNumber a, CellNumber b) \<Rightarrow> compare_by (total_key a) (total_key b)
     | (CellDate a, CellDate b) \<Rightarrow> compare_by a b
     | (CellCheckbox a, CellCheckbox b) \<Rightarrow> compare_by a b
     | (CellSelect a, CellSelect b) \<Rightarrow> compare_by (positions a) (positions b)
     | _ \<Rightarrow> Equal)"

definition row_cell :: "string list \<Rightarrow> Indexed \<Rightarrow> string \<Rightarrow> Cell option" where
  "row_cell live_ids row field = (if field \<in> set live_ids then map_of (ix_cells row) field else None)"

definition compare_rows :: "(string \<Rightarrow> string) \<Rightarrow> (string \<Rightarrow> nat option) \<Rightarrow> string list \<Rightarrow> Sort \<Rightarrow> Indexed \<Rightarrow> Indexed \<Rightarrow> ordering" where
  "compare_rows lower positions live_ids s a b =
    (case (row_cell live_ids a (st_field s), row_cell live_ids b (st_field s)) of
       (None, None) \<Rightarrow> Equal
     | (None, Some _) \<Rightarrow> Greater
     | (Some _, None) \<Rightarrow> Less
     | (Some x, Some y) \<Rightarrow>
         let c = compare_cells lower positions x y in if st_descending s then ordering_reverse c else c)"

definition shown_row :: "string list \<Rightarrow> Indexed \<Rightarrow> Row" where
  "shown_row live_ids row =
     \<lparr> rw_id = ix_id row,
       rw_cells = sort_key fst (List.map_filter (\<lambda>f. map_option (\<lambda>c. (f, c)) (map_of (ix_cells row) f)) live_ids) \<rparr>"

definition option_positions :: "Field list \<Rightarrow> string \<Rightarrow> nat option" where
  "option_positions all_fields =
    (let ids = map so_id (concat (map fd_options all_fields)) in map_of (rev (zip ids [0..<length ids])))"

definition kept_rows :: "(string \<Rightarrow> string) \<Rightarrow> string list \<Rightarrow> RowQuery \<Rightarrow> Indexed list \<Rightarrow> Indexed list" where
  "kept_rows lower live_ids query index =
    (case rq_filter query of
       Some f \<Rightarrow> filter (\<lambda>row. cell_matches lower (row_cell live_ids row (fl_field f)) (fl_matches f)) index
     | None \<Rightarrow> index)"

definition database_rows :: "(string \<Rightarrow> string) \<Rightarrow> doc_value \<Rightarrow> Indexed list \<Rightarrow> string \<Rightarrow> RowQuery \<Rightarrow> Rows action" where
  "database_rows lower doc index block query =
     and_then (database_read doc block) (\<lambda>r.
     and_then (ok_or (Refused NotFound) r) (\<lambda>database.
     let live_ids = map fd_id (db_fields database) in
     if rq_filter query = None \<and> rq_sort query = None
     then Ok \<lparr> rs_count = length index, rs_rows = map (shown_row live_ids) (take (rq_limit query) (drop (rq_start query) index)) \<rparr>
     else
       let rows = kept_rows lower live_ids query index;
           rows = (case rq_sort query of
             Some s \<Rightarrow> sort_by (compare_rows lower (option_positions (db_fields database)) live_ids s) rows
           | None \<Rightarrow> rows)
       in Ok \<lparr> rs_count = length rows, rs_rows = map (shown_row live_ids) (take (rq_limit query) (drop (rq_start query) rows)) \<rparr>))"

subsection \<open>The in-memory store\<close>

text \<open>\<open>liquid/liquid-core/src/store.rs\<close>; an Action is its identity here, the rest travels with it unchanged.\<close>

datatype doc_name = WorkspaceDocument | AreaDocument string | PageDocument string

definition document_key :: "doc_name \<Rightarrow> string" where
  "document_key d = (case d of WorkspaceDocument \<Rightarrow> ''workspace'' | AreaDocument a \<Rightarrow> ''area/'' @ a | PageDocument p \<Rightarrow> ''page/'' @ p)"

datatype store_write = AppendChunk doc_name string | ReplaceSnapshot doc_name string

record 'a MemoryStore =
  ms_chunks :: "doc_name \<Rightarrow> string list"
  ms_actions :: "'a list"

fun apply_write :: "(doc_name \<Rightarrow> string list) \<Rightarrow> store_write \<Rightarrow> doc_name \<Rightarrow> string list" where
  "apply_write chunks (AppendChunk d chunk) = chunks(d := chunks d @ [chunk])"
| "apply_write chunks (ReplaceSnapshot d snapshot) = chunks(d := [snapshot])"

definition store_commit :: "'a MemoryStore \<Rightarrow> 'a \<Rightarrow> store_write list \<Rightarrow> 'a MemoryStore" where
  "store_commit s act writes = s\<lparr> ms_chunks := foldl apply_write (ms_chunks s) writes, ms_actions := ms_actions s @ [act] \<rparr>"

definition store_history :: "('a \<Rightarrow> string) \<Rightarrow> 'a MemoryStore \<Rightarrow> string option \<Rightarrow> nat \<Rightarrow> 'a list action" where
  "store_history action_id s before limit =
     and_then (case before of
         None \<Rightarrow> Ok (length (ms_actions s))
       | Some i \<Rightarrow> ok_or (Refused NotFound) (position (\<lambda>a. action_id a = i) (ms_actions s))) (\<lambda>end_at.
     Ok (take limit (rev (take end_at (ms_actions s)))))"

subsection \<open>Stable sorting\<close>

definition ordered_on :: "('a \<Rightarrow> 'a \<Rightarrow> ordering) \<Rightarrow> 'a set \<Rightarrow> bool" where
  "ordered_on cmp S \<longleftrightarrow> (\<forall>x \<in> S. \<forall>y \<in> S. cmp y x = ordering_reverse (cmp x y)) \<and>
     (\<forall>x \<in> S. \<forall>y \<in> S. \<forall>z \<in> S. cmp x y \<noteq> Greater \<longrightarrow> cmp y z \<noteq> Greater \<longrightarrow> cmp x z \<noteq> Greater)"

lemma ordered_on_reverse: "ordered_on cmp S \<Longrightarrow> x \<in> S \<Longrightarrow> y \<in> S \<Longrightarrow> cmp y x = ordering_reverse (cmp x y)"
  unfolding ordered_on_def by blast

lemma ordered_on_trans:
  "ordered_on cmp S \<Longrightarrow> x \<in> S \<Longrightarrow> y \<in> S \<Longrightarrow> z \<in> S \<Longrightarrow> cmp x y \<noteq> Greater \<Longrightarrow> cmp y z \<noteq> Greater \<Longrightarrow> cmp x z \<noteq> Greater"
  unfolding ordered_on_def by blast

lemma ordered_on_subset:
  assumes "ordered_on cmp S" "T \<subseteq> S"
  shows "ordered_on cmp T"
  unfolding ordered_on_def
proof (intro conjI ballI impI)
  fix x y assume "x \<in> T" "y \<in> T"
  then show "cmp y x = ordering_reverse (cmp x y)" using ordered_on_reverse [OF assms(1)] assms(2) by blast
next
  fix x y z assume "x \<in> T" "y \<in> T" "z \<in> T" and le: "cmp x y \<noteq> Greater" "cmp y z \<noteq> Greater"
  then show "cmp x z \<noteq> Greater" using ordered_on_trans [OF assms(1) _ _ _ le] assms(2) by blast
qed

lemma ordering_reverse_simps [simp]:
  "ordering_reverse c = Greater \<longleftrightarrow> c = Less" "ordering_reverse c = Less \<longleftrightarrow> c = Greater" "ordering_reverse c = Equal \<longleftrightarrow> c = Equal"
  "ordering_reverse (ordering_reverse c) = c"
  by (cases c; simp add: ordering_reverse_def)+

lemma ordered_on_equal:
  assumes "ordered_on cmp S" "x \<in> S" "y \<in> S" "z \<in> S" "cmp z x = Equal" "cmp z y = Equal"
  shows "cmp x y = Equal"
proof -
  have eq: "cmp x z = Equal" "cmp y z = Equal"
    by (simp_all add: ordered_on_reverse [OF assms(1,4,2)] ordered_on_reverse [OF assms(1,4,3)] assms(5,6))
  have "cmp x y \<noteq> Greater" by (rule ordered_on_trans [OF assms(1,2,4,3)]) (simp_all add: eq assms(6))
  moreover have "cmp y x \<noteq> Greater" by (rule ordered_on_trans [OF assms(1,3,4,2)]) (simp_all add: eq assms(5))
  then have "cmp x y \<noteq> Less" by (simp add: ordered_on_reverse [OF assms(1-3)])
  ultimately show ?thesis by (cases "cmp x y") auto
qed

lemma insert_by_mset [simp]: "mset (insert_by cmp x ys) = add_mset x (mset ys)"
  by (induction ys) auto

lemma sort_by_mset [simp]: "mset (sort_by cmp xs) = mset xs"
  by (induction xs) (auto simp: sort_by_def)

lemma sort_by_set [simp]: "set (sort_by cmp xs) = set xs"
  by (metis set_mset_mset sort_by_mset)

lemma sort_by_Cons: "sort_by cmp (x # xs) = insert_by cmp x (sort_by cmp xs)"
  by (simp add: sort_by_def)

lemma insert_by_set [simp]: "set (insert_by cmp x ys) = insert x (set ys)"
  by (induction ys) auto

lemma insert_by_sorted:
  assumes "ordered_on cmp (insert x (set ys))" "sorted_wrt (\<lambda>a b. cmp a b \<noteq> Greater) ys"
  shows "sorted_wrt (\<lambda>a b. cmp a b \<noteq> Greater) (insert_by cmp x ys)"
  using assms
proof (induction ys)
  case (Cons y ys)
  have sub: "ordered_on cmp (insert x (set ys))" by (rule ordered_on_subset [OF Cons.prems(1)]) auto
  show ?case
  proof (cases "cmp x y = Greater")
    case True
    then have "cmp y x \<noteq> Greater" by (subst ordered_on_reverse [OF Cons.prems(1), of x y]) auto
    with True Cons.IH [OF sub] Cons.prems(2) show ?thesis by simp
  next
    case False
    have "cmp x z \<noteq> Greater" if "z \<in> set ys" for z
      using ordered_on_trans [OF Cons.prems(1), of x y z] False Cons.prems(2) that by simp
    with False Cons.prems(2) show ?thesis by simp
  qed
qed simp

lemma insert_by_stable:
  assumes "ordered_on cmp (insert z (insert x (set ys)))"
  shows "filter (\<lambda>y. cmp z y = Equal) (insert_by cmp x ys) = filter (\<lambda>y. cmp z y = Equal) (x # ys)"
proof (cases "cmp z x = Equal")
  case True
  have "filter (\<lambda>y. cmp z y = Equal) (insert_by cmp x vs) = x # filter (\<lambda>y. cmp z y = Equal) vs" if "set vs \<subseteq> set ys" for vs
    using that
  proof (induction vs)
    case (Cons v vs)
    have "cmp z v \<noteq> Equal" if "cmp x v = Greater"
      using ordered_on_equal [OF assms, of x v z] Cons.prems True that by auto
    then show ?case using Cons True by auto
  qed (use True in simp)
  then show ?thesis using True by simp
next
  case False
  have "filter (\<lambda>y. cmp z y = Equal) (insert_by cmp x vs) = filter (\<lambda>y. cmp z y = Equal) vs" for vs
    using False by (induction vs) auto
  then show ?thesis using False by simp
qed

lemma sort_by_correct:
  assumes "ordered_on cmp (set xs)"
  shows "sorted_wrt (\<lambda>a b. cmp a b \<noteq> Greater) (sort_by cmp xs)"
    "z \<in> set xs \<Longrightarrow> filter (\<lambda>y. cmp z y = Equal) (sort_by cmp xs) = filter (\<lambda>y. cmp z y = Equal) xs"
proof -
  show "sorted_wrt (\<lambda>a b. cmp a b \<noteq> Greater) (sort_by cmp xs)"
    using assms
  proof (induction xs)
    case (Cons x xs)
    have "ordered_on cmp (set xs)" by (rule ordered_on_subset [OF Cons.prems]) auto
    then show ?case using Cons insert_by_sorted [of cmp x "sort_by cmp xs"] by (simp add: sort_by_Cons)
  qed (simp add: sort_by_def)
  have "filter (\<lambda>y. cmp z y = Equal) (sort_by cmp xs) = filter (\<lambda>y. cmp z y = Equal) xs"
    if "ordered_on cmp (insert z (set xs))" for z
    using that
  proof (induction xs)
    case (Cons x xs)
    have "ordered_on cmp (insert z (set xs))" by (rule ordered_on_subset [OF Cons.prems]) auto
    moreover have "filter (\<lambda>y. cmp z y = Equal) (insert_by cmp x (sort_by cmp xs)) = filter (\<lambda>y. cmp z y = Equal) (x # sort_by cmp xs)"
      by (rule insert_by_stable, rule ordered_on_subset [OF Cons.prems]) auto
    ultimately show ?case using Cons.IH by (simp add: sort_by_Cons)
  qed (simp add: sort_by_def)
  then show "z \<in> set xs \<Longrightarrow> filter (\<lambda>y. cmp z y = Equal) (sort_by cmp xs) = filter (\<lambda>y. cmp z y = Equal) xs"
    using assms by (simp add: insert_absorb)
qed

subsection \<open>Comparing rows\<close>

fun cell_kind :: "Cell \<Rightarrow> FieldKind option" where
  "cell_kind CellEmpty = None"
| "cell_kind (CellText _) = Some FieldText"
| "cell_kind (CellNumber _) = Some FieldNumber"
| "cell_kind (CellSelect _) = Some FieldSelect"
| "cell_kind (CellDate _) = Some FieldDate"
| "cell_kind (CellCheckbox _) = Some FieldCheckbox"

lemma compare_by_ordered: "ordered_on (\<lambda>x y. compare_by (f x) (f y)) S"
  by (auto simp: ordered_on_def compare_by_def ordering_reverse_def)

lemma ordered_on_cong:
  assumes eq: "\<And>x y. x \<in> S \<Longrightarrow> y \<in> S \<Longrightarrow> cmp x y = cmp' x y" and ord: "ordered_on cmp' S"
  shows "ordered_on cmp S"
  unfolding ordered_on_def
proof (intro conjI ballI impI)
  fix x y assume s: "x \<in> S" "y \<in> S"
  then show "cmp y x = ordering_reverse (cmp x y)" unfolding eq [OF s] eq [OF s(2,1)] using ordered_on_reverse [OF ord] by blast
next
  fix x y z assume s: "x \<in> S" "y \<in> S" "z \<in> S" and le: "cmp x y \<noteq> Greater" "cmp y z \<noteq> Greater"
  from le show "cmp x z \<noteq> Greater" unfolding eq [OF s(1,2)] eq [OF s(2,3)] eq [OF s(1,3)] using ordered_on_trans [OF ord s] by blast
qed

lemma compare_cells_ordered: "ordered_on (compare_cells lower positions) {c. cell_kind c = Some k}"
proof (cases k)
  case FieldText
  then show ?thesis
    by (intro ordered_on_cong [OF _ compare_by_ordered [of "\<lambda>c. case c of CellText t \<Rightarrow> lower t | _ \<Rightarrow> []"]])
      (auto simp: compare_cells_def split: Cell.splits)
next
  case FieldNumber
  then show ?thesis
    by (intro ordered_on_cong [OF _ compare_by_ordered [of "\<lambda>c. case c of CellNumber t \<Rightarrow> total_key t | _ \<Rightarrow> 0"]])
      (auto simp: compare_cells_def split: Cell.splits)
next
  case FieldSelect
  then show ?thesis
    by (intro ordered_on_cong [OF _ compare_by_ordered [of "\<lambda>c. case c of CellSelect t \<Rightarrow> positions t | _ \<Rightarrow> None"]])
      (auto simp: compare_cells_def split: Cell.splits)
next
  case FieldDate
  then show ?thesis
    by (intro ordered_on_cong [OF _ compare_by_ordered [of "\<lambda>c. case c of CellDate t \<Rightarrow> t | _ \<Rightarrow> []"]])
      (auto simp: compare_cells_def split: Cell.splits)
next
  case FieldCheckbox
  then show ?thesis
    by (intro ordered_on_cong [OF _ compare_by_ordered [of "\<lambda>c. case c of CellCheckbox t \<Rightarrow> t | _ \<Rightarrow> False"]])
      (auto simp: compare_cells_def split: Cell.splits)
qed

lemma reverse_ordered:
  assumes "ordered_on cmp S"
  shows "ordered_on (\<lambda>x y. ordering_reverse (cmp x y)) S"
proof -
  have flip: "ordering_reverse (cmp x y) = cmp y x" if "x \<in> S" "y \<in> S" for x y
    using ordered_on_reverse [OF assms that] by simp
  have "ordered_on (\<lambda>x y. cmp y x) S"
    unfolding ordered_on_def
  proof (intro conjI ballI impI)
    fix x y assume "x \<in> S" "y \<in> S"
    then show "cmp x y = ordering_reverse (cmp y x)" using ordered_on_reverse [OF assms, of y x] by simp
  next
    fix x y z assume "x \<in> S" "y \<in> S" "z \<in> S" "cmp y x \<noteq> Greater" "cmp z y \<noteq> Greater"
    then show "cmp z x \<noteq> Greater" using ordered_on_trans [OF assms, of z y x] by simp
  qed
  then show ?thesis by (rule ordered_on_cong [rotated]) (rule flip)
qed

text \<open>Empty cells last extends an order of the values to an order of the cells.\<close>

definition empty_last :: "('a \<Rightarrow> 'a \<Rightarrow> ordering) \<Rightarrow> 'a option \<Rightarrow> 'a option \<Rightarrow> ordering" where
  "empty_last cmp a b =
    (case (a, b) of (None, None) \<Rightarrow> Equal | (None, Some _) \<Rightarrow> Greater | (Some _, None) \<Rightarrow> Less | (Some x, Some y) \<Rightarrow> cmp x y)"

lemma empty_last_ordered:
  assumes "ordered_on cmp S"
  shows "ordered_on (empty_last cmp) (insert None (Some ` S))"
  unfolding ordered_on_def
proof (intro conjI ballI impI)
  fix x y assume "x \<in> insert None (Some ` S)" "y \<in> insert None (Some ` S)"
  then show "empty_last cmp y x = ordering_reverse (empty_last cmp x y)"
    by (cases x; cases y) (auto simp: empty_last_def ordering_reverse_def [of Equal] ordering_reverse_def [of Less]
        ordering_reverse_def [of Greater] intro: ordered_on_reverse [OF assms])
next
  fix x y z
  assume "x \<in> insert None (Some ` S)" "y \<in> insert None (Some ` S)" "z \<in> insert None (Some ` S)"
    and le: "empty_last cmp x y \<noteq> Greater" "empty_last cmp y z \<noteq> Greater"
  then show "empty_last cmp x z \<noteq> Greater"
    by (cases x; cases y; cases z) (auto simp: empty_last_def dest: ordered_on_trans [OF assms])
qed

lemma ordered_on_image: "ordered_on cmp (f ` S) \<Longrightarrow> ordered_on (\<lambda>x y. cmp (f x) (f y)) S"
  unfolding ordered_on_def by blast

lemma compare_rows_eq:
  "compare_rows lower positions live_ids s =
     (\<lambda>a b. empty_last (\<lambda>x y. if st_descending s then ordering_reverse (compare_cells lower positions x y)
         else compare_cells lower positions x y) (row_cell live_ids a (st_field s)) (row_cell live_ids b (st_field s)))"
  by (auto simp: fun_eq_iff compare_rows_def empty_last_def Let_def split: option.splits)

lemma compare_rows_ordered:
  assumes "\<And>r c. r \<in> S \<Longrightarrow> row_cell live_ids r (st_field s) = Some c \<Longrightarrow> cell_kind c = Some k"
  shows "ordered_on (compare_rows lower positions live_ids s) S"
proof -
  let ?cmp = "\<lambda>x y. if st_descending s then ordering_reverse (compare_cells lower positions x y) else compare_cells lower positions x y"
  have "ordered_on ?cmp {c. cell_kind c = Some k}"
    using compare_cells_ordered [of lower positions k] reverse_ordered [OF compare_cells_ordered [of lower positions k]]
    by (cases "st_descending s") simp_all
  then have "ordered_on (empty_last ?cmp) (insert None (Some ` {c. cell_kind c = Some k}))" by (rule empty_last_ordered)
  moreover have "(\<lambda>r. row_cell live_ids r (st_field s)) ` S \<subseteq> insert None (Some ` {c. cell_kind c = Some k})"
  proof (rule image_subsetI)
    fix r assume "r \<in> S"
    then show "row_cell live_ids r (st_field s) \<in> insert None (Some ` {c. cell_kind c = Some k})"
      using assms by (cases "row_cell live_ids r (st_field s)") auto
  qed
  ultimately have "ordered_on (empty_last ?cmp) ((\<lambda>r. row_cell live_ids r (st_field s)) ` S)" by (rule ordered_on_subset)
  then show ?thesis unfolding compare_rows_eq by (rule ordered_on_image)
qed

text \<open>
  C14: a window of rows is right. The answer counts the rows that pass the filter and shows a slice of one
  arrangement of them: without a sort the index order, with one an arrangement in which no row comes after a
  greater one, empty cells last either way, and rows with equal cells keep their own order. The cells of the
  sorted field have the kind of that field.
\<close>

theorem database_rows_correct:
  assumes "database_read doc block = Ok (Some database)" "live_ids = map fd_id (db_fields database)"
    "kept = kept_rows lower live_ids query index"
    "\<And>s r c. rq_sort query = Some s \<Longrightarrow> r \<in> set kept \<Longrightarrow> row_cell live_ids r (st_field s) = Some c \<Longrightarrow> cell_kind c = Some k"
  shows "\<exists>arranged. database_rows lower doc index block query =
      Ok \<lparr> rs_count = length kept, rs_rows = map (shown_row live_ids) (take (rq_limit query) (drop (rq_start query) arranged)) \<rparr> \<and>
    mset arranged = mset kept \<and> (rq_sort query = None \<longrightarrow> arranged = kept) \<and>
    (\<forall>s. rq_sort query = Some s \<longrightarrow>
      (let cmp = compare_rows lower (option_positions (db_fields database)) live_ids s in
       sorted_wrt (\<lambda>a b. cmp a b \<noteq> Greater) arranged \<and>
       (\<forall>z \<in> set kept. filter (\<lambda>y. cmp z y = Equal) arranged = filter (\<lambda>y. cmp z y = Equal) kept)))"
proof (cases "rq_sort query")
  case None
  then have "database_rows lower doc index block query =
      Ok \<lparr> rs_count = length kept, rs_rows = map (shown_row live_ids) (take (rq_limit query) (drop (rq_start query) kept)) \<rparr>"
    using assms(1-3) by (cases "rq_filter query") (auto simp: database_rows_def Let_def kept_rows_def)
  with None show ?thesis by auto
next
  case (Some s)
  let ?cmp = "compare_rows lower (option_positions (db_fields database)) live_ids s"
  have "ordered_on ?cmp (set kept)" using assms(4) [OF Some] by (rule compare_rows_ordered)
  note sorted = sort_by_correct [OF this]
  have "database_rows lower doc index block query =
      Ok \<lparr> rs_count = length kept, rs_rows = map (shown_row live_ids) (take (rq_limit query) (drop (rq_start query) (sort_by ?cmp kept))) \<rparr>"
    using Some assms(1-3) mset_eq_length [OF sort_by_mset [of ?cmp kept]] by (simp add: database_rows_def Let_def)
  with Some sorted show ?thesis by (intro exI [of _ "sort_by ?cmp kept"]) (simp add: Let_def)
qed

definition sample_doc :: doc_value where
  "sample_doc = Map [(''blocks'', Map [(''b1'', Map [(''deleted'', Scalar (Boolean False)), (''kind'', Scalar (Str ''database'')),
     (''name'', Scalar (Str ''Tasks'')),
     (''fields'', Map [(''f1'', Map [(''deleted'', Scalar (Boolean False)), (''kind'', Scalar (Str ''text'')),
       (''name'', Scalar (Str ''Name'')), (''sort'', Scalar (Str ''a0''))])]),
     (''rows'', Map [])])])]"

definition sample_index :: "Indexed list" where
  "sample_index = [\<lparr> ix_sort = ''a0'', ix_id = ''r1'', ix_cells = [] \<rparr>, \<lparr> ix_sort = ''a1'', ix_id = ''r2'', ix_cells = [(''f1'', CellText ''b'')] \<rparr>,
     \<lparr> ix_sort = ''a2'', ix_id = ''r3'', ix_cells = [(''f1'', CellText ''a'')] \<rparr>]"

definition sample_query :: RowQuery where
  "sample_query = \<lparr> rq_sort = Some \<lparr> st_field = ''f1'', st_descending = False \<rparr>, rq_filter = None, rq_start = 0, rq_limit = 10 \<rparr>"

definition sample_database :: Database where
  "sample_database = \<lparr> db_name = ''Tasks'', db_fields = [\<lparr> fd_id = ''f1'', fd_name = ''Name'', fd_kind = FieldText, fd_options = [] \<rparr>] \<rparr>"

theorem database_rows_correct_witness:
  "\<exists>arranged. database_rows (\<lambda>s. s) sample_doc sample_index ''b1'' sample_query =
      Ok \<lparr> rs_count = 3, rs_rows = map (shown_row [''f1'']) (take 10 (drop 0 arranged)) \<rparr> \<and> mset arranged = mset sample_index"
proof -
  have read: "database_read sample_doc ''b1'' = Ok (Some sample_database)" by code_simp
  have ids: "[''f1''] = map fd_id (db_fields sample_database)" by code_simp
  have kept: "sample_index = kept_rows (\<lambda>s. s) [''f1''] sample_query sample_index"
    by (simp add: kept_rows_def sample_query_def)
  have kinds: "cell_kind c = Some FieldText"
    if "rq_sort sample_query = Some s" "r \<in> set sample_index" "row_cell [''f1''] r (st_field s) = Some c" for s r c
    using that by (auto simp: sample_index_def sample_query_def row_cell_def)
  have len: "length sample_index = 3" "rq_limit sample_query = 10" "rq_start sample_query = 0" by code_simp+
  obtain arranged where "database_rows (\<lambda>s. s) sample_doc sample_index ''b1'' sample_query =
      Ok \<lparr> rs_count = length sample_index, rs_rows = map (shown_row [''f1'']) (take (rq_limit sample_query) (drop (rq_start sample_query) arranged)) \<rparr>"
    "mset arranged = mset sample_index"
    using database_rows_correct [OF read ids kept, of FieldText] kinds by blast
  then show ?thesis unfolding len by blast
qed

subsection \<open>Days and cells\<close>

lemma digits_no_dash: "list_all is_digit s \<Longrightarrow> CHR ''-'' \<notin> set s"
  by (auto simp: list_all_iff is_digit_def less_eq_char_def)

lemma date_number_Some:
  "date_number n t = Some v \<Longrightarrow> 0 < n \<Longrightarrow> \<exists>s. t = Some s \<and> s = pad_zero n v \<and> v < 10 ^ n"
  using pad_zero_value digits_value_less
  by (auto simp: date_number_def parse_nat_def bind_eq_Some_conv split: if_splits)

lemma date_number_pad: "v < 10 ^ n \<Longrightarrow> 0 < n \<Longrightarrow> date_number n (Some (pad_zero n v)) = Some v"
proof -
  assume "v < 10 ^ n" "0 < n"
  then have "length (pad_zero n v) = n" by (rule length_pad_zero)
  moreover from this have "pad_zero n v \<noteq> []" using \<open>0 < n\<close> by (metis length_greater_0_conv)
  ultimately show ?thesis by (simp add: date_number_def parse_nat_def)
qed

lemma month_days:
  "(case day_limit year month of Some days \<Rightarrow> 1 \<le> d \<and> d \<le> days | None \<Rightarrow> False) \<longleftrightarrow> valid_date (int year) (int month) (int d)"
  by (auto simp: day_limit_def valid_date_def days_in_month_def is_leap_year_def Let_def split: if_splits)

lemma valid_day_parts:
  "valid_day date \<longleftrightarrow> (\<exists>y m d. date_number 4 (get_at (split_on CHR ''-'' date) 0) = Some y \<and>
     date_number 2 (get_at (split_on CHR ''-'' date) 1) = Some m \<and> date_number 2 (get_at (split_on CHR ''-'' date) 2) = Some d \<and>
     get_at (split_on CHR ''-'' date) 3 = None \<and> valid_date (int y) (int m) (int d))"
  unfolding valid_day_def Let_def month_days [symmetric] by (auto split: option.splits)

text \<open>
  C38: a date cell holds a real day. A text is accepted exactly when it writes a day of the civil calendar, the
  one the protocol's timestamps use, as four, two and two digits.
\<close>

theorem valid_day_iff:
  "valid_day date \<longleftrightarrow> (\<exists>year month day. year < 10000 \<and> valid_date (int year) (int month) (int day) \<and>
     date = pad_zero 4 year @ ''-'' @ pad_zero 2 month @ ''-'' @ pad_zero 2 day)" (is "?l \<longleftrightarrow> ?r")
proof
  let ?parts = "split_on CHR ''-'' date"
  assume ?l
  then obtain y m d where *: "date_number 4 (get_at ?parts 0) = Some y" "date_number 2 (get_at ?parts 1) = Some m"
      "date_number 2 (get_at ?parts 2) = Some d" "get_at ?parts 3 = None" and day: "valid_date (int y) (int m) (int d)"
    unfolding valid_day_parts by blast
  note numbers = date_number_Some [OF *(1)] date_number_Some [OF *(2)] date_number_Some [OF *(3)]
  have "length ?parts = 3" using numbers *(4) by (auto simp: get_at_def split: if_splits)
  then obtain a b c where parts: "?parts = [a, b, c]" by (auto simp: numeral_3_eq_3 length_Suc_conv)
  then have "a = pad_zero 4 y" "b = pad_zero 2 m" "c = pad_zero 2 d" "y < 10000"
    using numbers by (auto simp: get_at_def numeral_2_eq_2)
  moreover have "date = a @ ''-'' @ b @ ''-'' @ c" using join_split_on [of "CHR ''-''" date] parts by simp
  ultimately show ?r using day by blast
next
  assume ?r
  then obtain y m d where y: "y < 10000" and day: "valid_date (int y) (int m) (int d)"
    and date: "date = pad_zero 4 y @ ''-'' @ pad_zero 2 m @ ''-'' @ pad_zero 2 d" by blast
  have "m < 100" "d < 100" using day by (auto simp: valid_date_def days_in_month_def split: if_splits)
  moreover have "split_on CHR ''-'' date = [pad_zero 4 y, pad_zero 2 m, pad_zero 2 d]"
    using digits_no_dash [OF pad_zero_digits]
    by (simp add: date split_on_append split_on_free)
  ultimately show ?l
    using y day date_number_pad [of y 4] date_number_pad [of m 2] date_number_pad [of d 2]
    unfolding valid_day_parts by (auto simp: get_at_def)
qed

text \<open>
  C37: the row index agrees with the document. What is stored for an accepted value reads back, as a cell of
  that kind of field, as the value the index keeps; an empty cell stores nothing.
\<close>

theorem stored_cell_reads_back:
  assumes "cell_scalar field_entry kind v = Ok stored"
  shows "(case stored of None \<Rightarrow> v = CellEmpty
    | Some s \<Rightarrow> stored_cell kind s = Some (indexed_cell stored v) \<and> cell_kind (indexed_cell stored v) = Some kind)"
  using assms
  by (cases kind; cases v) (auto simp: cell_scalar_def stored_cell_def indexed_cell_def split: if_splits)

theorem stored_cell_reads_back_witness:
  "stored_cell FieldNumber (F64 0) = Some (indexed_cell (Some (F64 0)) (CellNumber (2 ^ 63)))"
proof -
  have "cell_scalar (Map []) FieldNumber (CellNumber (2 ^ 63)) = Ok (Some (F64 0))" by code_simp
  from stored_cell_reads_back [OF this] show ?thesis by simp
qed

subsection \<open>History\<close>

lemma position_distinct:
  assumes "distinct (map f xs)" "i < length xs"
  shows "position (\<lambda>x. f x = f (xs ! i)) xs = Some i"
  using assms by (auto simp: position_Some distinct_conv_nth)

text \<open>
  Paging through History misses nothing. The first page shows the newest Actions first, and the page before
  the Action at any position continues exactly after it; a name that is no Action is refused.
\<close>

theorem history_pages:
  assumes "distinct (map action_id (ms_actions s))"
  shows "store_history action_id s None limit = Ok (take limit (rev (ms_actions s))) \<and>
    (\<forall>k < length (ms_actions s). store_history action_id s (Some (action_id (rev (ms_actions s) ! k))) limit =
       Ok (take limit (drop (Suc k) (rev (ms_actions s))))) \<and>
    (\<forall>i. i \<notin> action_id ` set (ms_actions s) \<longrightarrow> store_history action_id s (Some i) limit = Err (Refused NotFound))"
proof (intro conjI allI impI)
  let ?as = "ms_actions s"
  show "store_history action_id s None limit = Ok (take limit (rev ?as))" by (simp add: store_history_def)
  fix k assume k: "k < length ?as"
  let ?i = "length ?as - Suc k"
  have "rev ?as ! k = ?as ! ?i" using k by (simp add: rev_nth)
  then have "position (\<lambda>a. action_id a = action_id (rev ?as ! k)) ?as = Some ?i"
    using position_distinct [OF assms, of ?i] k by simp
  moreover have "rev (take ?i ?as) = drop (Suc k) (rev ?as)" using k by (simp add: rev_take rev_drop)
  ultimately show "store_history action_id s (Some (action_id (rev ?as ! k))) limit = Ok (take limit (drop (Suc k) (rev ?as)))"
    by (simp add: store_history_def)
next
  fix i assume "i \<notin> action_id ` set (ms_actions s)"
  then have "position (\<lambda>a. action_id a = i) (ms_actions s) = None" by (auto simp: position_None)
  then show "store_history action_id s (Some i) limit = Err (Refused NotFound)" by (simp add: store_history_def)
qed

definition sample_store :: "string MemoryStore" where
  "sample_store = \<lparr> ms_chunks = (\<lambda>_. []), ms_actions = [''1'', ''2'', ''3''] \<rparr>"

theorem history_pages_witness: "store_history (\<lambda>a. a) sample_store (Some ''3'') 1 = Ok [''2'']"
proof -
  have "distinct (map (\<lambda>a. a) (ms_actions sample_store))" by code_simp
  moreover have "0 < length (ms_actions sample_store)" by code_simp
  ultimately have "store_history (\<lambda>a. a) sample_store (Some (rev (ms_actions sample_store) ! 0)) 1 =
      Ok (take 1 (drop (Suc 0) (rev (ms_actions sample_store))))" using history_pages [of "\<lambda>a. a" sample_store 1] by blast
  then show ?thesis by (simp add: sample_store_def)
qed

end
