(* ===== verification/Script_Values.thy ===== *)
theory Script_Values
  imports Flow_Value Event
begin

text \<open>
  Runtime values of the script language, \<open>core/core-script/src/script/values.rs\<close>, with their contracts and
  predicates from \<open>model.rs\<close>: validating a value against a closed recursive contract, checking a predicate
  against a contract, evaluating it on a value and rendering an Instruction within a byte bound.

  Each message of the code is a constructor of \<open>ScriptValueError\<close> with the data it prints. Unicode
  normalisation is a parameter, as in the protocol.
\<close>

subsection \<open>Contracts and values\<close>

datatype ValueContract =
    ContractBoolean
  | ContractInteger "int option" "int option"
  | ContractString "nat option"
  | ContractList ValueContract "nat option"
  | ContractMap "ValueFieldContract list"
  | ContractSessionObject
and ValueFieldContract = FieldContract (field_name: string) (field_required: bool) (field_contract: ValueContract)

datatype FlowValue =
    ValueBoolean bool
  | ValueInteger string
  | ValueString string
  | ValueList "FlowValue list"
  | ValueMap "(string \<times> FlowValue) list"
  | ValueSessionObject string

datatype ValuePathSegment = PathField string | PathIndex nat

record ValuePredicate =
  vp_path :: "ValuePathSegment list"
  vp_equals :: FlowValue

datatype ScriptValueError =
    SerializationDepth nat
  | InvalidFlowValue FlowValueValidationError
  | ContractDepth string nat
  | ContractMinMax string
  | ContractMaxItems string
  | ContractFieldCount string
  | ContractDuplicateField string string
  | KeyLength string
  | KeyNotNfc string
  | UndeclaredPathField nat string
  | PathIndexBeyond nat nat nat
  | PathSegmentMismatch nat
  | EqualityMismatch ScriptValueError
  | IntegerForm string CanonicalIntegerError
  | IntegerBounds string
  | StringLength string nat
  | ListLength string nat
  | MissingField string string
  | UndeclaredField string string
  | KindMismatch string
  | MissingParameter string
  | InvalidParameter string ScriptValueError
  | UndeclaredParameter string
  | ParameterNotCanonical string CanonicalJsonError
  | RenderedTooLarge nat

type_synonym 'a script = "('a, ScriptValueError) result"

text \<open>The derived serialisation: a value is tagged with its type.\<close>

fun FlowValue_to_value :: "FlowValue \<Rightarrow> json" where
  "FlowValue_to_value (ValueBoolean b) = wrap ''boolean'' (JBool b)"
| "FlowValue_to_value (ValueInteger s) = wrap ''integer'' (JString s)"
| "FlowValue_to_value (ValueString s) = wrap ''string'' (JString s)"
| "FlowValue_to_value (ValueList vs) = wrap ''list'' (JArray (map FlowValue_to_value vs))"
| "FlowValue_to_value (ValueMap m) = wrap ''map'' (JObject (map (\<lambda>(k, v). (k, FlowValue_to_value v)) m))"
| "FlowValue_to_value (ValueSessionObject s) = wrap ''session-object'' (JString s)"

declare and_then_cong [fundef_cong] and each_ok_cong [fundef_cong]

lemma flow_value_entry_size [termination_simp]: "e \<in> set m \<Longrightarrow> size (snd e) < Suc (size_list (size_prod (\<lambda>_. 0) size) m)"
  for m :: "(string \<times> FlowValue) list"
  by (induction m) (auto simp: less_Suc_eq_le intro: trans_le_add2)

fun guard_flow_value_serialization_depth :: "FlowValue \<Rightarrow> nat \<Rightarrow> unit script" where
  "guard_flow_value_serialization_depth v depth =
    (if depth > FLOW_VALUE_MAX_DEPTH_V0 then Err (SerializationDepth depth)
     else case v of
       ValueList vs \<Rightarrow> each_ok (\<lambda>v. guard_flow_value_serialization_depth v (depth + 1)) vs
     | ValueMap m \<Rightarrow> each_ok (\<lambda>e. guard_flow_value_serialization_depth (snd e) (depth + 1)) m
     | _ \<Rightarrow> Ok ())"

definition validate_flow_value :: "text_env \<Rightarrow> FlowValue \<Rightarrow> unit script" where
  "validate_flow_value env v =
     and_then (guard_flow_value_serialization_depth v 1) (\<lambda>_.
     map_err InvalidFlowValue (validate_flow_value_v0 env (FlowValue_to_value v)))"

definition validate_key :: "text_env \<Rightarrow> string \<Rightarrow> string \<Rightarrow> unit script" where
  "validate_key env v path =
     and_then (ensure (\<not> (v = [] \<or> chars_count v > FLOW_VALUE_MAX_KEY_CHARS_V0)) (KeyLength path)) (\<lambda>_.
     ensure (is_nfc env v) (KeyNotNfc path))"

subsection \<open>Validating contracts\<close>

lemma field_contract_size [termination_simp]: "f \<in> set fs \<Longrightarrow> size (field_contract f) < Suc (size_list size fs)"
proof (induction fs)
  case (Cons g fs)
  then show ?case by (cases g) auto
qed simp

fun validate_value_contract_at :: "text_env \<Rightarrow> ValueContract \<Rightarrow> nat \<Rightarrow> string \<Rightarrow> unit script"
  and validate_field_contracts :: "text_env \<Rightarrow> ValueFieldContract list \<Rightarrow> string bset \<Rightarrow> nat \<Rightarrow> string \<Rightarrow> unit script" where
  "validate_value_contract_at env contract depth path =
    (if depth > FLOW_VALUE_MAX_DEPTH_V0 then Err (ContractDepth path depth)
     else case contract of
       ContractInteger lo hi \<Rightarrow>
         ensure (case (lo, hi) of (Some lo, Some hi) \<Rightarrow> \<not> lo > hi | _ \<Rightarrow> True) (ContractMinMax path)
     | ContractList items max_items \<Rightarrow>
         and_then (ensure (case max_items of Some n \<Rightarrow> \<not> n > FLOW_VALUE_MAX_MEMBERS_V0 | None \<Rightarrow> True) (ContractMaxItems path)) (\<lambda>_.
         validate_value_contract_at env items (depth + 1) (path @ ''[]''))
     | ContractMap fs \<Rightarrow>
         and_then (ensure (\<not> length fs > FLOW_VALUE_MAX_MEMBERS_V0) (ContractFieldCount path)) (\<lambda>_.
         validate_field_contracts env fs [] depth path)
     | _ \<Rightarrow> Ok ())"
| "validate_field_contracts env [] names depth path = Ok ()"
| "validate_field_contracts env (FieldContract name required contract # fs) names depth path =
     and_then (validate_key env name (path @ '' field'')) (\<lambda>_.
     and_then (ensure (\<not> bs_contains names name) (ContractDuplicateField path name)) (\<lambda>_.
     and_then (validate_value_contract_at env contract (depth + 1) (path @ ''.'' @ name)) (\<lambda>_.
     validate_field_contracts env fs (bs_insert name names) depth path)))"

definition validate_value_contract_definition :: "text_env \<Rightarrow> ValueContract \<Rightarrow> unit script" where
  "validate_value_contract_definition env contract = validate_value_contract_at env contract 1 ''$''"

subsection \<open>Values against contracts\<close>

definition within_bounds :: "int option \<Rightarrow> int option \<Rightarrow> int \<Rightarrow> bool" where
  "within_bounds lo hi i \<longleftrightarrow> \<not> ((case lo of Some lo \<Rightarrow> i < lo | None \<Rightarrow> False) \<or> (case hi of Some hi \<Rightarrow> i > hi | None \<Rightarrow> False))"

fun validate_against_contract_at :: "FlowValue \<Rightarrow> ValueContract \<Rightarrow> string \<Rightarrow> unit script"
  and validate_items_at :: "nat \<Rightarrow> FlowValue list \<Rightarrow> ValueContract \<Rightarrow> string \<Rightarrow> unit script"
  and validate_fields_at :: "(string \<times> FlowValue) list \<Rightarrow> ValueFieldContract list \<Rightarrow> string \<Rightarrow> unit script" where
  "validate_against_contract_at (ValueBoolean _) ContractBoolean path = Ok ()"
| "validate_against_contract_at (ValueSessionObject _) ContractSessionObject path = Ok ()"
| "validate_against_contract_at (ValueInteger v) (ContractInteger lo hi) path =
     and_then (map_err (IntegerForm path) (parse_canonical_i64 v)) (\<lambda>i. ensure (within_bounds lo hi i) (IntegerBounds path))"
| "validate_against_contract_at (ValueString v) (ContractString max_length) path =
    (case max_length of
       Some n \<Rightarrow> ensure (\<not> chars_count v > n) (StringLength path n)
     | None \<Rightarrow> Ok ())"
| "validate_against_contract_at (ValueList vs) (ContractList items max_items) path =
     and_then (case max_items of Some n \<Rightarrow> ensure (\<not> length vs > n) (ListLength path n) | None \<Rightarrow> Ok ()) (\<lambda>_.
     validate_items_at 0 vs items path)"
| "validate_against_contract_at (ValueMap m) (ContractMap fs) path =
     and_then (validate_fields_at m fs path) (\<lambda>_.
     each_ok (\<lambda>(name, _). ensure (list_ex (\<lambda>f. field_name f = name) fs) (UndeclaredField path name)) m)"
| "validate_against_contract_at _ _ path = Err (KindMismatch path)"
| "validate_items_at index [] items path = Ok ()"
| "validate_items_at index (v # vs) items path =
     and_then (validate_against_contract_at v items (path @ ''['' @ show_nat index @ '']'')) (\<lambda>_.
     validate_items_at (index + 1) vs items path)"
| "validate_fields_at m [] path = Ok ()"
| "validate_fields_at m (FieldContract name required contract # fs) path =
     and_then (case bt_get m name of
         Some v \<Rightarrow> validate_against_contract_at v contract (path @ ''.'' @ name)
       | None \<Rightarrow> ensure (\<not> required) (MissingField path name)) (\<lambda>_.
     validate_fields_at m fs path)"

definition validate_flow_value_against_contract :: "text_env \<Rightarrow> FlowValue \<Rightarrow> ValueContract \<Rightarrow> unit script" where
  "validate_flow_value_against_contract env v contract =
     and_then (validate_flow_value env v) (\<lambda>_.
     and_then (validate_value_contract_definition env contract) (\<lambda>_.
     validate_against_contract_at v contract ''$''))"

subsection \<open>Predicates\<close>

fun validate_path_segments :: "text_env \<Rightarrow> nat \<Rightarrow> ValuePathSegment list \<Rightarrow> unit script" where
  "validate_path_segments env index [] = Ok ()"
| "validate_path_segments env index (PathField field # path) =
     and_then (validate_key env field (''$.path['' @ show_nat index @ ''].field'')) (\<lambda>_. validate_path_segments env (index + 1) path)"
| "validate_path_segments env index (PathIndex _ # path) = validate_path_segments env (index + 1) path"

definition validate_predicate_definition :: "text_env \<Rightarrow> ValuePredicate \<Rightarrow> unit script" where
  "validate_predicate_definition env p =
     and_then (validate_path_segments env 0 (vp_path p)) (\<lambda>_. validate_flow_value env (vp_equals p))"

text \<open>The loops over the segments of a path: on a value, and on a contract.\<close>

fun select_value :: "FlowValue \<Rightarrow> ValuePathSegment list \<Rightarrow> FlowValue option" where
  "select_value v [] = Some v"
| "select_value (ValueMap m) (PathField field # path) = (case bt_get m field of Some v \<Rightarrow> select_value v path | None \<Rightarrow> None)"
| "select_value (ValueList vs) (PathIndex i # path) = (if i < length vs then select_value (vs ! i) path else None)"
| "select_value _ _ = None"

definition predicate_matches :: "text_env \<Rightarrow> FlowValue \<Rightarrow> ValuePredicate \<Rightarrow> bool script" where
  "predicate_matches env v p =
     and_then (validate_flow_value env v) (\<lambda>_.
     and_then (validate_predicate_definition env p) (\<lambda>_.
     Ok (case select_value v (vp_path p) of Some selected \<Rightarrow> selected = vp_equals p | None \<Rightarrow> False)))"

fun select_contract :: "nat \<Rightarrow> ValueContract \<Rightarrow> ValuePathSegment list \<Rightarrow> ValueContract script" where
  "select_contract index contract [] = Ok contract"
| "select_contract index (ContractMap fs) (PathField field # path) =
    (case find (\<lambda>f. field_name f = field) fs of
       Some f \<Rightarrow> select_contract (index + 1) (field_contract f) path
     | None \<Rightarrow> Err (UndeclaredPathField index field))"
| "select_contract index (ContractList items max_items) (PathIndex i # path) =
    (let maximum_items = (case max_items of Some n \<Rightarrow> n | None \<Rightarrow> FLOW_VALUE_MAX_MEMBERS_V0) in
     if i \<ge> maximum_items then Err (PathIndexBeyond index i maximum_items)
     else select_contract (index + 1) items path)"
| "select_contract index _ _ = Err (PathSegmentMismatch index)"

definition validate_predicate_against_contract :: "text_env \<Rightarrow> ValuePredicate \<Rightarrow> ValueContract \<Rightarrow> unit script" where
  "validate_predicate_against_contract env p contract =
     and_then (validate_predicate_definition env p) (\<lambda>_.
     and_then (validate_value_contract_definition env contract) (\<lambda>_.
     and_then (select_contract 0 contract (vp_path p)) (\<lambda>selected.
     map_err EqualityMismatch (validate_flow_value_against_contract env (vp_equals p) selected))))"

subsection \<open>Rendering an Instruction\<close>

record InstructionParameter =
  ip_name :: string
  ip_value_contract :: ValueContract

record BlockIdentity =
  bi_id :: string
  bi_name :: string

record InstructionBlock =
  ib_identity :: BlockIdentity
  ib_prompt :: string
  ib_parameters :: "InstructionParameter list"

text \<open>\<open>str::find\<close>: the position of the first occurrence.\<close>

fun str_find :: "string \<Rightarrow> string \<Rightarrow> nat option" where
  "str_find pat [] = (if pat = [] then Some 0 else None)"
| "str_find pat (c # s) = (if take (length pat) (c # s) = pat then Some 0 else map_option Suc (str_find pat s))"

definition OPEN :: string where "OPEN = ''{{''"
definition CLOSE :: string where "CLOSE = ''}}''"

definition append_instruction_fragment :: "string \<Rightarrow> string \<Rightarrow> nat \<Rightarrow> string script" where
  "append_instruction_fragment rendered fragment max_bytes =
    (case checked_add_usize (length rendered) (length fragment) of
       Some bytes \<Rightarrow> if bytes > max_bytes then Err (RenderedTooLarge max_bytes) else Ok (rendered @ fragment)
     | None \<Rightarrow> Err (RenderedTooLarge max_bytes))"

lemma str_find_less: "str_find pat s = Some i \<Longrightarrow> i \<le> length s"
  by (induction s arbitrary: i) (auto split: if_splits)

lemma str_find_open: "str_find OPEN s = Some i \<Longrightarrow> i + 2 \<le> length s"
proof (induction s arbitrary: i)
  case (Cons c s)
  then show ?case by (cases s) (auto simp: OPEN_def split: if_splits)
qed (simp add: OPEN_def)

text \<open>The cache \<open>replacements\<close> holds the canonical text of the parameters already seen.\<close>

function render_loop :: "text_env \<Rightarrow> (string, FlowValue) btree \<Rightarrow> nat \<Rightarrow> (string, string) btree \<Rightarrow> string \<Rightarrow> string \<Rightarrow> string script" where
  "render_loop env parameters max_bytes replacements rendered remaining =
    (case str_find OPEN remaining of
       None \<Rightarrow> append_instruction_fragment rendered remaining max_bytes
     | Some start \<Rightarrow>
         and_then (append_instruction_fragment rendered (take start remaining) max_bytes) (\<lambda>rendered.
         let after_open = drop (start + 2) remaining in
         case str_find CLOSE after_open of
           None \<Rightarrow> append_instruction_fragment rendered (drop start remaining) max_bytes
         | Some end_at \<Rightarrow>
             let name = take end_at after_open in
             case bt_get parameters name of
               Some v \<Rightarrow>
                 and_then (case bt_get replacements name of
                     Some t \<Rightarrow> Ok (t, replacements)
                   | None \<Rightarrow> and_then (map_err (ParameterNotCanonical name) (canonical_json env (FlowValue_to_value v)))
                       (\<lambda>canonical. Ok (canonical, bt_insert name canonical replacements))) (\<lambda>(t, replacements).
                 and_then (append_instruction_fragment rendered t max_bytes) (\<lambda>rendered.
                 render_loop env parameters max_bytes replacements rendered (drop (end_at + 2) after_open)))
             | None \<Rightarrow>
                 and_then (append_instruction_fragment rendered OPEN max_bytes) (\<lambda>rendered.
                 render_loop env parameters max_bytes replacements rendered after_open)))"
  by pat_completeness auto

termination render_loop
  by (relation "measure (\<lambda>(_, _, _, _, _, remaining). length remaining)") (auto dest: str_find_open)

declare render_loop.simps [simp del]

definition check_parameter :: "text_env \<Rightarrow> (string, FlowValue) btree \<Rightarrow> InstructionParameter \<Rightarrow> unit script" where
  "check_parameter env parameters p =
     and_then (ok_or (MissingParameter (ip_name p)) (bt_get parameters (ip_name p))) (\<lambda>v.
     map_err (InvalidParameter (ip_name p)) (validate_flow_value_against_contract env v (ip_value_contract p)))"

definition render_instruction :: "text_env \<Rightarrow> InstructionBlock \<Rightarrow> (string, FlowValue) btree \<Rightarrow> nat \<Rightarrow> string script" where
  "render_instruction env instruction parameters max_bytes =
     and_then (each_ok (check_parameter env parameters) (ib_parameters instruction)) (\<lambda>_.
     and_then (each_ok (\<lambda>(name, _). ensure (list_ex (\<lambda>p. ip_name p = name) (ib_parameters instruction)) (UndeclaredParameter name)) parameters) (\<lambda>_.
     render_loop env parameters max_bytes [] [] (ib_prompt instruction)))"

subsection \<open>Typing of predicates\<close>

text \<open>The path only names the place in the messages.\<close>

lemma contract_path_irrelevant:
  "validate_against_contract_at v c p = Ok () \<Longrightarrow> validate_against_contract_at v c q = Ok ()"
  "validate_items_at i vs items p = Ok () \<Longrightarrow> validate_items_at j vs items q = Ok ()"
  "validate_fields_at m fs p = Ok () \<Longrightarrow> validate_fields_at m fs q = Ok ()"
proof (induction v c p and i vs items p and m fs p arbitrary: q and j q and q
    rule: validate_against_contract_at_validate_items_at_validate_fields_at.induct)
  case (3 v lo hi path)
  then show ?case by (auto simp: map_err_eq_Err)
next
  case (5 vs items max_items path)
  then show ?case by (auto split: option.splits)
next
  case (6 m fs path)
  then show ?case by auto
qed (auto split: option.splits)

lemma item_conforms:
  "validate_items_at i vs items p = Ok () \<Longrightarrow> k < length vs \<Longrightarrow> validate_against_contract_at (vs ! k) items q = Ok ()"
proof (induction vs arbitrary: i k)
  case (Cons v vs)
  then show ?case by (cases k) (auto intro: contract_path_irrelevant)
qed simp

lemma field_conforms:
  "validate_fields_at m fs p = Ok () \<Longrightarrow> f \<in> set fs \<Longrightarrow> bt_get m (field_name f) = Some v \<Longrightarrow>
   validate_against_contract_at v (field_contract f) q = Ok ()"
proof (induction fs)
  case (Cons g fs)
  then show ?case by (cases g) (auto intro: contract_path_irrelevant)
qed simp

definition selects_nothing_at :: "FlowValue \<Rightarrow> ValuePathSegment \<Rightarrow> bool" where
  "selects_nothing_at u seg \<longleftrightarrow>
     (\<exists>m f. u = ValueMap m \<and> seg = PathField f \<and> bt_get m f = None) \<or> (\<exists>vs i. u = ValueList vs \<and> seg = PathIndex i \<and> length vs \<le> i)"

lemma select_conforms:
  assumes "validate_against_contract_at v c q = Ok ()" "select_contract i c path = Ok c'"
  shows "case select_value v path of
      Some s \<Rightarrow> validate_against_contract_at s c' q' = Ok ()
    | None \<Rightarrow> \<exists>pre seg post u. path = pre @ seg # post \<and> select_value v pre = Some u \<and> selects_nothing_at u seg"
  using assms
proof (induction path arbitrary: v c i q)
  case Nil
  then show ?case by (auto intro: contract_path_irrelevant)
next
  case (Cons seg path)
  have lift: "case select_value v (seg # path) of
      Some s \<Rightarrow> validate_against_contract_at s c' q' = Ok ()
    | None \<Rightarrow> \<exists>pre sg post u. seg # path = pre @ sg # post \<and> select_value v pre = Some u \<and> selects_nothing_at u sg"
    if step: "\<And>xs. select_value v (seg # xs) = select_value w xs" and ok: "validate_against_contract_at w d q = Ok ()"
      and sel: "select_contract (i + 1) d path = Ok c'" for w d q
  proof (cases "select_value w path")
    case None
    then obtain pre sg post u where "path = pre @ sg # post" "select_value w pre = Some u" "selects_nothing_at u sg"
      using Cons.IH [OF ok sel] by auto
    then have "seg # path = (seg # pre) @ sg # post \<and> select_value v (seg # pre) = Some u \<and> selects_nothing_at u sg"
      using step by simp
    moreover have "select_value v (seg # path) = None" using None step by simp
    ultimately show ?thesis by (simp only: option.case) blast
  next
    case (Some s)
    then show ?thesis using Cons.IH [OF ok sel] step by simp
  qed
  have stuck: "case select_value v (seg # path) of
      Some s \<Rightarrow> validate_against_contract_at s c' q' = Ok ()
    | None \<Rightarrow> \<exists>pre sg post u. seg # path = pre @ sg # post \<and> select_value v pre = Some u \<and> selects_nothing_at u sg"
    if "select_value v (seg # path) = None" "selects_nothing_at v seg"
    using that by (auto intro!: exI [of _ "[]"])
  show ?case
  proof (cases seg)
    case (PathField f)
    then obtain fs g where c: "c = ContractMap fs" and g: "find (\<lambda>f'. field_name f' = f) fs = Some g"
        and sel: "select_contract (i + 1) (field_contract g) path = Ok c'"
      using Cons.prems(2) by (cases c) (auto split: option.splits)
    obtain m where v: "v = ValueMap m" and ok: "validate_fields_at m fs q = Ok ()"
      using Cons.prems(1) c by (cases v) auto
    have g': "g \<in> set fs" "field_name g = f" using g by (auto simp: find_Some_iff)
    show ?thesis
    proof (cases "bt_get m f")
      case None
      then show ?thesis using v PathField by (intro stuck) (simp_all add: selects_nothing_at_def)
    next
      case (Some w)
      then have "validate_against_contract_at w (field_contract g) q = Ok ()" using field_conforms ok g' by blast
      then show ?thesis using Some v PathField sel by (intro lift) simp_all
    qed
  next
    case (PathIndex k)
    then obtain items n where c: "c = ContractList items n" and sel: "select_contract (i + 1) items path = Ok c'"
      using Cons.prems(2) by (cases c) (auto simp: Let_def split: if_splits)
    obtain vs where v: "v = ValueList vs" and ok: "validate_items_at 0 vs items q = Ok ()"
      using Cons.prems(1) c by (cases v) (auto split: option.splits)
    show ?thesis
    proof (cases "k < length vs")
      case False
      then show ?thesis using v PathIndex by (intro stuck) (simp_all add: selects_nothing_at_def)
    next
      case True
      then have "validate_against_contract_at (vs ! k) items q = Ok ()" using item_conforms ok by blast
      then show ?thesis using True v PathIndex sel by (intro lift) simp_all
    qed
  qed
qed

text \<open>
  C11: a predicate accepted against a contract never gets stuck on a value of that contract: evaluating it
  returns the truth of the equality. The value its path selects conforms to the contract its path selects,
  which is also that of the value compared with; a path that selects nothing stops at a field that is absent
  or at an index past the end of a list, never at a value of the wrong kind.
\<close>

theorem predicate_type_safe:
  assumes "validate_predicate_against_contract env p c = Ok ()" "validate_flow_value_against_contract env v c = Ok ()"
  shows "predicate_matches env v p = Ok (select_value v (vp_path p) = Some (vp_equals p)) \<and>
    (\<exists>c'. select_contract 0 c (vp_path p) = Ok c' \<and> validate_against_contract_at (vp_equals p) c' ''$'' = Ok () \<and>
      (case select_value v (vp_path p) of
         Some s \<Rightarrow> validate_against_contract_at s c' ''$'' = Ok ()
       | None \<Rightarrow> \<exists>pre seg post u. vp_path p = pre @ seg # post \<and> select_value v pre = Some u \<and> selects_nothing_at u seg))"
proof -
  obtain c' where p: "validate_predicate_definition env p = Ok ()" and c': "select_contract 0 c (vp_path p) = Ok c'"
      and eq: "validate_against_contract_at (vp_equals p) c' ''$'' = Ok ()"
    using assms(1) by (auto simp: validate_predicate_against_contract_def validate_flow_value_against_contract_def)
  have v: "validate_flow_value env v = Ok ()" "validate_against_contract_at v c ''$'' = Ok ()"
    using assms(2) by (auto simp: validate_flow_value_against_contract_def)
  have "predicate_matches env v p = Ok (select_value v (vp_path p) = Some (vp_equals p))"
    using p v by (simp add: predicate_matches_def split: option.split)
  then show ?thesis using c' eq select_conforms [OF v(2) c'] by blast
qed

definition sample_contract :: ValueContract where
  "sample_contract = ContractMap [FieldContract ''ok'' True ContractBoolean, FieldContract ''n'' False (ContractList (ContractInteger (Some 0) None) (Some 3))]"

definition sample_value :: FlowValue where
  "sample_value = ValueMap [(''n'', ValueList [ValueInteger ''4'']), (''ok'', ValueBoolean True)]"

definition sample_predicate :: ValuePredicate where
  "sample_predicate = \<lparr>vp_path = [PathField ''n'', PathIndex 0], vp_equals = ValueInteger ''4''\<rparr>"

theorem predicate_type_safe_witness: "predicate_matches plain_env sample_value sample_predicate = Ok True"
proof -
  have "validate_predicate_against_contract plain_env sample_predicate sample_contract = Ok ()"
    "validate_flow_value_against_contract plain_env sample_value sample_contract = Ok ()"
    "select_value sample_value (vp_path sample_predicate) = Some (vp_equals sample_predicate)" by code_simp+
  then show ?thesis using predicate_type_safe [of plain_env sample_predicate sample_contract sample_value] by simp
qed

subsection \<open>What rendering produces\<close>

text \<open>The whole expansion, without the bound and the cache.\<close>

definition parameter_text :: "text_env \<Rightarrow> (string, FlowValue) btree \<Rightarrow> string \<Rightarrow> string script option" where
  "parameter_text env parameters name =
     map_option (\<lambda>v. map_err (ParameterNotCanonical name) (canonical_json env (FlowValue_to_value v))) (bt_get parameters name)"

function expand_prompt :: "(string \<Rightarrow> string script option) \<Rightarrow> string \<Rightarrow> string script" where
  "expand_prompt text s =
    (case str_find OPEN s of
       None \<Rightarrow> Ok s
     | Some i \<Rightarrow>
         case str_find CLOSE (drop (i + 2) s) of
           None \<Rightarrow> Ok s
         | Some j \<Rightarrow>
             case text (take j (drop (i + 2) s)) of
               Some replacement \<Rightarrow> and_then replacement (\<lambda>t.
                 and_then (expand_prompt text (drop (i + 2 + j + 2) s)) (\<lambda>rest. Ok (take i s @ t @ rest)))
             | None \<Rightarrow> and_then (expand_prompt text (drop (i + 2) s)) (\<lambda>rest. Ok (take i s @ OPEN @ rest)))"
  by pat_completeness auto

termination expand_prompt
  by (relation "measure (length \<circ> snd)") (auto dest: str_find_open)

declare expand_prompt.simps [simp del]

lemma append_fragment_eq_Ok:
  "max_bytes \<le> usize_max \<Longrightarrow>
   append_instruction_fragment a f max_bytes = Ok r \<longleftrightarrow> r = a @ f \<and> length a + length f \<le> max_bytes"
  by (auto simp: append_instruction_fragment_def checked_add_usize_def split: if_splits)

definition cache_ok :: "text_env \<Rightarrow> (string, FlowValue) btree \<Rightarrow> (string, string) btree \<Rightarrow> bool" where
  "cache_ok env parameters cache \<longleftrightarrow> (\<forall>n t. bt_get cache n = Some t \<longrightarrow> parameter_text env parameters n = Some (Ok t))"

lemma render_loop_eq_Ok:
  assumes "max_bytes \<le> usize_max"
  shows "cache_ok env parameters cache \<Longrightarrow>
    render_loop env parameters max_bytes cache out s = Ok r \<longleftrightarrow>
    (\<exists>t. expand_prompt (parameter_text env parameters) s = Ok t \<and> r = out @ t \<and> length r \<le> max_bytes)"
proof (induction "length s" arbitrary: s cache out rule: less_induct)
  case less
  note step = render_loop.simps [of env parameters max_bytes cache out s] expand_prompt.simps [of _ s]
  show ?case
  proof (cases "str_find OPEN s")
    case None
    then show ?thesis by (auto simp: step append_fragment_eq_Ok assms)
  next
    case (Some i)
    note i = str_find_open [OF Some]
    show ?thesis
    proof (cases "str_find CLOSE (drop (i + 2) s)")
      case None
      then show ?thesis using Some i by (auto simp: step append_fragment_eq_Ok assms Let_def)
    next
      case close: (Some j)
      let ?name = "take j (drop (i + 2) s)"
      show ?thesis
      proof (cases "bt_get parameters ?name")
        case None
        have "length (drop (i + 2) s) < length s" using i by simp
        from less.hyps [OF this less.prems] show ?thesis
          using None Some close i
          by (auto simp: step append_fragment_eq_Ok assms Let_def parameter_text_def)
      next
        case v: (Some v)
        have shorter: "length (drop (i + 2 + j + 2) s) < length s" using i by simp
        have IH: "render_loop env parameters max_bytes cache' out' (drop (j + 2) (drop (i + 2) s)) = Ok r \<longleftrightarrow>
            (\<exists>t. expand_prompt (parameter_text env parameters) (drop (i + 2 + j + 2) s) = Ok t \<and> r = out' @ t \<and> length r \<le> max_bytes)"
          if "cache_ok env parameters cache'" for cache' out'
          using less.hyps [OF shorter that] by (simp add: add.commute add.left_commute)
        note facts = step append_fragment_eq_Ok assms Let_def
        show ?thesis
        proof (cases "bt_get cache ?name")
          case hit: (Some t)
          then have "parameter_text env parameters ?name = Some (Ok t)" using less.prems by (simp add: cache_ok_def)
          then show ?thesis using hit Some close v i IH [OF less.prems] by (auto simp: facts)
        next
          case miss: None
          have repl: "parameter_text env parameters ?name =
              Some (map_err (ParameterNotCanonical ?name) (canonical_json env (FlowValue_to_value v)))"
            using v by (simp add: parameter_text_def)
          show ?thesis
          proof (cases "canonical_json env (FlowValue_to_value v)")
            case (Ok t)
            then have "cache_ok env parameters (bt_insert ?name t cache)"
              using less.prems repl by (simp add: cache_ok_def)
            from IH [OF this] show ?thesis using miss repl Ok Some close v i by (auto simp: facts)
          next
            case (Err e)
            then show ?thesis using miss repl Some close v i by (auto simp: facts)
          qed
        qed
      qed
    qed
  qed
qed

text \<open>
  C15: rendering an Instruction within a byte bound, with its cache of canonical texts and its early exit,
  is the plain expansion: it succeeds exactly when every declared parameter is given with a value of its contract,
  no other is given and the whole expansion fits the bound, and it then returns that expansion.
\<close>

theorem render_instruction_exact:
  assumes "max_bytes \<le> usize_max"
  shows "render_instruction env instruction parameters max_bytes = Ok r \<longleftrightarrow>
    (\<forall>p \<in> set (ib_parameters instruction). \<exists>v. bt_get parameters (ip_name p) = Some v \<and>
       validate_flow_value_against_contract env v (ip_value_contract p) = Ok ()) \<and>
    fst ` set parameters \<subseteq> ip_name ` set (ib_parameters instruction) \<and>
    expand_prompt (parameter_text env parameters) (ib_prompt instruction) = Ok r \<and> length r \<le> max_bytes"
proof -
  have "cache_ok env parameters []" by (simp add: cache_ok_def)
  from render_loop_eq_Ok [OF assms this] have loop: "render_loop env parameters max_bytes [] [] (ib_prompt instruction) = Ok r \<longleftrightarrow>
    expand_prompt (parameter_text env parameters) (ib_prompt instruction) = Ok r \<and> length r \<le> max_bytes" by auto
  have declared: "(\<forall>x \<in> set parameters. \<exists>p \<in> set (ib_parameters instruction). ip_name p = fst x) \<longleftrightarrow>
    fst ` set parameters \<subseteq> ip_name ` set (ib_parameters instruction)" by force
  show ?thesis
    by (simp add: render_instruction_def check_parameter_def list_ex_iff loop declared [symmetric] case_prod_beta)
qed

definition sample_instruction :: InstructionBlock where
  "sample_instruction = \<lparr>ib_identity = \<lparr>bi_id = ''greet'', bi_name = ''Greet''\<rparr>, ib_prompt = ''a {{x}} b {{y}} {{x}}'',
     ib_parameters = [\<lparr>ip_name = ''x'', ip_value_contract = ContractBoolean\<rparr>]\<rparr>"

theorem render_instruction_exact_witness:
  "render_instruction plain_env sample_instruction [(''x'', ValueBoolean True)] 100 =
     Ok ''a {\"type\":\"boolean\",\"value\":true} b {{y}} {\"type\":\"boolean\",\"value\":true}''"
proof -
  have "(100::nat) \<le> usize_max" by code_simp
  moreover have "ib_parameters sample_instruction = [\<lparr>ip_name = ''x'', ip_value_contract = ContractBoolean\<rparr>]"
    by (simp add: sample_instruction_def)
  moreover have "validate_flow_value_against_contract plain_env (ValueBoolean True) ContractBoolean = Ok ()"
    "expand_prompt (parameter_text plain_env [(''x'', ValueBoolean True)]) (ib_prompt sample_instruction) =
     Ok ''a {\"type\":\"boolean\",\"value\":true} b {{y}} {\"type\":\"boolean\",\"value\":true}''"
    by code_simp+
  ultimately show ?thesis
    by (subst render_instruction_exact) (auto simp: bt_get_def)
qed

end
