(* ===== verification/Registry_Blocks.thy ===== *)
theory Registry_Blocks
  imports Script_Values "HOL-Library.Option_ord"
begin

text \<open>
  The blocks of the script registry: their data (\<open>core/core-script/src/script/model.rs\<close>), the shapes of
  identifiers and relative paths (\<open>paths.rs\<close>), the checks on one block (\<open>semantics.rs\<close>, \<open>parameter.rs\<close>) and
  the canonical order of the lists inside a block (\<open>canonical.rs\<close>).

  Each message of the code is a constructor with the data it prints. The \<open>regex\<close> crate and the derived
  serialisation of blocks are the parameters of \<open>script_env\<close>.
\<close>

subsection \<open>Blocks\<close>

definition MAX_FLOW_NESTING_DEPTH :: nat where "MAX_FLOW_NESTING_DEPTH = 16"
definition MAX_FLOW_FANOUT :: nat where "MAX_FLOW_FANOUT = 32"
definition MAX_PHASE_NESTING_DEPTH :: nat where "MAX_PHASE_NESTING_DEPTH = 16"
definition MAX_PHASE_FANOUT :: nat where "MAX_PHASE_FANOUT = 32"
definition MAX_PHASE_LOOP_ITERATIONS :: nat where "MAX_PHASE_LOOP_ITERATIONS = 32"
definition MAX_BLOCK_NAME_CHARS :: nat where "MAX_BLOCK_NAME_CHARS = 256"
definition MAX_REGISTRY_DEFINITION_BYTES :: nat where "MAX_REGISTRY_DEFINITION_BYTES = 64 * 1024"

datatype RegistryBlockKind = KindTool | KindInstruction | KindPhase | KindFlow

text \<open>The derived order of the kinds is the order of their declaration.\<close>

primrec kind_rank :: "RegistryBlockKind \<Rightarrow> nat" where
  "kind_rank KindTool = 0"
| "kind_rank KindInstruction = 1"
| "kind_rank KindPhase = 2"
| "kind_rank KindFlow = 3"

instantiation RegistryBlockKind :: linorder
begin

definition less_eq_RegistryBlockKind :: "RegistryBlockKind \<Rightarrow> RegistryBlockKind \<Rightarrow> bool" where
  "a \<le> b \<longleftrightarrow> kind_rank a \<le> kind_rank b"

definition less_RegistryBlockKind :: "RegistryBlockKind \<Rightarrow> RegistryBlockKind \<Rightarrow> bool" where
  "a < b \<longleftrightarrow> kind_rank a < kind_rank b"

instance
proof
  fix x y :: RegistryBlockKind
  show "x \<le> y \<Longrightarrow> y \<le> x \<Longrightarrow> x = y"
    by (cases x; cases y) (auto simp: less_eq_RegistryBlockKind_def)
qed (auto simp: less_eq_RegistryBlockKind_def less_RegistryBlockKind_def)

end

definition RegistryBlockKind_ALL :: "RegistryBlockKind list" where
  "RegistryBlockKind_ALL = [KindTool, KindInstruction, KindPhase, KindFlow]"

primrec RegistryBlockKind_as_str :: "RegistryBlockKind \<Rightarrow> string" where
  "RegistryBlockKind_as_str KindTool = ''tool''"
| "RegistryBlockKind_as_str KindInstruction = ''instruction''"
| "RegistryBlockKind_as_str KindPhase = ''phase''"
| "RegistryBlockKind_as_str KindFlow = ''flow''"

definition RegistryBlockKind_parse :: "string \<Rightarrow> RegistryBlockKind option" where
  "RegistryBlockKind_parse value = find (\<lambda>k. RegistryBlockKind_as_str k = value) RegistryBlockKind_ALL"

datatype ScriptToolKind = ScriptPredefinedCommand | ScriptOwnScript

datatype ToolCommand = PredefinedToolCommand string "string list" | OwnScriptToolCommand string

datatype ScriptRuntime = PosixSh

datatype ParameterValueType = ParameterNone | ParameterString | ParameterInteger | ParameterWorkspaceRelativePath | ParameterEnum

record AllowedParameter =
  ap_name :: string
  ap_value_type :: ParameterValueType
  ap_required :: bool
  ap_allowed_values :: "string list"
  ap_value_pattern :: "string option"
  ap_max_length :: "nat option"
  ap_min :: "int option"
  ap_max :: "int option"

record ToolBlock =
  tb_identity :: BlockIdentity
  tb_tool_kind :: ScriptToolKind
  tb_command :: ToolCommand
  tb_script_runtime :: "ScriptRuntime option"
  tb_script_body :: "string option"
  tb_allowed_parameters :: "AllowedParameter list"

record PhaseLoop =
  lp_max_iterations :: nat
  lp_until :: ValuePredicate

record PhaseTransition =
  pt_from_phase_ref :: string
  pt_to_phase_ref :: string
  pt_when :: ValuePredicate

record PhaseBlock =
  pb_identity :: BlockIdentity
  pb_instruction_refs :: "string list"
  pb_tool_refs :: "string list"
  pb_phase_refs :: "string list"
  pb_output :: ValueContract
  pb_result_from :: "string option"
  pb_loop_config :: "PhaseLoop option"
  pb_transitions :: "PhaseTransition list"

record FlowBlock =
  fb_identity :: BlockIdentity
  fb_phase_refs :: "string list"
  fb_subflow_refs :: "string list"
  fb_transitions :: "PhaseTransition list"

datatype RegistryBlock =
    BlockTool ToolBlock
  | BlockInstruction InstructionBlock
  | BlockPhase PhaseBlock
  | BlockFlow FlowBlock

primrec kind_and_identity :: "RegistryBlock \<Rightarrow> RegistryBlockKind \<times> BlockIdentity" where
  "kind_and_identity (BlockTool b) = (KindTool, tb_identity b)"
| "kind_and_identity (BlockInstruction b) = (KindInstruction, ib_identity b)"
| "kind_and_identity (BlockPhase b) = (KindPhase, pb_identity b)"
| "kind_and_identity (BlockFlow b) = (KindFlow, fb_identity b)"

definition own_script_command_id :: "string \<Rightarrow> string" where
  "own_script_command_id tool_id = ''script:'' @ tool_id"

text \<open>Code outside the repository: the regular expressions and the derived serialisation.\<close>

record script_env =
  sx_text :: text_env
  sx_pattern_compiles :: "string \<Rightarrow> bool"
  sx_to_value :: "RegistryBlock \<Rightarrow> json option"
  sx_from_str :: "string \<Rightarrow> RegistryBlock option"

subsection \<open>Identifiers and relative paths\<close>

definition is_valid_block_id :: "string \<Rightarrow> bool" where
  "is_valid_block_id v = is_valid_session_id v"

definition matches_lower_token :: "string \<Rightarrow> nat \<Rightarrow> nat \<Rightarrow> bool" where
  "matches_lower_token v min_len max_len \<longleftrightarrow>
     length v \<ge> min_len \<and> length v \<le> max_len \<and>
     list_all (\<lambda>byte. is_lower byte \<or> is_digit byte \<or> byte = CHR ''_'' \<or> byte = CHR ''-'') v"

definition is_valid_command_id :: "string \<Rightarrow> bool" where
  "is_valid_command_id v \<longleftrightarrow> matches_lower_token v 1 64 \<and> (case v of c # _ \<Rightarrow> is_lower c | [] \<Rightarrow> False)"

definition is_valid_allowed_parameter_name :: "string \<Rightarrow> bool" where
  "is_valid_allowed_parameter_name v =
    (case strip_prefix ''--'' v of
       Some (c # rest) \<Rightarrow> is_alphanumeric c \<and> list_all (\<lambda>b. is_alphanumeric b \<or> b = CHR ''_'' \<or> b = CHR ''-'') rest
     | _ \<Rightarrow> False)"

definition has_windows_drive_prefix :: "string \<Rightarrow> bool" where
  "has_windows_drive_prefix v = (case v of a # b # _ \<Rightarrow> (is_lower a \<or> is_upper a) \<and> b = CHR '':'' | _ \<Rightarrow> False)"

definition to_ascii_uppercase :: "char \<Rightarrow> char" where
  "to_ascii_uppercase c = (if is_lower c then char_of (of_char c - 32 :: nat) else c)"

text \<open>The superscript digits one, two and three in UTF-8.\<close>

definition superscript_digits :: "string list" where
  "superscript_digits = [[CHR 0xC2, CHR 0xB9], [CHR 0xC2, CHR 0xB2], [CHR 0xC2, CHR 0xB3]]"

definition path_component_has_windows_alias :: "string \<Rightarrow> bool" where
  "path_component_has_windows_alias component =
    (if component \<noteq> [] \<and> (last component = CHR ''.'' \<or> last component = CHR '' '') then True
     else
       let basename = (case split_once (CHR ''.'') component of Some (basename, _) \<Rightarrow> basename | None \<Rightarrow> component);
           uppercase = map to_ascii_uppercase basename
       in uppercase \<in> {''CON'', ''PRN'', ''AUX'', ''NUL'', ''CONIN$'', ''CONOUT$''} \<or>
          (case (case strip_prefix ''COM'' uppercase of Some d \<Rightarrow> Some d | None \<Rightarrow> strip_prefix ''LPT'' uppercase) of
             Some d \<Rightarrow> d \<in> {''1'', ''2'', ''3'', ''4'', ''5'', ''6'', ''7'', ''8'', ''9''} \<or> d \<in> set superscript_digits
           | None \<Rightarrow> False))"

definition path_component_has_windows_invalid_character :: "string \<Rightarrow> bool" where
  "path_component_has_windows_invalid_character component =
     list_ex (\<lambda>byte. of_char byte < (32 :: nat) \<or>
       byte \<in> {CHR ''<'', CHR ''>'', CHR '':'', CHR 0x22, CHR ''|'', CHR ''?'', CHR ''*''}) component"

definition normalize_safe_relative_path :: "string \<Rightarrow> string option" where
  "normalize_safe_relative_path v =
    (if v = [] \<or> hd v = CHR ''/'' \<or> has_windows_drive_prefix v \<or> CHR 0x5C \<in> set v then None
     else if list_ex (\<lambda>component. component = [] \<or> component = ''.'' \<or> component = ''..'' \<or>
         path_component_has_windows_alias component \<or> path_component_has_windows_invalid_character component) (split_on (CHR ''/'') v)
     then None
     else Some v)"

definition relative_path_is_inside_scope :: "string \<Rightarrow> string \<Rightarrow> bool" where
  "relative_path_is_inside_scope path scope \<longleftrightarrow>
     normalize_safe_relative_path path = Some path \<and> normalize_safe_relative_path scope = Some scope \<and>
     (path = scope \<or> (case strip_prefix scope path of Some suffix \<Rightarrow> suffix \<noteq> [] \<and> hd suffix = CHR ''/'' | None \<Rightarrow> False))"

definition relative_path_has_windows_alias :: "string \<Rightarrow> bool" where
  "relative_path_has_windows_alias v =
     list_ex (\<lambda>component. component \<notin> {[], ''.'', ''..''} \<and> path_component_has_windows_alias component) (split_on (CHR ''/'') v)"

subsection \<open>Parameters of a Tool\<close>

datatype ParameterProblem =
    ParameterNameShape string
  | NonEnumAllowedValues string
  | StringNeedsPatternAndLength string
  | StringMinMax string
  | EnumNul string
  | EnumNeedsValues string
  | EnumExtras string
  | IntegerExtras string
  | IntegerMinMax string
  | NoneExtras string
  | PathMinMax string
  | PatternInvalid string

definition validate_value_type :: "AllowedParameter \<Rightarrow> (unit, ParameterProblem) result" where
  "validate_value_type p =
    (let name = ap_name p; has_pattern = ap_value_pattern p \<noteq> None; has_length = ap_max_length p \<noteq> None;
         has_min = ap_min p \<noteq> None; has_max = ap_max p \<noteq> None
     in case ap_value_type p of
       ParameterString \<Rightarrow>
         and_then (ensure (\<not> (\<not> has_pattern \<or> \<not> has_length)) (StringNeedsPatternAndLength name)) (\<lambda>_.
         ensure (\<not> (has_min \<or> has_max)) (StringMinMax name))
     | ParameterEnum \<Rightarrow>
         and_then (ensure (\<not> list_ex contains_nul (ap_allowed_values p)) (EnumNul name)) (\<lambda>_.
         and_then (ensure (ap_allowed_values p \<noteq> []) (EnumNeedsValues name)) (\<lambda>_.
         ensure (\<not> (has_pattern \<or> has_length \<or> has_min \<or> has_max)) (EnumExtras name)))
     | ParameterInteger \<Rightarrow>
         and_then (ensure (\<not> (has_pattern \<or> has_length)) (IntegerExtras name)) (\<lambda>_.
         ensure (case (ap_min p, ap_max p) of (Some lo, Some hi) \<Rightarrow> \<not> lo > hi | _ \<Rightarrow> True) (IntegerMinMax name))
     | ParameterNone \<Rightarrow>
         ensure (\<not> (has_pattern \<or> has_length \<or> has_min \<or> has_max)) (NoneExtras name)
     | ParameterWorkspaceRelativePath \<Rightarrow>
         ensure (\<not> (has_min \<or> has_max)) (PathMinMax name))"

definition AllowedParameter_validate :: "script_env \<Rightarrow> AllowedParameter \<Rightarrow> (unit, ParameterProblem) result" where
  "AllowedParameter_validate env p =
     and_then (ensure (is_valid_allowed_parameter_name (ap_name p)) (ParameterNameShape (ap_name p))) (\<lambda>_.
     and_then (ensure (\<not> (ap_value_type p \<noteq> ParameterEnum \<and> ap_allowed_values p \<noteq> [])) (NonEnumAllowedValues (ap_name p))) (\<lambda>_.
     and_then (validate_value_type p) (\<lambda>_.
     case ap_value_pattern p of
       Some pattern \<Rightarrow> ensure (sx_pattern_compiles env pattern) (PatternInvalid (ap_name p))
     | None \<Rightarrow> Ok ())))"

subsection \<open>The checks on one block\<close>

datatype DefinitionProblem =
    InstructionParameterName
  | InstructionParameterDuplicate string
  | InstructionParameterUnused string
  | PlaceholderUndeclared string
  | UnmatchedTerminator
  | UnclosedPlaceholder
  | PlaceholderName string
  | ContractProblem ScriptValueError
  | LoopIterations
  | LoopUntil ScriptValueError
  | LeafResultFrom
  | LeafTransitions
  | CompositeInstructionsOrTools
  | CompositeResultFrom
  | TransitionReferencesEmpty
  | TransitionWhen ScriptValueError
  | FlowNeedsPhases
  | OutputMismatch string
  | TransitionPredicate string ScriptValueError
  | ScriptRuntimeMissing
  | ScriptBodyMissing
  | ScriptBodyEmpty
  | ScriptBodyNul
  | CommandIdInvalid
  | ArgvNul
  | PredefinedWithScript
  | AllowedParameterInvalid ParameterProblem
  | AllowedParameterDuplicate string

datatype SemanticValidationError =
    InvalidInstructionDefinition string DefinitionProblem
  | InvalidPhaseDefinition string DefinitionProblem
  | InvalidFlowDefinition string DefinitionProblem
  | InvalidToolDefinition string DefinitionProblem
  | OwnScriptCommandIdMismatch string string
  | ToolCommandKindMismatch string ScriptToolKind

type_synonym 'a semantic = "('a, SemanticValidationError) result"

datatype ShapeProblem = ShapeId RegistryBlockKind | ShapeNameEmpty RegistryBlockKind | ShapeNameLength RegistryBlockKind
  | ShapePromptEmpty | ShapePromptLength | ShapeScriptBodyLength

definition validate_block_identity :: "RegistryBlockKind \<Rightarrow> BlockIdentity \<Rightarrow> (unit, ShapeProblem) result" where
  "validate_block_identity knd identity =
     and_then (ensure (is_valid_block_id (bi_id identity)) (ShapeId knd)) (\<lambda>_.
     and_then (ensure (bi_name identity \<noteq> []) (ShapeNameEmpty knd)) (\<lambda>_.
     ensure (\<not> chars_count (bi_name identity) > MAX_BLOCK_NAME_CHARS) (ShapeNameLength knd)))"

definition validate_registry_block_shape :: "RegistryBlock \<Rightarrow> (unit, ShapeProblem) result" where
  "validate_registry_block_shape block =
    (let (knd, identity) = kind_and_identity block in
     and_then (validate_block_identity knd identity) (\<lambda>_.
     case block of
       BlockInstruction b \<Rightarrow>
         if ib_prompt b = [] then Err ShapePromptEmpty
         else if length (ib_prompt b) > MAX_REGISTRY_DEFINITION_BYTES then Err ShapePromptLength
         else Ok ()
     | BlockTool b \<Rightarrow>
         if (case tb_script_body b of Some body \<Rightarrow> length body > MAX_REGISTRY_DEFINITION_BYTES | None \<Rightarrow> False)
         then Err ShapeScriptBodyLength else Ok ()
     | _ \<Rightarrow> Ok ()))"

definition text_contains :: "string \<Rightarrow> string \<Rightarrow> bool" where
  "text_contains s pat \<longleftrightarrow> str_find pat s \<noteq> None"

function instruction_placeholders :: "string \<Rightarrow> string list \<Rightarrow> (string list, DefinitionProblem) result" where
  "instruction_placeholders rest placeholders =
    (case str_find OPEN rest of
       Some start \<Rightarrow>
         if text_contains (take start rest) CLOSE then Err UnmatchedTerminator
         else
           let after_start = drop (start + 2) rest in
           (case str_find CLOSE after_start of
              None \<Rightarrow> Err UnclosedPlaceholder
            | Some end_at \<Rightarrow>
                let name = take end_at after_start in
                if \<not> is_valid_command_id name then Err (PlaceholderName name)
                else instruction_placeholders (drop (end_at + 2) after_start) (placeholders @ [name]))
     | None \<Rightarrow> if text_contains rest CLOSE then Err UnmatchedTerminator else Ok placeholders)"
  by pat_completeness auto

termination instruction_placeholders
  by (relation "measure (length \<circ> fst)") (auto dest: str_find_open)

declare instruction_placeholders.simps [simp del]

text \<open>The loop over the parameters returns the set of their names.\<close>

fun instruction_parameters_loop ::
    "script_env \<Rightarrow> string \<Rightarrow> string bset \<Rightarrow> InstructionParameter list \<Rightarrow> (string bset, DefinitionProblem) result" where
  "instruction_parameters_loop env prompt names [] = Ok names"
| "instruction_parameters_loop env prompt names (p # ps) =
     and_then (ensure (is_valid_command_id (ip_name p)) InstructionParameterName) (\<lambda>_.
     and_then (ensure (\<not> bs_contains names (ip_name p)) (InstructionParameterDuplicate (ip_name p))) (\<lambda>_.
     and_then (map_err ContractProblem (validate_value_contract_definition (sx_text env) (ip_value_contract p))) (\<lambda>_.
     and_then (ensure (text_contains prompt (OPEN @ ip_name p @ CLOSE)) (InstructionParameterUnused (ip_name p))) (\<lambda>_.
     instruction_parameters_loop env prompt (bs_insert (ip_name p) names) ps))))"

definition validate_instruction_semantics :: "script_env \<Rightarrow> InstructionBlock \<Rightarrow> unit semantic" where
  "validate_instruction_semantics env instruction =
     map_err (InvalidInstructionDefinition (bi_id (ib_identity instruction)))
      (and_then (instruction_parameters_loop env (ib_prompt instruction) [] (ib_parameters instruction)) (\<lambda>names.
       and_then (instruction_placeholders (ib_prompt instruction) []) (\<lambda>placeholders.
       each_ok (\<lambda>placeholder. ensure (bs_contains names placeholder) (PlaceholderUndeclared placeholder)) placeholders)))"

definition validate_transition_definition :: "script_env \<Rightarrow> PhaseTransition \<Rightarrow> (unit, DefinitionProblem) result" where
  "validate_transition_definition env transition =
     and_then (ensure (\<not> (pt_from_phase_ref transition = [] \<or> pt_to_phase_ref transition = [])) TransitionReferencesEmpty) (\<lambda>_.
     map_err TransitionWhen (validate_predicate_definition (sx_text env) (pt_when transition)))"

definition validate_phase_semantics :: "script_env \<Rightarrow> PhaseBlock \<Rightarrow> unit semantic" where
  "validate_phase_semantics env phase =
     map_err (InvalidPhaseDefinition (bi_id (pb_identity phase)))
      (and_then (map_err ContractProblem (validate_value_contract_definition (sx_text env) (pb_output phase))) (\<lambda>_.
       and_then (case pb_loop_config phase of
           Some config \<Rightarrow>
             and_then (ensure (1 \<le> lp_max_iterations config \<and> lp_max_iterations config \<le> MAX_PHASE_LOOP_ITERATIONS) LoopIterations) (\<lambda>_.
             map_err LoopUntil (validate_predicate_against_contract (sx_text env) (lp_until config) (pb_output phase)))
         | None \<Rightarrow> Ok ()) (\<lambda>_.
       and_then (if pb_phase_refs phase = [] then
           and_then (ensure (pb_result_from phase = None) LeafResultFrom) (\<lambda>_.
           ensure (pb_transitions phase = []) LeafTransitions)
         else
           and_then (ensure (\<not> (pb_instruction_refs phase \<noteq> [] \<or> pb_tool_refs phase \<noteq> [])) CompositeInstructionsOrTools) (\<lambda>_.
           ensure (\<not> (case pb_result_from phase of None \<Rightarrow> True | Some r \<Rightarrow> r = [])) CompositeResultFrom)) (\<lambda>_.
       each_ok (validate_transition_definition env) (pb_transitions phase)))))"

definition validate_flow_semantics :: "script_env \<Rightarrow> FlowBlock \<Rightarrow> unit semantic" where
  "validate_flow_semantics env flow_block =
     map_err (InvalidFlowDefinition (bi_id (fb_identity flow_block)))
      (and_then (ensure (fb_phase_refs flow_block \<noteq> []) FlowNeedsPhases) (\<lambda>_.
       each_ok (validate_transition_definition env) (fb_transitions flow_block)))"

text \<open>
  \<open>trim().is_empty()\<close>: every character has the Unicode property White\_Space. The characters outside ASCII
  are given by their UTF-8 bytes.
\<close>

fun only_white_space :: "string \<Rightarrow> bool" where
  "only_white_space [] = True"
| "only_white_space (a # s) =
    (if byte_in 0x09 0x0D a \<or> a = CHR '' '' then only_white_space s
     else case s of
       [] \<Rightarrow> False
     | b # s' \<Rightarrow>
         if a = CHR 0xC2 \<and> (b = CHR 0x85 \<or> b = CHR 0xA0) then only_white_space s'
         else case s' of
           [] \<Rightarrow> False
         | c # s'' \<Rightarrow>
             ((a = CHR 0xE1 \<and> b = CHR 0x9A \<and> c = CHR 0x80) \<or>
              (a = CHR 0xE2 \<and> b = CHR 0x80 \<and> (byte_in 0x80 0x8A c \<or> c = CHR 0xA8 \<or> c = CHR 0xA9 \<or> c = CHR 0xAF)) \<or>
              (a = CHR 0xE2 \<and> b = CHR 0x81 \<and> c = CHR 0x9F) \<or>
              (a = CHR 0xE3 \<and> b = CHR 0x80 \<and> c = CHR 0x80)) \<and> only_white_space s'')"

definition validate_tool_command :: "ToolBlock \<Rightarrow> unit semantic" where
  "validate_tool_command tool =
    (let tool_id = bi_id (tb_identity tool); invalid_tool = InvalidToolDefinition tool_id in
     case (tb_tool_kind tool, tb_command tool) of
       (ScriptOwnScript, OwnScriptToolCommand command) \<Rightarrow>
         and_then (ensure (command = own_script_command_id tool_id) (OwnScriptCommandIdMismatch command tool_id)) (\<lambda>_.
         and_then (ensure (tb_script_runtime tool = Some PosixSh) (invalid_tool ScriptRuntimeMissing)) (\<lambda>_.
         and_then (ensure (tb_script_body tool \<noteq> None) (invalid_tool ScriptBodyMissing)) (\<lambda>_.
         and_then (ensure (case tb_script_body tool of Some body \<Rightarrow> \<not> only_white_space body | None \<Rightarrow> True) (invalid_tool ScriptBodyEmpty)) (\<lambda>_.
         ensure (case tb_script_body tool of Some body \<Rightarrow> \<not> contains_nul body | None \<Rightarrow> True) (invalid_tool ScriptBodyNul)))))
     | (ScriptPredefinedCommand, PredefinedToolCommand command_id argv) \<Rightarrow>
         and_then (ensure (is_valid_command_id command_id) (invalid_tool CommandIdInvalid)) (\<lambda>_.
         and_then (ensure (\<not> list_ex contains_nul argv) (invalid_tool ArgvNul)) (\<lambda>_.
         ensure (\<not> (tb_script_runtime tool \<noteq> None \<or> tb_script_body tool \<noteq> None)) (invalid_tool PredefinedWithScript)))
     | _ \<Rightarrow> Err (ToolCommandKindMismatch tool_id (tb_tool_kind tool)))"

fun allowed_parameters_loop :: "script_env \<Rightarrow> string bset \<Rightarrow> AllowedParameter list \<Rightarrow> (unit, DefinitionProblem) result" where
  "allowed_parameters_loop env names [] = Ok ()"
| "allowed_parameters_loop env names (p # ps) =
     and_then (map_err AllowedParameterInvalid (AllowedParameter_validate env p)) (\<lambda>_.
     and_then (ensure (\<not> bs_contains names (ap_name p)) (AllowedParameterDuplicate (ap_name p))) (\<lambda>_.
     allowed_parameters_loop env (bs_insert (ap_name p) names) ps))"

definition validate_tool_semantics :: "script_env \<Rightarrow> ToolBlock \<Rightarrow> unit semantic" where
  "validate_tool_semantics env tool =
     and_then (validate_tool_command tool) (\<lambda>_.
     map_err (InvalidToolDefinition (bi_id (tb_identity tool))) (allowed_parameters_loop env [] (tb_allowed_parameters tool)))"

primrec validate_registry_block_semantics :: "script_env \<Rightarrow> RegistryBlock \<Rightarrow> unit semantic" where
  "validate_registry_block_semantics env (BlockTool b) = validate_tool_semantics env b"
| "validate_registry_block_semantics env (BlockInstruction b) = validate_instruction_semantics env b"
| "validate_registry_block_semantics env (BlockPhase b) = validate_phase_semantics env b"
| "validate_registry_block_semantics env (BlockFlow b) = validate_flow_semantics env b"

subsection \<open>Canonical order inside a block\<close>

definition json_field :: "string \<Rightarrow> json \<Rightarrow> json option" where
  "json_field name v = Option.bind (as_object v) (\<lambda>m. bt_get m name)"

definition name_field :: "json \<Rightarrow> string option" where
  "name_field v = Option.bind (json_field ''name'' v) as_str"

definition has_contract :: "json \<Rightarrow> bool" where
  "has_contract v \<longleftrightarrow> name_field v \<noteq> None \<and> json_field ''value_contract'' v \<noteq> None"

text \<open>\<open>sort_by\<close> is stable; so is \<open>sort_key\<close>. The members are sorted where they are found in the map.\<close>

definition sort_member :: "string \<Rightarrow> json \<Rightarrow> json" where
  "sort_member key v =
    (case v of
       JArray items \<Rightarrow>
         if key = ''allowed_parameters'' then JArray (sort_key name_field items)
         else if key = ''parameters'' \<and> list_all has_contract items then JArray (sort_key name_field items)
         else if key = ''allowed_values'' \<and> list_all (\<lambda>v. as_str v \<noteq> None) items then JArray (sort_key as_str items)
         else if key = ''fields'' \<and> list_all has_contract items then JArray (sort_key name_field items)
         else v
     | _ \<Rightarrow> v)"

lemma size_list_sort_key [simp]: "size_list f (sort_key k xs) = size_list f xs"
proof -
  have "size_list f (insort_key k x ys) = size_list f (x # ys)" for x ys by (induction ys) auto
  then show ?thesis by (induction xs) (simp_all add: sort_key_def)
qed

lemma size_sort_member [simp]: "size (sort_member key v) = size v"
  by (cases v) (simp_all add: sort_member_def)

lemma size_member: "(k, v) \<in> set m \<Longrightarrow> size v < Suc (size_list (size_prod (\<lambda>_. 0) size) m)" for v :: json
  by (induction m) auto

function canonicalize_registry_value :: "json \<Rightarrow> json" where
  "canonicalize_registry_value v =
    (case v of
       JArray items \<Rightarrow> JArray (map canonicalize_registry_value items)
     | JObject m \<Rightarrow> JObject (map (\<lambda>(key, child). (key, canonicalize_registry_value (sort_member key child))) m)
     | _ \<Rightarrow> v)"
  by pat_completeness auto

termination canonicalize_registry_value
  by (relation "measure size") (auto simp: size_list_estimation' less_Suc_eq_le dest: size_member)

subsection \<open>Scopes of relative paths\<close>

lemma split_on_append_sep: "split_on c (a @ c # b) = split_on c a @ split_on c b"
proof (induction a)
  case (Cons x a)
  then show ?case by (cases "split_on c a") auto
qed simp

lemma join_with_append:
  "ps \<noteq> [] \<Longrightarrow> qs \<noteq> [] \<Longrightarrow> join_with c (ps @ qs) = join_with c ps @ c # join_with c qs"
proof (induction c ps rule: join_with.induct)
  case (2 c p)
  then show ?case by (cases qs) auto
qed auto

text \<open>
  C29: a path is inside a scope exactly when both are safe relative paths and the components of the scope are the
  first components of the path. A safe path is relative and has neither a backslash nor an empty, dot or dot-dot
  component, so it cannot leave its root.
\<close>

theorem inside_scope_iff:
  "relative_path_is_inside_scope path scope \<longleftrightarrow>
     normalize_safe_relative_path path = Some path \<and> normalize_safe_relative_path scope = Some scope \<and>
     (\<exists>rest. split_on (CHR ''/'') path = split_on (CHR ''/'') scope @ rest) \<and>
     list_all (\<lambda>c. c \<notin> {[], ''.'', ''..''} \<and> CHR 0x5C \<notin> set c \<and> CHR ''/'' \<notin> set c) (split_on (CHR ''/'') path)"
proof -
  let ?split = "split_on (CHR ''/'')"
  have components: "list_all (\<lambda>c. c \<notin> {[], ''.'', ''..''} \<and> CHR 0x5C \<notin> set c \<and> CHR ''/'' \<notin> set c) (?split path)"
    if "normalize_safe_relative_path path = Some path"
    using that piece_subset [of _ "CHR ''/''" path] split_on_pieces [of _ "CHR ''/''" path]
    by (auto simp: normalize_safe_relative_path_def list_all_iff list_ex_iff split: if_splits)
  have "(path = scope \<or> (\<exists>b. path = scope @ CHR ''/'' # b)) \<longleftrightarrow> (\<exists>rest. ?split path = ?split scope @ rest)"
  proof
    assume "path = scope \<or> (\<exists>b. path = scope @ CHR ''/'' # b)"
    then show "\<exists>rest. ?split path = ?split scope @ rest" by (auto simp: split_on_append_sep)
  next
    assume "\<exists>rest. ?split path = ?split scope @ rest"
    then obtain rest where rest: "?split path = ?split scope @ rest" by blast
    have "path = join_with (CHR ''/'') (?split scope @ rest)" using join_split_on [of "CHR ''/''" path] rest by simp
    then show "path = scope \<or> (\<exists>b. path = scope @ CHR ''/'' # b)"
      by (cases "rest = []") (auto simp: join_split_on join_with_append)
  qed
  moreover have "(case strip_prefix scope path of Some suffix \<Rightarrow> suffix \<noteq> [] \<and> hd suffix = CHR ''/'' | None \<Rightarrow> False) \<longleftrightarrow>
      (\<exists>b. path = scope @ CHR ''/'' # b)"
  proof -
    have "strip_prefix scope (scope @ t) = Some t" for t by simp
    then show ?thesis
      by (cases "strip_prefix scope path") (auto simp: neq_Nil_conv simp del: strip_prefix_eq_Some dest: strip_prefix_eq_Some [THEN iffD1])
  qed
  ultimately show ?thesis using components by (auto simp: relative_path_is_inside_scope_def)
qed

end
