(* ===== verification/Registry.thy ===== *)
theory Registry
  imports Registry_Blocks
begin

text \<open>
  The resolved registry of Flows, Phases, Instructions and Tools: \<open>core/core-script/src/script/registry.rs\<close> and
  \<open>naming.rs\<close>. Blocks refer to each other by id or by name; resolving checks every reference, the order of
  transitions and the nesting of Phases and Flows, and then replaces names by ids.

  The two searches for cycles have the same body; \<open>visit_block\<close> is that body with the block kind as a
  \<open>visitor\<close>. It ends because every call is one level deeper and the depth is bounded.
\<close>

subsection \<open>The registry\<close>

type_synonym block_names = "(RegistryBlockKind, (string, string) btree) btree"

record ResolvedRegistry =
  rr_instructions :: "(string, InstructionBlock) btree"
  rr_flows :: "(string, FlowBlock) btree"
  rr_phases :: "(string, PhaseBlock) btree"
  rr_tools :: "(string, ToolBlock) btree"
  rr_name_ids :: block_names

datatype RegistryError =
    InvalidBlockId string
  | InvalidBlockName RegistryBlockKind string
  | ProgrammaticShape ShapeProblem
  | DuplicateId string string
  | DuplicateName RegistryBlockKind string
  | AmbiguousReference RegistryBlockKind string
  | MissingReference RegistryBlockKind string string string
  | InvalidTransition RegistryBlockKind string string string
  | PhaseCycle string
  | PhaseDepthExceeded string nat
  | PhaseFanoutExceeded string nat
  | FlowCycle string
  | FlowDepthExceeded string nat
  | FlowFanoutExceeded string nat
  | Semantic SemanticValidationError
  | RegistryCanonicalJson CanonicalJsonError
  | RegistrySerialize

datatype RegistryFailure = Rejected RegistryError | RegistryPanic panic

type_synonym 'a registry = "('a, RegistryFailure) result"

subsection \<open>Names\<close>

definition normalize_string :: "script_env \<Rightarrow> string \<Rightarrow> string" where
  "normalize_string env v = nfc (sx_text env) v"

definition names_of :: "block_names \<Rightarrow> RegistryBlockKind \<Rightarrow> (string, string) btree" where
  "names_of name_ids knd = (case bt_get name_ids knd of Some names \<Rightarrow> names | None \<Rightarrow> [])"

definition insert_named_block :: "script_env \<Rightarrow> RegistryBlockKind \<Rightarrow> BlockIdentity \<Rightarrow> (string, 'b) btree \<Rightarrow> block_names \<Rightarrow> 'b
    \<Rightarrow> ((string, 'b) btree \<times> block_names, RegistryError) result" where
  "insert_named_block env knd identity blocks name_ids block =
    (let names_for_kind = names_of name_ids knd in
     and_then (ensure (is_valid_block_id (bi_id identity)) (InvalidBlockId (bi_id identity))) (\<lambda>_.
     and_then (ensure (bi_name identity \<noteq> []) (InvalidBlockName knd (bi_id identity))) (\<lambda>_.
     and_then (ensure (bt_get blocks (bi_id identity) = None) (DuplicateId (RegistryBlockKind_as_str knd) (bi_id identity))) (\<lambda>_.
     and_then (ensure (bt_get names_for_kind (bi_id identity) = None) (AmbiguousReference knd (bi_id identity))) (\<lambda>_.
     and_then (ensure (bt_get blocks (bi_name identity) = None) (AmbiguousReference knd (bi_name identity))) (\<lambda>_.
     let normalized_name = normalize_string env (bi_name identity) in
     and_then (ensure (bt_get names_for_kind normalized_name = None) (DuplicateName knd (bi_name identity))) (\<lambda>_.
     Ok (bt_insert (bi_id identity) block blocks,
         bt_insert knd (bt_insert normalized_name (bi_id identity) names_for_kind) name_ids))))))))"

definition named_block :: "script_env \<Rightarrow> ResolvedRegistry \<Rightarrow> RegistryBlockKind \<Rightarrow> string \<Rightarrow> (string, 'b) btree \<Rightarrow> 'b option" where
  "named_block env reg knd reference blocks =
    (case bt_get blocks reference of
       Some b \<Rightarrow> Some b
     | None \<Rightarrow>
         Option.bind (Option.bind (bt_get (rr_name_ids reg) knd) (\<lambda>names. bt_get names (normalize_string env reference)))
           (bt_get blocks))"

definition flow_block :: "script_env \<Rightarrow> ResolvedRegistry \<Rightarrow> string \<Rightarrow> FlowBlock option" where
  "flow_block env reg reference = named_block env reg KindFlow reference (rr_flows reg)"

definition phase_block :: "script_env \<Rightarrow> ResolvedRegistry \<Rightarrow> string \<Rightarrow> PhaseBlock option" where
  "phase_block env reg reference = named_block env reg KindPhase reference (rr_phases reg)"

definition tool_block :: "script_env \<Rightarrow> ResolvedRegistry \<Rightarrow> string \<Rightarrow> ToolBlock option" where
  "tool_block env reg reference = named_block env reg KindTool reference (rr_tools reg)"

definition instruction_block :: "script_env \<Rightarrow> ResolvedRegistry \<Rightarrow> string \<Rightarrow> InstructionBlock option" where
  "instruction_block env reg reference = named_block env reg KindInstruction reference (rr_instructions reg)"

definition require_tool :: "script_env \<Rightarrow> ResolvedRegistry \<Rightarrow> string \<Rightarrow> RegistryBlockKind \<Rightarrow> string \<Rightarrow> (ToolBlock, RegistryError) result" where
  "require_tool env reg reference from_kind from_id =
     ok_or (MissingReference from_kind from_id (RegistryBlockKind_as_str KindTool) reference) (tool_block env reg reference)"

definition require_instruction :: "script_env \<Rightarrow> ResolvedRegistry \<Rightarrow> string \<Rightarrow> RegistryBlockKind \<Rightarrow> string \<Rightarrow> (InstructionBlock, RegistryError) result" where
  "require_instruction env reg reference from_kind from_id =
     ok_or (MissingReference from_kind from_id (RegistryBlockKind_as_str KindInstruction) reference) (instruction_block env reg reference)"

definition require_phase :: "script_env \<Rightarrow> ResolvedRegistry \<Rightarrow> string \<Rightarrow> RegistryBlockKind \<Rightarrow> string \<Rightarrow> (PhaseBlock, RegistryError) result" where
  "require_phase env reg reference from_kind from_id =
     ok_or (MissingReference from_kind from_id (RegistryBlockKind_as_str KindPhase) reference) (phase_block env reg reference)"

definition require_flow :: "script_env \<Rightarrow> ResolvedRegistry \<Rightarrow> string \<Rightarrow> RegistryBlockKind \<Rightarrow> string \<Rightarrow> (FlowBlock, RegistryError) result" where
  "require_flow env reg reference from_kind from_id =
     ok_or (MissingReference from_kind from_id (RegistryBlockKind_as_str KindFlow) reference) (flow_block env reg reference)"

subsection \<open>References\<close>

text \<open>The loops over the Instruction and the Tool references of a Phase refuse a block referred to twice.\<close>

fun distinct_references :: "(string \<Rightarrow> ('b, RegistryError) result) \<Rightarrow> ('b \<Rightarrow> string) \<Rightarrow> string \<Rightarrow> string \<Rightarrow> string bset \<Rightarrow> string list
    \<Rightarrow> (unit, RegistryError) result" where
  "distinct_references require block_id what from_id seen [] = Ok ()"
| "distinct_references require block_id what from_id seen (reference # refs) =
     and_then (require reference) (\<lambda>block.
     and_then (ensure (\<not> bs_contains seen (block_id block)) (DuplicateId what (from_id @ ''.'' @ block_id block))) (\<lambda>_.
     distinct_references require block_id what from_id (bs_insert (block_id block) seen) refs))"

fun phase_positions_loop :: "script_env \<Rightarrow> ResolvedRegistry \<Rightarrow> RegistryBlockKind \<Rightarrow> string \<Rightarrow> nat \<Rightarrow> (string, nat) btree \<Rightarrow> string list
    \<Rightarrow> ((string, nat) btree, RegistryError) result" where
  "phase_positions_loop env reg from_kind from_id index positions [] = Ok positions"
| "phase_positions_loop env reg from_kind from_id index positions (reference # refs) =
     and_then (require_phase env reg reference from_kind from_id) (\<lambda>phase.
     and_then (ensure (bt_get positions (bi_id (pb_identity phase)) = None)
       (DuplicateId ''child phase reference'' (from_id @ ''.'' @ bi_id (pb_identity phase)))) (\<lambda>_.
     phase_positions_loop env reg from_kind from_id (index + 1) (bt_insert (bi_id (pb_identity phase)) index positions) refs))"

definition phase_positions :: "script_env \<Rightarrow> ResolvedRegistry \<Rightarrow> string list \<Rightarrow> RegistryBlockKind \<Rightarrow> string
    \<Rightarrow> ((string, nat) btree, RegistryError) result" where
  "phase_positions env reg references from_kind from_id = phase_positions_loop env reg from_kind from_id 0 [] references"

definition invalid_owner :: "RegistryBlockKind \<Rightarrow> string \<Rightarrow> DefinitionProblem \<Rightarrow> RegistryError" where
  "invalid_owner from_kind from_id problem =
    (case from_kind of
       KindPhase \<Rightarrow> Semantic (InvalidPhaseDefinition from_id problem)
     | _ \<Rightarrow> Semantic (InvalidFlowDefinition from_id problem))"

definition validate_transition :: "script_env \<Rightarrow> ResolvedRegistry \<Rightarrow> (string, nat) btree \<Rightarrow> RegistryBlockKind \<Rightarrow> string \<Rightarrow> PhaseTransition
    \<Rightarrow> (unit, RegistryError) result" where
  "validate_transition env reg positions from_kind from_id transition =
     and_then (require_phase env reg (pt_from_phase_ref transition) from_kind from_id) (\<lambda>source.
     and_then (require_phase env reg (pt_to_phase_ref transition) from_kind from_id) (\<lambda>target.
     and_then (ok_or (MissingReference from_kind from_id ''Transition source child Phase'' (pt_from_phase_ref transition))
       (bt_get positions (bi_id (pb_identity source)))) (\<lambda>source_index.
     and_then (ok_or (MissingReference from_kind from_id ''Transition target child Phase'' (pt_to_phase_ref transition))
       (bt_get positions (bi_id (pb_identity target)))) (\<lambda>target_index.
     and_then (ensure (\<not> target_index \<le> source_index)
       (InvalidTransition from_kind from_id (bi_id (pb_identity source)) (bi_id (pb_identity target)))) (\<lambda>_.
     map_err (\<lambda>e. invalid_owner from_kind from_id (TransitionPredicate (bi_id (pb_identity source)) e))
       (validate_predicate_against_contract (sx_text env) (pt_when transition) (pb_output source)))))))"

definition validate_transitions :: "script_env \<Rightarrow> ResolvedRegistry \<Rightarrow> PhaseTransition list \<Rightarrow> (string, nat) btree \<Rightarrow> RegistryBlockKind \<Rightarrow> string
    \<Rightarrow> (unit, RegistryError) result" where
  "validate_transitions env reg transitions positions from_kind from_id =
     each_ok (validate_transition env reg positions from_kind from_id) transitions"

definition validate_phase_references :: "script_env \<Rightarrow> ResolvedRegistry \<Rightarrow> PhaseBlock \<Rightarrow> (unit, RegistryError) result" where
  "validate_phase_references env reg phase =
    (let phase_id = bi_id (pb_identity phase) in
     and_then (distinct_references (\<lambda>r. require_instruction env reg r KindPhase phase_id) (\<lambda>b. bi_id (ib_identity b))
       ''phase instruction reference'' phase_id [] (pb_instruction_refs phase)) (\<lambda>_.
     and_then (distinct_references (\<lambda>r. require_tool env reg r KindPhase phase_id) (\<lambda>b. bi_id (tb_identity b))
       ''phase tool reference'' phase_id [] (pb_tool_refs phase)) (\<lambda>_.
     and_then (phase_positions env reg (pb_phase_refs phase) KindPhase phase_id) (\<lambda>child_positions.
     and_then (case pb_result_from phase of
         Some result_from \<Rightarrow>
           and_then (require_phase env reg result_from KindPhase phase_id) (\<lambda>result_phase.
           and_then (ensure (bt_get child_positions (bi_id (pb_identity result_phase)) \<noteq> None)
             (MissingReference KindPhase phase_id ''direct child Phase result'' result_from)) (\<lambda>_.
           ensure (pb_output phase = pb_output result_phase)
             (Semantic (InvalidPhaseDefinition phase_id (OutputMismatch (bi_id (pb_identity result_phase)))))))
       | None \<Rightarrow> Ok ()) (\<lambda>_.
     validate_transitions env reg (pb_transitions phase) child_positions KindPhase phase_id)))))"

definition validate_flow_references :: "script_env \<Rightarrow> ResolvedRegistry \<Rightarrow> FlowBlock \<Rightarrow> (unit, RegistryError) result" where
  "validate_flow_references env reg flow =
    (let flow_id = bi_id (fb_identity flow) in
     and_then (phase_positions env reg (fb_phase_refs flow) KindFlow flow_id) (\<lambda>positions.
     and_then (each_ok (\<lambda>r. and_then (require_flow env reg r KindFlow flow_id) (\<lambda>_. Ok ())) (fb_subflow_refs flow)) (\<lambda>_.
     validate_transitions env reg (fb_transitions flow) positions KindFlow flow_id)))"

subsection \<open>Cycles and nesting\<close>

record TailDepth =
  td_deepest_id :: string
  td_depth :: nat

record 'b visitor =
  vs_require :: "string \<Rightarrow> string \<Rightarrow> ('b, RegistryError) result"
  vs_id :: "'b \<Rightarrow> string"
  vs_refs :: "'b \<Rightarrow> string list"
  vs_max_depth :: nat
  vs_max_fanout :: nat
  vs_depth_exceeded :: "string \<Rightarrow> nat \<Rightarrow> RegistryError"
  vs_cycle :: "string \<Rightarrow> RegistryError"
  vs_fanout_exceeded :: "string \<Rightarrow> nat \<Rightarrow> RegistryError"
  vs_expected :: string

lemma fold_ok_cong [fundef_cong]:
  "xs = ys \<Longrightarrow> s = s' \<Longrightarrow> (\<And>s x. x \<in> set ys \<Longrightarrow> f s x = g s x) \<Longrightarrow> fold_ok f s xs = fold_ok g s' ys"
  by (induction ys arbitrary: xs s s') (auto intro: and_then_cong)

definition deeper_tail :: "TailDepth \<Rightarrow> TailDepth \<Rightarrow> TailDepth" where
  "deeper_tail child_tail tail =
    (if td_depth child_tail + 1 > td_depth tail
     then \<lparr> td_deepest_id = td_deepest_id child_tail, td_depth = td_depth child_tail + 1 \<rparr> else tail)"

function visit_block :: "'b visitor \<Rightarrow> string \<Rightarrow> nat \<Rightarrow> string bset \<Rightarrow> (string, TailDepth) btree
    \<Rightarrow> (string bset \<times> (string, TailDepth) btree) registry" where
  "visit_block v block_id depth visiting visited_map =
    (if depth > vs_max_depth v then Err (Rejected (vs_depth_exceeded v block_id depth))
     else case bt_get visited_map block_id of
       Some tail \<Rightarrow>
         let resolved_depth = depth + td_depth tail - 1 in
         if resolved_depth > vs_max_depth v then Err (Rejected (vs_depth_exceeded v (td_deepest_id tail) resolved_depth))
         else Ok (visiting, visited_map)
     | None \<Rightarrow>
         if bs_contains visiting block_id then Err (Rejected (vs_cycle v block_id))
         else
           and_then (map_err Rejected (vs_require v block_id block_id)) (\<lambda>block.
           if length (vs_refs v block) > vs_max_fanout v then Err (Rejected (vs_fanout_exceeded v block_id (length (vs_refs v block))))
           else
             and_then (fold_ok (\<lambda>(tail, visiting, visited_map) child_ref.
                 and_then (map_err Rejected (vs_require v child_ref block_id)) (\<lambda>child.
                 and_then (visit_block v (vs_id v child) (depth + 1) visiting visited_map) (\<lambda>(visiting, visited_map).
                 and_then (map_err RegistryPanic (run_expect (vs_expected v) (bt_get visited_map (vs_id v child)))) (\<lambda>child_tail.
                 Ok (deeper_tail child_tail tail, visiting, visited_map)))))
               (\<lparr> td_deepest_id = block_id, td_depth = 1 \<rparr>, bs_insert block_id visiting, visited_map) (vs_refs v block))
             (\<lambda>(tail, visiting, visited_map). Ok (bt_remove block_id visiting, bt_insert block_id tail visited_map))))"
  by pat_completeness auto

termination visit_block
  by (relation "measure (\<lambda>(v, _, depth, _, _). Suc (vs_max_depth v) - depth)") auto

declare visit_block.simps [simp del]

definition validate_cycles :: "'b visitor \<Rightarrow> string list \<Rightarrow> (string, TailDepth) btree registry" where
  "validate_cycles v ids =
     fold_ok (\<lambda>visited_map block_id. and_then (visit_block v block_id 1 [] visited_map) (\<lambda>(_, visited_map). Ok visited_map)) [] ids"

definition phase_visitor :: "script_env \<Rightarrow> ResolvedRegistry \<Rightarrow> PhaseBlock visitor" where
  "phase_visitor env reg =
    \<lparr> vs_require = (\<lambda>r from_id. require_phase env reg r KindPhase from_id), vs_id = (\<lambda>b. bi_id (pb_identity b)), vs_refs = pb_phase_refs,
      vs_max_depth = MAX_PHASE_NESTING_DEPTH, vs_max_fanout = MAX_PHASE_FANOUT,
      vs_depth_exceeded = PhaseDepthExceeded, vs_cycle = PhaseCycle, vs_fanout_exceeded = PhaseFanoutExceeded,
      vs_expected = ''visited child phase has tail depth'' \<rparr>"

definition flow_visitor :: "script_env \<Rightarrow> ResolvedRegistry \<Rightarrow> FlowBlock visitor" where
  "flow_visitor env reg =
    \<lparr> vs_require = (\<lambda>r from_id. require_flow env reg r KindFlow from_id), vs_id = (\<lambda>b. bi_id (fb_identity b)), vs_refs = fb_subflow_refs,
      vs_max_depth = MAX_FLOW_NESTING_DEPTH, vs_max_fanout = MAX_FLOW_FANOUT,
      vs_depth_exceeded = FlowDepthExceeded, vs_cycle = FlowCycle, vs_fanout_exceeded = FlowFanoutExceeded,
      vs_expected = ''visited child flow has tail depth'' \<rparr>"

definition visit_phase :: "script_env \<Rightarrow> ResolvedRegistry \<Rightarrow> string \<Rightarrow> nat \<Rightarrow> string bset \<Rightarrow> (string, TailDepth) btree
    \<Rightarrow> (string bset \<times> (string, TailDepth) btree) registry" where
  "visit_phase env reg = visit_block (phase_visitor env reg)"

definition visit_flow :: "script_env \<Rightarrow> ResolvedRegistry \<Rightarrow> string \<Rightarrow> nat \<Rightarrow> string bset \<Rightarrow> (string, TailDepth) btree
    \<Rightarrow> (string bset \<times> (string, TailDepth) btree) registry" where
  "visit_flow env reg = visit_block (flow_visitor env reg)"

definition validate_phase_cycles :: "script_env \<Rightarrow> ResolvedRegistry \<Rightarrow> unit registry" where
  "validate_phase_cycles env reg = and_then (validate_cycles (phase_visitor env reg) (map fst (rr_phases reg))) (\<lambda>_. Ok ())"

definition validate_flow_cycles :: "script_env \<Rightarrow> ResolvedRegistry \<Rightarrow> unit registry" where
  "validate_flow_cycles env reg = and_then (validate_cycles (flow_visitor env reg) (map fst (rr_flows reg))) (\<lambda>_. Ok ())"

definition validate_references :: "script_env \<Rightarrow> ResolvedRegistry \<Rightarrow> unit registry" where
  "validate_references env reg =
     and_then (map_err Rejected (each_ok (\<lambda>(_, phase). validate_phase_references env reg phase) (rr_phases reg))) (\<lambda>_.
     and_then (map_err Rejected (each_ok (\<lambda>(_, flow). validate_flow_references env reg flow) (rr_flows reg))) (\<lambda>_.
     and_then (validate_phase_cycles env reg) (\<lambda>_.
     validate_flow_cycles env reg)))"

subsection \<open>Resolving a registry\<close>

definition canonicalize_reference :: "block_names \<Rightarrow> RegistryBlockKind \<Rightarrow> string \<Rightarrow> string" where
  "canonicalize_reference name_ids knd reference =
    (case Option.bind (bt_get name_ids knd) (\<lambda>names. bt_get names reference) of Some i \<Rightarrow> i | None \<Rightarrow> reference)"

definition canonicalize_transition_references :: "block_names \<Rightarrow> PhaseTransition \<Rightarrow> PhaseTransition" where
  "canonicalize_transition_references name_ids transition =
     transition\<lparr> pt_from_phase_ref := canonicalize_reference name_ids KindPhase (pt_from_phase_ref transition),
                pt_to_phase_ref := canonicalize_reference name_ids KindPhase (pt_to_phase_ref transition) \<rparr>"

definition canonical_phase :: "block_names \<Rightarrow> PhaseBlock \<Rightarrow> PhaseBlock" where
  "canonical_phase name_ids phase =
     phase\<lparr> pb_instruction_refs := map (canonicalize_reference name_ids KindInstruction) (pb_instruction_refs phase),
           pb_tool_refs := map (canonicalize_reference name_ids KindTool) (pb_tool_refs phase),
           pb_phase_refs := map (canonicalize_reference name_ids KindPhase) (pb_phase_refs phase),
           pb_result_from := map_option (canonicalize_reference name_ids KindPhase) (pb_result_from phase),
           pb_transitions := map (canonicalize_transition_references name_ids) (pb_transitions phase) \<rparr>"

definition canonical_flow :: "block_names \<Rightarrow> FlowBlock \<Rightarrow> FlowBlock" where
  "canonical_flow name_ids flow =
     flow\<lparr> fb_phase_refs := map (canonicalize_reference name_ids KindPhase) (fb_phase_refs flow),
          fb_subflow_refs := map (canonicalize_reference name_ids KindFlow) (fb_subflow_refs flow),
          fb_transitions := map (canonicalize_transition_references name_ids) (fb_transitions flow) \<rparr>"

definition with_canonical_references :: "ResolvedRegistry \<Rightarrow> ResolvedRegistry" where
  "with_canonical_references reg =
     reg\<lparr> rr_phases := map (\<lambda>(i, phase). (i, canonical_phase (rr_name_ids reg) phase)) (rr_phases reg),
         rr_flows := map (\<lambda>(i, flow). (i, canonical_flow (rr_name_ids reg) flow)) (rr_flows reg) \<rparr>"

definition canonicalize_registry_block :: "script_env \<Rightarrow> RegistryBlock \<Rightarrow> (RegistryBlock, RegistryError) result" where
  "canonicalize_registry_block env block =
     and_then (ok_or RegistrySerialize (sx_to_value env block)) (\<lambda>v.
     and_then (map_err RegistryCanonicalJson (canonical_json (sx_text env) (canonicalize_registry_value v))) (\<lambda>canonical.
     ok_or RegistrySerialize (sx_from_str env canonical)))"

definition registry_insert :: "script_env \<Rightarrow> ResolvedRegistry \<Rightarrow> RegistryBlock \<Rightarrow> block_names \<Rightarrow> (ResolvedRegistry \<times> block_names, RegistryError) result" where
  "registry_insert env reg block name_ids =
     and_then (map_err Semantic (validate_registry_block_semantics env block)) (\<lambda>_.
     case block of
       BlockTool b \<Rightarrow> and_then (insert_named_block env KindTool (tb_identity b) (rr_tools reg) name_ids b)
         (\<lambda>(blocks, name_ids). Ok (reg\<lparr>rr_tools := blocks\<rparr>, name_ids))
     | BlockInstruction b \<Rightarrow> and_then (insert_named_block env KindInstruction (ib_identity b) (rr_instructions reg) name_ids b)
         (\<lambda>(blocks, name_ids). Ok (reg\<lparr>rr_instructions := blocks\<rparr>, name_ids))
     | BlockPhase b \<Rightarrow> and_then (insert_named_block env KindPhase (pb_identity b) (rr_phases reg) name_ids b)
         (\<lambda>(blocks, name_ids). Ok (reg\<lparr>rr_phases := blocks\<rparr>, name_ids))
     | BlockFlow b \<Rightarrow> and_then (insert_named_block env KindFlow (fb_identity b) (rr_flows reg) name_ids b)
         (\<lambda>(blocks, name_ids). Ok (reg\<lparr>rr_flows := blocks\<rparr>, name_ids)))"

definition authored_shape_error :: "RegistryBlock \<Rightarrow> ShapeProblem \<Rightarrow> RegistryError" where
  "authored_shape_error block problem =
    (let (knd, identity) = kind_and_identity block in
     if \<not> is_valid_block_id (bi_id identity) then InvalidBlockId (bi_id identity)
     else if bi_name identity = [] then InvalidBlockName knd (bi_id identity)
     else ProgrammaticShape problem)"

definition add_block :: "script_env \<Rightarrow> ResolvedRegistry \<times> block_names \<Rightarrow> RegistryBlock \<Rightarrow> (ResolvedRegistry \<times> block_names, RegistryError) result" where
  "add_block env state block =
     and_then (map_err (authored_shape_error block) (validate_registry_block_shape block)) (\<lambda>_.
     and_then (canonicalize_registry_block env block) (\<lambda>block.
     and_then (map_err ProgrammaticShape (validate_registry_block_shape block)) (\<lambda>_.
     registry_insert env (fst state) block (snd state))))"

definition empty_registry :: ResolvedRegistry where
  "empty_registry = \<lparr> rr_instructions = [], rr_flows = [], rr_phases = [], rr_tools = [], rr_name_ids = [] \<rparr>"

definition from_blocks :: "script_env \<Rightarrow> RegistryBlock list \<Rightarrow> ResolvedRegistry registry" where
  "from_blocks env blocks =
     and_then (map_err Rejected (fold_ok (add_block env) (empty_registry, []) blocks)) (\<lambda>(reg, name_ids).
     let reg = reg\<lparr>rr_name_ids := name_ids\<rparr> in
     and_then (validate_references env reg) (\<lambda>_.
     Ok (with_canonical_references reg)))"

subsection \<open>What the search for cycles shows\<close>

lemma fold_ok_inv:
  assumes "fold_ok f s xs = Ok s'" "P [] s"
    and "\<And>ys y s s'. y \<in> set xs \<Longrightarrow> P ys s \<Longrightarrow> f s y = Ok s' \<Longrightarrow> P (ys @ [y]) s'"
  shows "P xs s'"
  using assms
proof (induction xs arbitrary: s' rule: rev_induct)
  case (snoc x xs)
  then obtain s'' where s'': "fold_ok f s xs = Ok s''" "f s'' x = Ok s'" by (auto simp: fold_ok_append)
  have "P xs s''" using snoc.IH [OF s''(1) snoc.prems(2)] snoc.prems(3) by simp
  then show ?case using snoc.prems(3) [of x xs s'' s'] s''(2) by simp
qed simp

lemma fold_ok_ErrD: "fold_ok f s xs = Err e \<Longrightarrow> \<exists>s' x. x \<in> set xs \<and> f s' x = Err e"
proof (induction xs arbitrary: s)
  case (Cons x xs)
  then show ?case by (auto simp: and_then_eq_Err) blast
qed simp

definition block_child :: "'b visitor \<Rightarrow> string \<Rightarrow> string \<Rightarrow> bool" where
  "block_child v a b \<longleftrightarrow>
     (\<exists>block r child. vs_require v a a = Ok block \<and> r \<in> set (vs_refs v block) \<and> vs_require v r a = Ok child \<and> b = vs_id v child)"

fun is_chain :: "('a \<Rightarrow> 'a \<Rightarrow> bool) \<Rightarrow> 'a list \<Rightarrow> bool" where
  "is_chain E (a # b # cs) \<longleftrightarrow> E a b \<and> is_chain E (b # cs)"
| "is_chain E _ \<longleftrightarrow> True"

definition bounds_chains :: "'b visitor \<Rightarrow> string \<Rightarrow> nat \<Rightarrow> bool" where
  "bounds_chains v i n \<longleftrightarrow> (\<forall>cs. is_chain (block_child v) (i # cs) \<longrightarrow> Suc (length cs) \<le> n)"

definition tails_ok :: "'b visitor \<Rightarrow> (string, TailDepth) btree \<Rightarrow> bool" where
  "tails_ok v tails \<longleftrightarrow> (\<forall>i t. bt_get tails i = Some t \<longrightarrow> 1 \<le> td_depth t \<and> bounds_chains v i (td_depth t))"

lemma bounds_chains_mono: "bounds_chains v i m \<Longrightarrow> m \<le> n \<Longrightarrow> bounds_chains v i n"
  unfolding bounds_chains_def using order_trans by blast

lemma bounds_chains_parent:
  assumes "vs_require v i i = Ok block" "1 \<le> n"
    and "\<And>r. r \<in> set (vs_refs v block) \<Longrightarrow> \<exists>child m. vs_require v r i = Ok child \<and> bounds_chains v (vs_id v child) m \<and> Suc m \<le> n"
  shows "bounds_chains v i n"
  unfolding bounds_chains_def
proof (intro allI impI)
  fix cs assume chain: "is_chain (block_child v) (i # cs)"
  show "Suc (length cs) \<le> n"
  proof (cases cs)
    case (Cons b ds)
    with chain assms(1) obtain r child where r: "r \<in> set (vs_refs v block)" "vs_require v r i = Ok child" "b = vs_id v child"
        and ds: "is_chain (block_child v) (b # ds)"
      by (auto simp: block_child_def)
    from assms(3) [OF r(1)] r obtain m where "bounds_chains v b m" "Suc m \<le> n" by auto
    with ds Cons show ?thesis by (auto simp: bounds_chains_def)
  qed (use assms(2) in simp)
qed

lemma deeper_tail_depth [simp]: "td_depth (deeper_tail c t) = max (td_depth t) (Suc (td_depth c))"
  by (simp add: deeper_tail_def)

text \<open>The body of the loop over the children.\<close>

definition visit_child :: "'b visitor \<Rightarrow> string \<Rightarrow> nat \<Rightarrow> TailDepth \<times> string bset \<times> (string, TailDepth) btree \<Rightarrow> string
    \<Rightarrow> (TailDepth \<times> string bset \<times> (string, TailDepth) btree) registry" where
  "visit_child v i d = (\<lambda>(tail, visiting, visited_map) child_ref.
     and_then (map_err Rejected (vs_require v child_ref i)) (\<lambda>child.
     and_then (visit_block v (vs_id v child) (d + 1) visiting visited_map) (\<lambda>(visiting, visited_map).
     and_then (map_err RegistryPanic (run_expect (vs_expected v) (bt_get visited_map (vs_id v child)))) (\<lambda>child_tail.
     Ok (deeper_tail child_tail tail, visiting, visited_map)))))"

text \<open>The invariant of the loop over the children of a block, after the references \<open>ys\<close>.\<close>

definition children_inv :: "'b visitor \<Rightarrow> string \<Rightarrow> nat \<Rightarrow> string list \<Rightarrow> TailDepth \<times> string bset \<times> (string, TailDepth) btree \<Rightarrow> bool" where
  "children_inv v i d ys = (\<lambda>(tail, visiting, tails). tails_ok v tails \<and> 1 \<le> td_depth tail \<and> d + td_depth tail \<le> Suc (vs_max_depth v) \<and>
     (\<forall>r \<in> set ys. \<exists>child m. vs_require v r i = Ok child \<and> bounds_chains v (vs_id v child) m \<and> Suc m \<le> td_depth tail))"

lemma children_inv_step:
  assumes inv: "children_inv v i d ys (tail, visiting, tails)" and child: "vs_require v r i = Ok child"
    and tails': "tails_ok v tails'" and ct: "bt_get tails' (vs_id v child) = Some ct" "d + 1 + td_depth ct \<le> Suc (vs_max_depth v)"
  shows "children_inv v i d (ys @ [r]) (deeper_tail ct tail, visiting', tails')"
proof -
  have ct': "bounds_chains v (vs_id v child) (td_depth ct)" using tails' ct(1) by (simp add: tails_ok_def)
  have "\<exists>child m. vs_require v r' i = Ok child \<and> bounds_chains v (vs_id v child) m \<and> Suc m \<le> td_depth (deeper_tail ct tail)"
    if r': "r' \<in> set (ys @ [r])" for r'
  proof (cases "r' = r")
    case True
    then show ?thesis using child ct' by auto
  next
    case False
    then obtain child m where "vs_require v r' i = Ok child" "bounds_chains v (vs_id v child) m" "Suc m \<le> td_depth tail"
      using inv r' by (auto simp: children_inv_def)
    then show ?thesis by (auto simp: le_max_iff_disj)
  qed
  then show ?thesis using inv tails' ct(2) unfolding children_inv_def by (simp add: max_def)
qed

lemma visit_block_tails:
  assumes "visit_block v i d visiting tails = Ok (visiting', tails')" "tails_ok v tails"
  shows "tails_ok v tails' \<and> (\<exists>t. bt_get tails' i = Some t \<and> d + td_depth t \<le> Suc (vs_max_depth v))"
  using assms
proof (induction v i d visiting tails arbitrary: visiting' tails' rule: visit_block.induct)
  case (1 v i d visiting tails)
  show ?case
  proof (cases "bt_get tails i")
    case (Some t)
    then show ?thesis using "1.prems"
      by (auto simp: visit_block.simps [of v i] Let_def tails_ok_def split: if_splits)
  next
    case None
    from "1.prems"(1) None obtain block tail vis tls where d: "d \<le> vs_max_depth v" and fresh: "\<not> bs_contains visiting i"
        and block: "vs_require v i i = Ok block" and fan: "\<not> vs_max_fanout v < length (vs_refs v block)"
        and fold: "fold_ok (visit_child v i d) (\<lparr> td_deepest_id = i, td_depth = 1 \<rparr>, bs_insert i visiting, tails) (vs_refs v block) = Ok (tail, vis, tls)"
        and out: "tails' = bt_insert i tail tls"
      by (subst (asm) visit_block.simps) (auto simp: visit_child_def split: if_splits)
    have "children_inv v i d (vs_refs v block) (tail, vis, tls)"
    proof (rule fold_ok_inv [OF fold])
      show "children_inv v i d [] (\<lparr> td_deepest_id = i, td_depth = 1 \<rparr>, bs_insert i visiting, tails)"
        using "1.prems"(2) d by (simp add: children_inv_def)
    next
      fix ys r s s' assume r: "r \<in> set (vs_refs v block)" and inv: "children_inv v i d ys s" and s': "visit_child v i d s r = Ok s'"
      obtain tail vis tls where s: "s = (tail, vis, tls)" by (cases s) auto
      from s' obtain child vis' tls' ct where child: "vs_require v r i = Ok child"
          and visit: "visit_block v (vs_id v child) (d + 1) vis tls = Ok (vis', tls')"
          and ct: "bt_get tls' (vs_id v child) = Some ct" and s'': "s' = (deeper_tail ct tail, vis', tls')"
        by (auto simp: visit_child_def s run_expect_def)
      have "tails_ok v tls' \<and> (\<exists>t. bt_get tls' (vs_id v child) = Some t \<and> d + 1 + td_depth t \<le> Suc (vs_max_depth v))"
        using "1.IH" d None fresh block fan r child visit inv s by (auto simp: children_inv_def)
      then show "children_inv v i d (ys @ [r]) s'"
        using children_inv_step [OF inv [unfolded s] child] ct unfolding s'' by auto
    qed
    then show ?thesis
      using bounds_chains_parent [OF block, of "td_depth tail"] out by (auto simp: children_inv_def tails_ok_def)
  qed
qed

text \<open>The expectation of the loop always holds: a visited block has its tail.\<close>

lemma visit_block_visited: "visit_block v i d visiting tails = Ok (visiting', tails') \<Longrightarrow> bt_get tails' i \<noteq> None"
  by (subst (asm) visit_block.simps) (auto simp: Let_def split: if_splits option.splits)

lemma visit_block_no_panic: "visit_block v i d visiting tails \<noteq> Err (RegistryPanic p)"
proof (induction v i d visiting tails rule: visit_block.induct)
  case (1 v i d visiting tails)
  show ?case
  proof
    assume "visit_block v i d visiting tails = Err (RegistryPanic p)"
    then obtain block s r where d: "d \<le> vs_max_depth v" and None: "bt_get tails i = None" and fresh: "\<not> bs_contains visiting i"
        and block: "vs_require v i i = Ok block" and fan: "\<not> vs_max_fanout v < length (vs_refs v block)"
        and r: "r \<in> set (vs_refs v block)" and s: "visit_child v i d s r = Err (RegistryPanic p)"
      by (subst (asm) visit_block.simps)
        (auto simp: visit_child_def and_then_eq_Err map_err_eq_Err Let_def split: if_splits option.splits dest!: fold_ok_ErrD)
    obtain tail vis tls where s': "s = (tail, vis, tls)" by (cases s) auto
    have "visit_block v (vs_id v child) (d + 1) vis tls \<noteq> Err (RegistryPanic p)" if "vs_require v r i = Ok child" for child
      using "1.IH" d None fresh block fan r that by simp
    then show False using s
      by (auto simp: visit_child_def s' and_then_eq_Err map_err_eq_Err run_expect_def dest: visit_block_visited)
  qed
qed

lemma validate_cycles_bounds:
  assumes "validate_cycles v ids = Ok tails" "i \<in> set ids"
  shows "bounds_chains v i (vs_max_depth v)"
proof -
  have "tails_ok v tails \<and> (\<forall>i \<in> set ids. bounds_chains v i (vs_max_depth v))"
  proof (rule fold_ok_inv [OF assms(1) [unfolded validate_cycles_def]])
    show "tails_ok v [] \<and> (\<forall>i \<in> set []. bounds_chains v i (vs_max_depth v))" by (simp add: tails_ok_def)
  next
    fix ys y s s' assume inv: "tails_ok v s \<and> (\<forall>i \<in> set ys. bounds_chains v i (vs_max_depth v))"
      and "and_then (visit_block v y 1 [] s) (\<lambda>(_, visited_map). Ok visited_map) = Ok s'"
    then obtain vis where visit: "visit_block v y 1 [] s = Ok (vis, s')" by auto
    from visit_block_tails [OF this] inv obtain t where t: "tails_ok v s'" "bt_get s' y = Some t" "1 + td_depth t \<le> Suc (vs_max_depth v)" by auto
    then have "bounds_chains v y (vs_max_depth v)" by (auto simp: tails_ok_def intro: bounds_chains_mono)
    then show "tails_ok v s' \<and> (\<forall>i \<in> set (ys @ [y]). bounds_chains v i (vs_max_depth v))" using t inv by auto
  qed
  then show ?thesis using assms(2) by blast
qed

lemma validate_cycles_no_panic: "validate_cycles v ids \<noteq> Err (RegistryPanic p)"
  by (auto simp: validate_cycles_def and_then_eq_Err visit_block_no_panic dest!: fold_ok_ErrD)

subsection \<open>Names and references of a resolved registry\<close>

text \<open>
  The strings of a block that name or refer to blocks. Reading a canonical text gives back normalised
  strings, since the canonical text contains no others.
\<close>

definition transition_strings :: "PhaseTransition \<Rightarrow> string list" where
  "transition_strings t = [pt_from_phase_ref t, pt_to_phase_ref t]"

primrec block_strings :: "RegistryBlock \<Rightarrow> string list" where
  "block_strings (BlockTool b) = [bi_name (tb_identity b)]"
| "block_strings (BlockInstruction b) = [bi_name (ib_identity b)]"
| "block_strings (BlockPhase b) = bi_name (pb_identity b) # pb_instruction_refs b @ pb_tool_refs b @ pb_phase_refs b @
     (case pb_result_from b of Some r \<Rightarrow> [r] | None \<Rightarrow> []) @ concat (map transition_strings (pb_transitions b))"
| "block_strings (BlockFlow b) = bi_name (fb_identity b) # fb_phase_refs b @ fb_subflow_refs b @
     concat (map transition_strings (fb_transitions b))"

definition reads_normalised :: "script_env \<Rightarrow> bool" where
  "reads_normalised env \<longleftrightarrow> (\<forall>v t b. canonical_json (sx_text env) v = Ok t \<longrightarrow> sx_from_str env t = Some b \<longrightarrow>
     list_all (is_nfc (sx_text env)) (block_strings b))"

text \<open>The names of one kind: a block is stored under its id, and a name that is also an id names that block.\<close>

definition naming_ok :: "script_env \<Rightarrow> ('b \<Rightarrow> BlockIdentity) \<Rightarrow> (string, 'b) btree \<Rightarrow> (string, string) btree \<Rightarrow> bool" where
  "naming_ok env ident blocks names \<longleftrightarrow> bt_wf blocks \<and>
     (\<forall>i b. bt_get blocks i = Some b \<longrightarrow> bi_id (ident b) = i) \<and>
     (\<forall>n i. bt_get names n = Some i \<longrightarrow> bt_get blocks i \<noteq> None \<and> (bt_get blocks n \<noteq> None \<longrightarrow> n = i))"

lemma naming_ok_empty [simp]: "naming_ok env ident [] []"
  by (simp add: naming_ok_def)

lemma names_of_insert [simp]:
  "names_of (bt_insert k names N) k' = (if k' = k then names else names_of N k')"
  by (simp add: names_of_def)

lemma insert_named_block_ok:
  assumes "insert_named_block env knd (ident b) blocks N b = Ok (blocks', N')"
    and "naming_ok env ident blocks (names_of N knd)" "is_nfc (sx_text env) (bi_name (ident b))"
  shows "naming_ok env ident blocks' (names_of N' knd) \<and> (\<forall>k. k \<noteq> knd \<longrightarrow> names_of N' k = names_of N k) \<and>
    blocks' = bt_insert (bi_id (ident b)) b blocks"
proof -
  have out: "blocks' = bt_insert (bi_id (ident b)) b blocks"
      "N' = bt_insert knd (bt_insert (bi_name (ident b)) (bi_id (ident b)) (names_of N knd)) N"
      "bt_get blocks (bi_id (ident b)) = None" "bt_get (names_of N knd) (bi_id (ident b)) = None" "bt_get blocks (bi_name (ident b)) = None"
    using assms(1,3) by (auto simp: insert_named_block_def Let_def normalize_string_def is_nfc_def)
  then show ?thesis using assms(2) by (auto simp: naming_ok_def)
qed

definition registry_inv :: "script_env \<Rightarrow> ResolvedRegistry \<times> block_names \<Rightarrow> bool" where
  "registry_inv env = (\<lambda>(reg, N).
     naming_ok env tb_identity (rr_tools reg) (names_of N KindTool) \<and>
     naming_ok env ib_identity (rr_instructions reg) (names_of N KindInstruction) \<and>
     naming_ok env pb_identity (rr_phases reg) (names_of N KindPhase) \<and>
     naming_ok env fb_identity (rr_flows reg) (names_of N KindFlow) \<and>
     (\<forall>i p. bt_get (rr_phases reg) i = Some p \<longrightarrow> list_all (is_nfc (sx_text env)) (block_strings (BlockPhase p))) \<and>
     (\<forall>i f. bt_get (rr_flows reg) i = Some f \<longrightarrow> list_all (is_nfc (sx_text env)) (block_strings (BlockFlow f))))"

lemma registry_insert_inv:
  assumes "registry_insert env reg block N = Ok (reg', N')" "registry_inv env (reg, N)"
    and "list_all (is_nfc (sx_text env)) (block_strings block)"
  shows "registry_inv env (reg', N')"
proof (cases block)
  case (BlockTool b)
  with assms(1) obtain blocks where ins: "insert_named_block env KindTool (tb_identity b) (rr_tools reg) N b = Ok (blocks, N')"
      and reg': "reg' = reg\<lparr>rr_tools := blocks\<rparr>" by (auto simp: registry_insert_def)
  have "is_nfc (sx_text env) (bi_name (tb_identity b))" using assms(3) BlockTool by simp
  with insert_named_block_ok [where ident = tb_identity, OF ins] assms(2,3) BlockTool show ?thesis
    unfolding reg' by (auto simp: registry_inv_def simp del: block_strings.simps)
next
  case (BlockInstruction b)
  with assms(1) obtain blocks where ins: "insert_named_block env KindInstruction (ib_identity b) (rr_instructions reg) N b = Ok (blocks, N')"
      and reg': "reg' = reg\<lparr>rr_instructions := blocks\<rparr>" by (auto simp: registry_insert_def)
  have "is_nfc (sx_text env) (bi_name (ib_identity b))" using assms(3) BlockInstruction by simp
  with insert_named_block_ok [where ident = ib_identity, OF ins] assms(2,3) BlockInstruction show ?thesis
    unfolding reg' by (auto simp: registry_inv_def simp del: block_strings.simps)
next
  case (BlockPhase b)
  with assms(1) obtain blocks where ins: "insert_named_block env KindPhase (pb_identity b) (rr_phases reg) N b = Ok (blocks, N')"
      and reg': "reg' = reg\<lparr>rr_phases := blocks\<rparr>" by (auto simp: registry_insert_def)
  have "is_nfc (sx_text env) (bi_name (pb_identity b))" using assms(3) BlockPhase by simp
  with insert_named_block_ok [where ident = pb_identity, OF ins] assms(2,3) BlockPhase show ?thesis
    unfolding reg' by (auto simp: registry_inv_def simp del: block_strings.simps)
next
  case (BlockFlow b)
  with assms(1) obtain blocks where ins: "insert_named_block env KindFlow (fb_identity b) (rr_flows reg) N b = Ok (blocks, N')"
      and reg': "reg' = reg\<lparr>rr_flows := blocks\<rparr>" by (auto simp: registry_insert_def)
  have "is_nfc (sx_text env) (bi_name (fb_identity b))" using assms(3) BlockFlow by simp
  with insert_named_block_ok [where ident = fb_identity, OF ins] assms(2,3) BlockFlow show ?thesis
    unfolding reg' by (auto simp: registry_inv_def simp del: block_strings.simps)
qed

lemma add_blocks_inv:
  assumes "fold_ok (add_block env) (empty_registry, []) blocks = Ok state" "reads_normalised env"
  shows "registry_inv env state"
proof (rule fold_ok_inv [OF assms(1), where P = "\<lambda>_. registry_inv env"])
  show "registry_inv env (empty_registry, [])" by (simp add: registry_inv_def empty_registry_def names_of_def)
next
  fix y s s' assume inv: "registry_inv env s" and add: "add_block env s y = Ok s'"
  obtain reg N where s: "s = (reg, N)" by (cases s)
  obtain reg' N' where s': "s' = (reg', N')" by (cases s')
  from add obtain block where "canonicalize_registry_block env y = Ok block" and ins: "registry_insert env reg block N = Ok (reg', N')"
    by (auto simp: add_block_def s s')
  then have "list_all (is_nfc (sx_text env)) (block_strings block)"
    using assms(2) unfolding canonicalize_registry_block_def reads_normalised_def by auto
  then show "registry_inv env s'" using registry_insert_inv [OF ins] inv s s' by simp
qed

text \<open>A normalised reference resolves to the block whose id replaces it.\<close>

lemma named_block_names_of:
  "named_block env reg knd r blocks = (case bt_get blocks r of Some b \<Rightarrow> Some b
     | None \<Rightarrow> Option.bind (bt_get (names_of (rr_name_ids reg) knd) (nfc (sx_text env) r)) (bt_get blocks))"
  by (auto simp: named_block_def names_of_def normalize_string_def split: option.split)

lemma canonicalize_reference_names_of:
  "canonicalize_reference N knd r = (case bt_get (names_of N knd) r of Some i \<Rightarrow> i | None \<Rightarrow> r)"
  by (auto simp: canonicalize_reference_def names_of_def split: option.split)

lemma resolved_reference:
  assumes "naming_ok env ident blocks (names_of (rr_name_ids reg) knd)" "named_block env reg knd r blocks = Some b" "is_nfc (sx_text env) r"
  shows "canonicalize_reference (rr_name_ids reg) knd r = bi_id (ident b) \<and> bt_get blocks (bi_id (ident b)) = Some b"
proof (cases "bt_get blocks r")
  case None
  then obtain i where i: "bt_get (names_of (rr_name_ids reg) knd) r = Some i" "bt_get blocks i = Some b"
    using assms(2,3) by (auto simp: named_block_names_of is_nfc_def bind_eq_Some_conv)
  then show ?thesis using assms(1) by (auto simp: naming_ok_def canonicalize_reference_names_of)
next
  case (Some b')
  then have "b' = b" using assms(2) by (simp add: named_block_names_of)
  then show ?thesis using Some assms(1)
    by (auto simp: naming_ok_def canonicalize_reference_names_of split: option.split) blast
qed

subsection \<open>What an accepted registry guarantees\<close>

definition transition_closed :: "script_env \<Rightarrow> ResolvedRegistry \<Rightarrow> string list \<Rightarrow> PhaseTransition \<Rightarrow> bool" where
  "transition_closed env reg refs t \<longleftrightarrow> (\<exists>i j source. i < j \<and> j < length refs \<and> pt_from_phase_ref t = refs ! i \<and> pt_to_phase_ref t = refs ! j \<and>
     bt_get (rr_phases reg) (refs ! i) = Some source \<and>
     validate_predicate_against_contract (sx_text env) (pt_when t) (pb_output source) = Ok ())"

definition phase_closed :: "script_env \<Rightarrow> ResolvedRegistry \<Rightarrow> string \<Rightarrow> PhaseBlock \<Rightarrow> bool" where
  "phase_closed env reg i p \<longleftrightarrow> bi_id (pb_identity p) = i \<and>
     distinct (pb_instruction_refs p) \<and> set (pb_instruction_refs p) \<subseteq> fst ` set (rr_instructions reg) \<and>
     distinct (pb_tool_refs p) \<and> set (pb_tool_refs p) \<subseteq> fst ` set (rr_tools reg) \<and>
     distinct (pb_phase_refs p) \<and> set (pb_phase_refs p) \<subseteq> fst ` set (rr_phases reg) \<and>
     (\<forall>r. pb_result_from p = Some r \<longrightarrow> r \<in> set (pb_phase_refs p) \<and>
        (\<exists>child. bt_get (rr_phases reg) r = Some child \<and> pb_output child = pb_output p)) \<and>
     list_all (transition_closed env reg (pb_phase_refs p)) (pb_transitions p)"

definition flow_closed :: "script_env \<Rightarrow> ResolvedRegistry \<Rightarrow> string \<Rightarrow> FlowBlock \<Rightarrow> bool" where
  "flow_closed env reg i f \<longleftrightarrow> bi_id (fb_identity f) = i \<and>
     distinct (fb_phase_refs f) \<and> set (fb_phase_refs f) \<subseteq> fst ` set (rr_phases reg) \<and>
     set (fb_subflow_refs f) \<subseteq> fst ` set (rr_flows reg) \<and>
     list_all (transition_closed env reg (fb_phase_refs f)) (fb_transitions f)"

definition registry_closed :: "script_env \<Rightarrow> ResolvedRegistry \<Rightarrow> bool" where
  "registry_closed env reg \<longleftrightarrow>
     (\<forall>i p. bt_get (rr_phases reg) i = Some p \<longrightarrow> phase_closed env reg i p) \<and>
     (\<forall>i f. bt_get (rr_flows reg) i = Some f \<longrightarrow> flow_closed env reg i f) \<and>
     (\<forall>i t. bt_get (rr_tools reg) i = Some t \<longrightarrow> bi_id (tb_identity t) = i)"

lemma distinct_references_ok:
  "distinct_references require block_id what from_id seen refs = Ok () \<Longrightarrow>
   \<exists>bs. list_all2 (\<lambda>r b. require r = Ok b) refs bs \<and> distinct (map block_id bs) \<and> (\<forall>b \<in> set bs. \<not> bs_contains seen (block_id b))"
proof (induction refs arbitrary: seen)
  case (Cons r refs)
  then obtain b bs where "require r = Ok b" "\<not> bs_contains seen (block_id b)" "list_all2 (\<lambda>r b. require r = Ok b) refs bs"
      "distinct (map block_id bs)" "\<forall>x \<in> set bs. \<not> bs_contains (bs_insert (block_id b) seen) (block_id x)" by fastforce
  then show ?case by (intro exI [of _ "b # bs"]) auto
qed simp

abbreviation phase_key :: "PhaseBlock \<Rightarrow> string" where
  "phase_key p \<equiv> bi_id (pb_identity p)"

lemma phase_positions_ok:
  "phase_positions_loop env reg k from_id n pos refs = Ok pos' \<Longrightarrow>
   \<exists>ps. list_all2 (\<lambda>r p. phase_block env reg r = Some p) refs ps \<and> distinct (map phase_key ps) \<and>
     (\<forall>p \<in> set ps. bt_get pos (phase_key p) = None) \<and>
     (\<forall>x i. bt_get pos' x = Some i \<longrightarrow> bt_get pos x = Some i \<or> n \<le> i \<and> i < n + length ps \<and> phase_key (ps ! (i - n)) = x)"
proof (induction refs arbitrary: n pos)
  case (Cons r refs)
  then obtain p where p: "phase_block env reg r = Some p" "bt_get pos (phase_key p) = None"
      and rest: "phase_positions_loop env reg k from_id (n + 1) (bt_insert (phase_key p) n pos) refs = Ok pos'"
    by (auto simp: require_phase_def)
  from Cons.IH [OF rest] obtain ps where ps: "list_all2 (\<lambda>r p. phase_block env reg r = Some p) refs ps"
      "distinct (map phase_key ps)"
      "\<forall>q \<in> set ps. bt_get (bt_insert (phase_key p) n pos) (phase_key q) = None"
      "\<And>x i. bt_get pos' x = Some i \<Longrightarrow> bt_get (bt_insert (phase_key p) n pos) x = Some i \<or>
         n + 1 \<le> i \<and> i < n + 1 + length ps \<and> phase_key (ps ! (i - (n + 1))) = x" by blast
  have fresh: "phase_key q \<noteq> phase_key p \<and> bt_get pos (phase_key q) = None" if "q \<in> set ps" for q
    using ps(3) that by (auto split: if_splits)
  have "bt_get pos x = Some i \<or> n \<le> i \<and> i < n + length (p # ps) \<and> phase_key ((p # ps) ! (i - n)) = x"
    if "bt_get pos' x = Some i" for x i
    using ps(4) [OF that] by (auto simp: nth_Cons' Suc_le_eq split: if_splits)
  moreover have "phase_key p \<notin> phase_key ` set ps" using fresh by force
  ultimately show ?case using p ps(1,2) fresh by (intro exI [of _ "p # ps"]) auto
qed simp

lemma canonical_refs:
  assumes "list_all2 (\<lambda>r b. named_block env reg k r blocks = Some b) refs bs"
    and "naming_ok env ident blocks (names_of (rr_name_ids reg) k)" "list_all (is_nfc (sx_text env)) refs"
  shows "map (canonicalize_reference (rr_name_ids reg) k) refs = map (\<lambda>b. bi_id (ident b)) bs \<and>
    (\<lambda>b. bi_id (ident b)) ` set bs \<subseteq> fst ` set blocks"
  using assms
proof (induction rule: list_all2_induct)
  case (Cons r rs b bs)
  then have "bt_get blocks (bi_id (ident b)) \<noteq> None" "canonicalize_reference (rr_name_ids reg) k r = bi_id (ident b)"
    using resolved_reference by (fastforce)+
  with Cons show ?case by (auto simp: bt_get_None)
qed simp

lemma phases_canonical [simp]:
  "bt_get (rr_phases (with_canonical_references reg)) i = map_option (canonical_phase (rr_name_ids reg)) (bt_get (rr_phases reg) i)"
  "bt_get (rr_flows (with_canonical_references reg)) i = map_option (canonical_flow (rr_name_ids reg)) (bt_get (rr_flows reg) i)"
  "fst ` set (rr_phases (with_canonical_references reg)) = fst ` set (rr_phases reg)"
  "fst ` set (rr_flows (with_canonical_references reg)) = fst ` set (rr_flows reg)"
  "rr_tools (with_canonical_references reg) = rr_tools reg" "rr_instructions (with_canonical_references reg) = rr_instructions reg"
  by (auto simp: with_canonical_references_def bt_get_def map_of_map case_prod_beta image_image)

lemma canonical_block_simps [simp]:
  "pb_identity (canonical_phase N p) = pb_identity p" "pb_output (canonical_phase N p) = pb_output p"
  "pb_phase_refs (canonical_phase N p) = map (canonicalize_reference N KindPhase) (pb_phase_refs p)"
  "pb_tool_refs (canonical_phase N p) = map (canonicalize_reference N KindTool) (pb_tool_refs p)"
  "pb_instruction_refs (canonical_phase N p) = map (canonicalize_reference N KindInstruction) (pb_instruction_refs p)"
  "pb_result_from (canonical_phase N p) = map_option (canonicalize_reference N KindPhase) (pb_result_from p)"
  "pb_transitions (canonical_phase N p) = map (canonicalize_transition_references N) (pb_transitions p)"
  "fb_identity (canonical_flow N f) = fb_identity f"
  "fb_phase_refs (canonical_flow N f) = map (canonicalize_reference N KindPhase) (fb_phase_refs f)"
  "fb_subflow_refs (canonical_flow N f) = map (canonicalize_reference N KindFlow) (fb_subflow_refs f)"
  "fb_transitions (canonical_flow N f) = map (canonicalize_transition_references N) (fb_transitions f)"
  by (simp_all add: canonical_phase_def canonical_flow_def)

lemma resolved_phase:
  assumes "registry_inv env (reg, rr_name_ids reg)" "phase_block env reg r = Some p" "is_nfc (sx_text env) r"
  shows "canonicalize_reference (rr_name_ids reg) KindPhase r = phase_key p" "bt_get (rr_phases reg) (phase_key p) = Some p"
  using resolved_reference [of env pb_identity "rr_phases reg" reg KindPhase r p] assms by (auto simp: registry_inv_def phase_block_def)

lemma transition_closed_canonical:
  assumes inv: "registry_inv env (reg, rr_name_ids reg)" and ok: "validate_transition env reg pos k from_id t = Ok ()"
    and pos: "\<And>x i. bt_get pos x = Some i \<Longrightarrow> i < length ps \<and> phase_key (ps ! i) = x"
    and nfc: "list_all (is_nfc (sx_text env)) (transition_strings t)"
  shows "transition_closed env (with_canonical_references reg) (map phase_key ps) (canonicalize_transition_references (rr_name_ids reg) t)"
proof -
  obtain source target i j where source: "phase_block env reg (pt_from_phase_ref t) = Some source" "bt_get pos (phase_key source) = Some i"
      and target: "phase_block env reg (pt_to_phase_ref t) = Some target" "bt_get pos (phase_key target) = Some j"
      and "i < j" and typed: "validate_predicate_against_contract (sx_text env) (pt_when t) (pb_output source) = Ok ()"
    using ok by (auto simp: validate_transition_def require_phase_def)
  moreover note s = resolved_phase [OF inv source(1)] and u = resolved_phase [OF inv target(1)]
  moreover have "is_nfc (sx_text env) (pt_from_phase_ref t)" "is_nfc (sx_text env) (pt_to_phase_ref t)"
    using nfc by (simp_all add: transition_strings_def)
  ultimately show ?thesis
    using pos [OF source(2)] pos [OF target(2)] unfolding transition_closed_def canonicalize_transition_references_def
    by (intro exI [of _ i] exI [of _ j] exI [of _ "canonical_phase (rr_name_ids reg) source"]) simp
qed

lemma phase_refs_canonical:
  assumes inv: "registry_inv env (reg, rr_name_ids reg)" and pos: "phase_positions env reg refs k from_id = Ok pos"
    and nfc: "list_all (is_nfc (sx_text env)) refs"
  obtains ps where "map (canonicalize_reference (rr_name_ids reg) KindPhase) refs = map phase_key ps" "distinct (map phase_key ps)"
    "phase_key ` set ps \<subseteq> fst ` set (rr_phases reg)" "\<And>x i. bt_get pos x = Some i \<Longrightarrow> i < length ps \<and> phase_key (ps ! i) = x"
proof -
  from phase_positions_ok [OF pos [unfolded phase_positions_def]] obtain ps where
    ps: "list_all2 (\<lambda>r p. phase_block env reg r = Some p) refs ps" "distinct (map phase_key ps)"
      "\<And>x i. bt_get pos x = Some i \<Longrightarrow> i < length ps \<and> phase_key (ps ! i) = x" by auto
  from canonical_refs [OF ps(1) [unfolded phase_block_def] _ nfc, of pb_identity] inv ps that show ?thesis
    by (simp add: registry_inv_def)
qed

lemma block_refs_canonical:
  assumes "distinct_references require (\<lambda>b. bi_id (ident b)) what from_id [] refs = Ok ()"
    and "\<And>r b. require r = Ok b \<longleftrightarrow> named_block env reg k r blocks = Some b"
    and "naming_ok env ident blocks (names_of (rr_name_ids reg) k)" "list_all (is_nfc (sx_text env)) refs"
  shows "distinct (map (canonicalize_reference (rr_name_ids reg) k) refs) \<and>
    set (map (canonicalize_reference (rr_name_ids reg) k) refs) \<subseteq> fst ` set blocks"
proof -
  obtain bs where "list_all2 (\<lambda>r b. named_block env reg k r blocks = Some b) refs bs" "distinct (map (\<lambda>b. bi_id (ident b)) bs)"
    using distinct_references_ok [OF assms(1)] assms(2) by auto
  with canonical_refs [OF this(1) assms(3,4)] show ?thesis by simp
qed

lemma result_canonical:
  assumes inv: "registry_inv env (reg, rr_name_ids reg)" and r: "phase_block env reg r = Some c" "is_nfc (sx_text env) r"
    and pos: "bt_get pos (phase_key c) \<noteq> None" "\<And>x i. bt_get pos x = Some i \<Longrightarrow> i < length ps \<and> phase_key (ps ! i) = x"
  shows "canonicalize_reference (rr_name_ids reg) KindPhase r \<in> phase_key ` set ps \<and>
    (\<exists>c'. bt_get (rr_phases (with_canonical_references reg)) (canonicalize_reference (rr_name_ids reg) KindPhase r) = Some c' \<and> pb_output c' = pb_output c)"
proof -
  obtain i where "i < length ps" "phase_key (ps ! i) = phase_key c" using pos by blast
  then show ?thesis using resolved_phase [OF inv r] by (auto simp: image_iff) (metis nth_mem)
qed

lemma phase_closed_canonical:
  assumes inv: "registry_inv env (reg, rr_name_ids reg)" and p: "bt_get (rr_phases reg) i = Some p"
    and ok: "validate_phase_references env reg p = Ok ()"
  shows "phase_closed env (with_canonical_references reg) i (canonical_phase (rr_name_ids reg) p)"
proof -
  have nfc: "list_all (is_nfc (sx_text env)) (block_strings (BlockPhase p))" and key: "phase_key p = i"
    using inv p by (auto simp: registry_inv_def naming_ok_def simp del: block_strings.simps)
  from ok obtain pos where pos: "phase_positions env reg (pb_phase_refs p) KindPhase (phase_key p) = Ok pos"
      and ins: "distinct_references (\<lambda>r. require_instruction env reg r KindPhase (phase_key p)) (\<lambda>b. bi_id (ib_identity b))
        ''phase instruction reference'' (phase_key p) [] (pb_instruction_refs p) = Ok ()"
      and tools: "distinct_references (\<lambda>r. require_tool env reg r KindPhase (phase_key p)) (\<lambda>b. bi_id (tb_identity b))
        ''phase tool reference'' (phase_key p) [] (pb_tool_refs p) = Ok ()"
      and result: "\<forall>r. pb_result_from p = Some r \<longrightarrow> (\<exists>c. phase_block env reg r = Some c \<and> bt_get pos (phase_key c) \<noteq> None \<and> pb_output c = pb_output p)"
      and trans: "\<And>t. t \<in> set (pb_transitions p) \<Longrightarrow> validate_transition env reg pos KindPhase (phase_key p) t = Ok ()"
    by (cases "pb_result_from p") (auto simp: validate_phase_references_def Let_def require_phase_def validate_transitions_def)
  have "list_all (is_nfc (sx_text env)) (pb_phase_refs p)" using nfc by simp
  then obtain ps where ps: "map (canonicalize_reference (rr_name_ids reg) KindPhase) (pb_phase_refs p) = map phase_key ps"
      "distinct (map phase_key ps)" "phase_key ` set ps \<subseteq> fst ` set (rr_phases reg)"
      "\<And>x i. bt_get pos x = Some i \<Longrightarrow> i < length ps \<and> phase_key (ps ! i) = x"
    by (rule phase_refs_canonical [OF inv pos]) blast
  have "pb_result_from p = Some r \<Longrightarrow> canonicalize_reference (rr_name_ids reg) KindPhase r \<in> phase_key ` set ps \<and>
      (\<exists>c. bt_get (rr_phases (with_canonical_references reg)) (canonicalize_reference (rr_name_ids reg) KindPhase r) = Some c \<and> pb_output c = pb_output p)" for r
    using result result_canonical [OF inv _ _ _ ps(4)] nfc by fastforce
  moreover have "list_all (transition_closed env (with_canonical_references reg) (map phase_key ps))
      (map (canonicalize_transition_references (rr_name_ids reg)) (pb_transitions p))"
    using transition_closed_canonical [OF inv trans ps(4)] nfc by (auto simp: list_all_iff)
  moreover note block_refs_canonical [OF ins, of env reg KindInstruction "rr_instructions reg"]
    block_refs_canonical [OF tools, of env reg KindTool "rr_tools reg"]
  ultimately show ?thesis using ps key nfc inv
    by (auto simp: phase_closed_def require_instruction_def instruction_block_def require_tool_def tool_block_def registry_inv_def)
qed

lemma flow_closed_canonical:
  assumes inv: "registry_inv env (reg, rr_name_ids reg)" and f: "bt_get (rr_flows reg) i = Some f"
    and ok: "validate_flow_references env reg f = Ok ()"
  shows "flow_closed env (with_canonical_references reg) i (canonical_flow (rr_name_ids reg) f)"
proof -
  have nfc: "list_all (is_nfc (sx_text env)) (block_strings (BlockFlow f))" and key: "bi_id (fb_identity f) = i"
    using inv f by (auto simp: registry_inv_def naming_ok_def simp del: block_strings.simps)
  from ok obtain pos where pos: "phase_positions env reg (fb_phase_refs f) KindFlow (bi_id (fb_identity f)) = Ok pos"
      and sub: "\<And>r. r \<in> set (fb_subflow_refs f) \<Longrightarrow> \<exists>g. flow_block env reg r = Some g"
      and trans: "\<And>t. t \<in> set (fb_transitions f) \<Longrightarrow> validate_transition env reg pos KindFlow (bi_id (fb_identity f)) t = Ok ()"
    by (auto simp: validate_flow_references_def Let_def require_flow_def validate_transitions_def)
  have "list_all (is_nfc (sx_text env)) (fb_phase_refs f)" using nfc by simp
  then obtain ps where ps: "map (canonicalize_reference (rr_name_ids reg) KindPhase) (fb_phase_refs f) = map phase_key ps"
      "distinct (map phase_key ps)" "phase_key ` set ps \<subseteq> fst ` set (rr_phases reg)"
      "\<And>x i. bt_get pos x = Some i \<Longrightarrow> i < length ps \<and> phase_key (ps ! i) = x"
    by (rule phase_refs_canonical [OF inv pos]) blast
  have "canonicalize_reference (rr_name_ids reg) KindFlow r \<in> fst ` set (rr_flows reg)" if r: "r \<in> set (fb_subflow_refs f)" for r
  proof -
    obtain g where "named_block env reg KindFlow r (rr_flows reg) = Some g" using sub [OF r] by (auto simp: flow_block_def)
    moreover have "is_nfc (sx_text env) r" using nfc r by (simp add: list_all_iff)
    ultimately have "bt_get (rr_flows reg) (canonicalize_reference (rr_name_ids reg) KindFlow r) \<noteq> None"
      using resolved_reference [of env fb_identity "rr_flows reg" reg KindFlow r g] inv by (auto simp: registry_inv_def)
    then show ?thesis by (simp add: bt_get_None)
  qed
  moreover have "list_all (transition_closed env (with_canonical_references reg) (map phase_key ps))
      (map (canonicalize_transition_references (rr_name_ids reg)) (fb_transitions f))"
    using transition_closed_canonical [OF inv trans ps(4)] nfc by (auto simp: list_all_iff)
  ultimately show ?thesis using ps key by (auto simp: flow_closed_def)
qed

text \<open>Direct children in a resolved registry, and the bound on their chains.\<close>

definition phase_child :: "ResolvedRegistry \<Rightarrow> string \<Rightarrow> string \<Rightarrow> bool" where
  "phase_child reg a b \<longleftrightarrow> (\<exists>p. bt_get (rr_phases reg) a = Some p \<and> b \<in> set (pb_phase_refs p))"

definition flow_child :: "ResolvedRegistry \<Rightarrow> string \<Rightarrow> string \<Rightarrow> bool" where
  "flow_child reg a b \<longleftrightarrow> (\<exists>f. bt_get (rr_flows reg) a = Some f \<and> b \<in> set (fb_subflow_refs f))"

lemma is_chain_mono: "is_chain E cs \<Longrightarrow> (\<And>a b. E a b \<Longrightarrow> E' a b) \<Longrightarrow> is_chain E' cs"
  by (induction E cs rule: is_chain.induct) auto

lemma named_block_id: "bt_get blocks i = Some b \<Longrightarrow> named_block env reg k i blocks = Some b"
  by (simp add: named_block_def)

lemma references_checked:
  assumes "registry_inv env (reg, rr_name_ids reg)" "validate_references env reg = Ok ()"
  shows "bt_get (rr_phases reg) i = Some p \<Longrightarrow> validate_phase_references env reg p = Ok ()"
    "bt_get (rr_flows reg) i = Some f \<Longrightarrow> validate_flow_references env reg f = Ok ()"
  using assms by (auto simp: registry_inv_def naming_ok_def bt_get_mem validate_references_def)

lemma phase_child_canonical:
  assumes inv: "registry_inv env (reg, rr_name_ids reg)" and ok: "validate_references env reg = Ok ()"
    and child: "phase_child (with_canonical_references reg) a b"
  shows "block_child (phase_visitor env reg) a b"
proof -
  obtain p r where p: "bt_get (rr_phases reg) a = Some p" "r \<in> set (pb_phase_refs p)"
      and b: "b = canonicalize_reference (rr_name_ids reg) KindPhase r"
    using child by (auto simp: phase_child_def)
  have "validate_phase_references env reg p = Ok ()" using references_checked(1) [OF inv ok p(1)] .
  then obtain pos where "phase_positions env reg (pb_phase_refs p) KindPhase (phase_key p) = Ok pos"
    by (auto simp: validate_phase_references_def Let_def)
  from phase_positions_ok [OF this [unfolded phase_positions_def]] obtain c where c: "phase_block env reg r = Some c"
    using p(2) by (auto dest: list_all2_lengthD simp: list_all2_conv_all_nth in_set_conv_nth)
  moreover have "is_nfc (sx_text env) r"
    using inv p by (auto simp: registry_inv_def list_all_iff)
  ultimately have "b = phase_key c" using resolved_phase [OF inv c] b by simp
  then show ?thesis using p c
    by (auto simp: block_child_def phase_visitor_def require_phase_def phase_block_def named_block_id)
qed

lemma flow_child_canonical:
  assumes inv: "registry_inv env (reg, rr_name_ids reg)" and ok: "validate_references env reg = Ok ()"
    and child: "flow_child (with_canonical_references reg) a b"
  shows "block_child (flow_visitor env reg) a b"
proof -
  obtain f r where f: "bt_get (rr_flows reg) a = Some f" "r \<in> set (fb_subflow_refs f)"
      and b: "b = canonicalize_reference (rr_name_ids reg) KindFlow r"
    using child by (auto simp: flow_child_def)
  have "validate_flow_references env reg f = Ok ()" using references_checked(2) [OF inv ok f(1)] .
  then obtain g where g: "named_block env reg KindFlow r (rr_flows reg) = Some g"
    using f(2) by (fastforce simp: validate_flow_references_def Let_def require_flow_def flow_block_def)
  moreover have "is_nfc (sx_text env) r" using inv f by (auto simp: registry_inv_def list_all_iff)
  ultimately have "b = bi_id (fb_identity g)"
    using resolved_reference [of env fb_identity "rr_flows reg" reg KindFlow r g] inv b by (auto simp: registry_inv_def)
  then show ?thesis using f g
    by (auto simp: block_child_def flow_visitor_def require_flow_def flow_block_def named_block_id)
qed

text \<open>A chain starts at a block that has children, or it is a single node.\<close>

lemma chain_bound:
  assumes "\<And>a b. E a b \<Longrightarrow> block_child v a b \<and> a \<in> set ids" "validate_cycles v ids = Ok tails" "1 \<le> vs_max_depth v" "is_chain E cs"
  shows "length cs \<le> vs_max_depth v"
proof (cases "\<exists>a b ds. cs = a # b # ds")
  case True
  then obtain a b ds where 1: "cs = a # b # ds" by blast
  then have "a \<in> set ids" using assms(1,4) by auto
  moreover have "is_chain (block_child v) cs" using is_chain_mono assms(1,4) by metis
  ultimately show ?thesis
    using validate_cycles_bounds [OF assms(2), of a, unfolded bounds_chains_def, THEN spec, of "b # ds"] 1 by simp
next
  case False
  then have "length cs \<le> 1" by (cases cs; cases "tl cs") auto
  then show ?thesis using assms(3) by simp
qed

lemma from_blocks_accepted:
  assumes "from_blocks env blocks = Ok reg" "reads_normalised env"
  obtains reg0 where "registry_inv env (reg0, rr_name_ids reg0)" "validate_references env reg0 = Ok ()" "reg = with_canonical_references reg0"
proof -
  obtain r N where fold: "fold_ok (add_block env) (empty_registry, []) blocks = Ok (r, N)"
      and ok: "validate_references env (r\<lparr>rr_name_ids := N\<rparr>) = Ok ()" "reg = with_canonical_references (r\<lparr>rr_name_ids := N\<rparr>)"
    using assms(1) by (auto simp: from_blocks_def Let_def)
  from add_blocks_inv [OF fold assms(2)] have "registry_inv env (r\<lparr>rr_name_ids := N\<rparr>, N)" by (simp add: registry_inv_def)
  with ok show ?thesis by (intro that [of "r\<lparr>rr_name_ids := N\<rparr>"]) simp_all
qed

lemma from_blocks_closed:
  assumes "from_blocks env blocks = Ok reg" "reads_normalised env"
  shows "registry_closed env reg"
proof -
  obtain reg0 where inv: "registry_inv env (reg0, rr_name_ids reg0)" and ok: "validate_references env reg0 = Ok ()"
      and reg: "reg = with_canonical_references reg0"
    by (rule from_blocks_accepted [OF assms])
  have phases: "validate_phase_references env reg0 p = Ok ()" if "bt_get (rr_phases reg0) i = Some p" for i p
    using references_checked(1) [OF inv ok that] .
  have flows: "validate_flow_references env reg0 f = Ok ()" if "bt_get (rr_flows reg0) i = Some f" for i f
    using references_checked(2) [OF inv ok that] .
  have "phase_closed env reg i p" if "bt_get (rr_phases reg) i = Some p" for i p
    using that phase_closed_canonical [OF inv _ phases] by (auto simp: reg)
  moreover have "flow_closed env reg i f" if "bt_get (rr_flows reg) i = Some f" for i f
    using that flow_closed_canonical [OF inv _ flows] by (auto simp: reg)
  moreover have "bi_id (tb_identity t) = i" if "bt_get (rr_tools reg) i = Some t" for i t
    using that inv by (simp add: reg registry_inv_def naming_ok_def)
  ultimately show ?thesis unfolding registry_closed_def by blast
qed

lemma from_blocks_nesting:
  assumes "from_blocks env blocks = Ok reg" "reads_normalised env"
  shows "(is_chain (phase_child reg) ps \<longrightarrow> length ps \<le> 16) \<and> (is_chain (flow_child reg) fs \<longrightarrow> length fs \<le> 16)"
proof -
  obtain reg0 where inv: "registry_inv env (reg0, rr_name_ids reg0)" and ok: "validate_references env reg0 = Ok ()"
      and reg: "reg = with_canonical_references reg0"
    by (rule from_blocks_accepted [OF assms])
  obtain pt ft where cycles: "validate_cycles (phase_visitor env reg0) (map fst (rr_phases reg0)) = Ok pt"
      "validate_cycles (flow_visitor env reg0) (map fst (rr_flows reg0)) = Ok ft"
    using ok by (auto simp: validate_references_def validate_phase_cycles_def validate_flow_cycles_def)
  have "phase_child reg a b \<Longrightarrow> block_child (phase_visitor env reg0) a b \<and> a \<in> set (map fst (rr_phases reg0))" for a b
    using phase_child_canonical [OF inv ok, of a b] bt_get_None [of "rr_phases reg0" a] by (auto simp: reg phase_child_def)
  from chain_bound [OF this cycles(1)] have "is_chain (phase_child reg) ps \<Longrightarrow> length ps \<le> 16"
    by (simp add: phase_visitor_def MAX_PHASE_NESTING_DEPTH_def)
  moreover have "flow_child reg a b \<Longrightarrow> block_child (flow_visitor env reg0) a b \<and> a \<in> set (map fst (rr_flows reg0))" for a b
    using flow_child_canonical [OF inv ok, of a b] bt_get_None [of "rr_flows reg0" a] by (auto simp: reg flow_child_def)
  from chain_bound [OF this cycles(2)] have "is_chain (flow_child reg) fs \<Longrightarrow> length fs \<le> 16"
    by (simp add: flow_visitor_def MAX_FLOW_NESTING_DEPTH_def)
  ultimately show ?thesis by blast
qed

text \<open>
  C9: in an accepted registry every reference is the id of a stored block, whether it was authored as an id or
  as a name. The Instructions, Tools and child Phases of a Phase are distinct, its result comes from a direct child
  with the same output contract, and every transition leads to a later sibling under a predicate that fits the
  output of its source.
\<close>

theorem accepted_registry_closed:
  assumes "from_blocks env blocks = Ok reg" "reads_normalised env"
  shows "registry_closed env reg"
  using assms by (rule from_blocks_closed)

text \<open>
  C10: in an accepted registry no chain of child Phases and no chain of subflows has more than 16 blocks; in
  particular neither relation has a cycle.
\<close>

theorem accepted_registry_nesting:
  assumes "from_blocks env blocks = Ok reg" "reads_normalised env"
  shows "(is_chain (phase_child reg) ps \<longrightarrow> length ps \<le> 16) \<and> (is_chain (flow_child reg) fs \<longrightarrow> length fs \<le> 16)"
  using assms by (rule from_blocks_nesting)

text \<open>
  C27: resolving a registry never panics: the depth expected of a visited child is always there, whatever the
  blocks and the parameters.
\<close>

theorem from_blocks_never_panics: "from_blocks env blocks \<noteq> Err (RegistryPanic p)"
  by (auto simp: from_blocks_def validate_references_def validate_phase_cycles_def validate_flow_cycles_def
      and_then_eq_Err map_err_eq_Err validate_cycles_no_panic Let_def)

subsection \<open>A sample registry\<close>

text \<open>A composite Phase whose leaf calls one Tool, referred to by names; a block is serialised as its id.\<close>

definition sample_identity :: "string \<Rightarrow> string \<Rightarrow> BlockIdentity" where
  "sample_identity i n = \<lparr> bi_id = i, bi_name = n \<rparr>"

definition sample_tool :: ToolBlock where
  "sample_tool = \<lparr> tb_identity = sample_identity ''say'' ''Say it'', tb_tool_kind = ScriptPredefinedCommand,
     tb_command = PredefinedToolCommand ''agent-echo'' [''hello''], tb_script_runtime = None, tb_script_body = None, tb_allowed_parameters = [] \<rparr>"

definition sample_leaf :: PhaseBlock where
  "sample_leaf = \<lparr> pb_identity = sample_identity ''leaf'' ''The leaf'', pb_instruction_refs = [], pb_tool_refs = [''Say it''], pb_phase_refs = [],
     pb_output = ContractBoolean, pb_result_from = None, pb_loop_config = None, pb_transitions = [] \<rparr>"

definition sample_composite :: PhaseBlock where
  "sample_composite = \<lparr> pb_identity = sample_identity ''both'' ''Both'', pb_instruction_refs = [], pb_tool_refs = [], pb_phase_refs = [''The leaf''],
     pb_output = ContractBoolean, pb_result_from = Some ''leaf'', pb_loop_config = None, pb_transitions = [] \<rparr>"

definition sample_flow :: FlowBlock where
  "sample_flow = \<lparr> fb_identity = sample_identity ''main'' ''Main'', fb_phase_refs = [''Both''], fb_subflow_refs = [], fb_transitions = [] \<rparr>"

definition sample_blocks :: "RegistryBlock list" where
  "sample_blocks = [BlockTool sample_tool, BlockPhase sample_leaf, BlockPhase sample_composite, BlockFlow sample_flow]"

definition sample_env :: script_env where
  "sample_env = \<lparr> sx_text = plain_env, sx_pattern_compiles = (\<lambda>_. True),
     sx_to_value = (\<lambda>b. Some (JString (bi_id (snd (kind_and_identity b))))),
     sx_from_str = (\<lambda>t. find (\<lambda>b. quote plain_env (bi_id (snd (kind_and_identity b))) = t) sample_blocks) \<rparr>"

definition sample_registry :: ResolvedRegistry where
  "sample_registry = (case from_blocks sample_env sample_blocks of Ok reg \<Rightarrow> reg | Err _ \<Rightarrow> empty_registry)"

lemma sample_registry_accepted: "from_blocks sample_env sample_blocks = Ok sample_registry"
proof -
  have "is_ok (from_blocks sample_env sample_blocks)" by code_simp
  then show ?thesis by (auto simp: is_ok_iff sample_registry_def)
qed

lemma sample_env_normalised: "reads_normalised sample_env"
  by (simp add: reads_normalised_def sample_env_def is_nfc_def plain_env_def list_all_iff)

theorem accepted_registry_closed_witness: "registry_closed sample_env sample_registry"
  by (rule accepted_registry_closed [OF sample_registry_accepted sample_env_normalised])

theorem accepted_registry_nesting_witness:
  "is_chain (phase_child sample_registry) [''both'', ''leaf''] \<and> length [''both'', ''leaf''] \<le> 16"
proof -
  have "map_option pb_phase_refs (bt_get (rr_phases sample_registry) ''both'') = Some [''leaf'']" by code_simp
  then have "is_chain (phase_child sample_registry) [''both'', ''leaf'']" by (auto simp: phase_child_def)
  then show ?thesis
    using accepted_registry_nesting [OF sample_registry_accepted sample_env_normalised, of "[''both'', ''leaf'']"] by blast
qed

end
