(* ===== verification/Policy.thy ===== *)
theory Policy
  imports Registry
begin

text \<open>
  The policy compiler, \<open>core/core-policy/src\<close>: \<open>lib.rs\<close>, \<open>compile.rs\<close>, \<open>artifact.rs\<close>, \<open>artifact/command.rs\<close> and
  \<open>artifact/environment.rs\<close>. It compiles the Phases and Tools that a Flow reaches into an artifact that says which
  commands may run in which Phase.

  The recursion over Phases and Flows is as deep as the registry nests. The model gives it fuel, one unit for
  each level; the theorems show that 16 levels are enough for every accepted registry.
\<close>

subsection \<open>Trusted commands\<close>

definition POLICY_VERSION_V0 :: string where "POLICY_VERSION_V0 = ''0''"
definition OWN_SCRIPT_RUNNER_POSIX_SH :: string where "OWN_SCRIPT_RUNNER_POSIX_SH = ''runner:posix-sh''"

datatype TrustedPredefinedCommand = TrustedEcho | TrustedNegative | TrustedRead

definition TrustedPredefinedCommand_ALL :: "TrustedPredefinedCommand list" where
  "TrustedPredefinedCommand_ALL = [TrustedEcho, TrustedNegative, TrustedRead]"

primrec TrustedPredefinedCommand_as_str :: "TrustedPredefinedCommand \<Rightarrow> string" where
  "TrustedPredefinedCommand_as_str TrustedEcho = ''agent-echo''"
| "TrustedPredefinedCommand_as_str TrustedNegative = ''agent-negative''"
| "TrustedPredefinedCommand_as_str TrustedRead = ''agent-read''"

definition TrustedPredefinedCommand_parse :: "string \<Rightarrow> TrustedPredefinedCommand option" where
  "TrustedPredefinedCommand_parse command_id = find (\<lambda>c. TrustedPredefinedCommand_as_str c = command_id) TrustedPredefinedCommand_ALL"

interpretation trusted: token_enum TrustedPredefinedCommand_ALL TrustedPredefinedCommand_as_str TrustedPredefinedCommand_parse
proof
  fix c show "c \<in> set TrustedPredefinedCommand_ALL" by (cases c) (simp_all add: TrustedPredefinedCommand_ALL_def)
qed (auto simp: TrustedPredefinedCommand_ALL_def TrustedPredefinedCommand_parse_def)

primrec productive_executable :: "TrustedPredefinedCommand \<Rightarrow> string option" where
  "productive_executable TrustedEcho = Some ''/bin/echo''"
| "productive_executable TrustedNegative = None"
| "productive_executable TrustedRead = Some ''/bin/cat''"

definition trusted_executable :: "TrustedPredefinedCommand \<Rightarrow> string" where
  "trusted_executable c = ''registry:'' @ TrustedPredefinedCommand_as_str c"

subsection \<open>Artifacts\<close>

datatype EnvironmentDefault = EnvironmentClear

record EnvironmentPolicy =
  ep_allow :: "string list"
  ep_default :: EnvironmentDefault

record CommandPolicy =
  cp_allowed_parameters :: "AllowedParameter list"
  cp_argv :: "string list"
  cp_command_id :: string
  cp_environment :: EnvironmentPolicy
  cp_executable :: string
  cp_script_runtime :: "ScriptRuntime option"
  cp_tool_id :: string
  cp_tool_kind :: ScriptToolKind

record PhaseScope =
  sc_phase_id :: string
  sc_tool_ids :: "string list"

record RuntimeLimits =
  rl_headless :: bool
  rl_timeout_ms :: nat

record PolicyArtifact =
  pa_commands :: "CommandPolicy list"
  pa_phase_scope :: "PhaseScope list"
  pa_policy_version :: string
  pa_runtime_limits :: RuntimeLimits
  pa_source_flow_definition_id :: string

datatype PolicyProblem =
    PolicyVersion
  | PolicyCommandId string string
  | UnknownTrustedCommand string string
  | PredefinedExecutable string string
  | PredefinedRuntime string
  | OwnScriptCommandId string string
  | OwnScriptRuntime string
  | OwnScriptExecutable string
  | OwnScriptArgv string
  | PolicyParameter string ParameterProblem
  | PolicyParameterDuplicate string string
  | EnvironmentAllowName string string
  | DuplicateCommand string
  | DuplicatePhaseScope string
  | ScopeUnknownTool string string
  | ScopeDuplicateTool string string
  | CommandOutsideScope string
  | CommandShape string

type_synonym 'a artifact = "('a, PolicyProblem) result"

definition has_valid_environment_allow_name_shape :: "string \<Rightarrow> bool" where
  "has_valid_environment_allow_name_shape name =
    (if length name > 64 then False
     else case name of
       [] \<Rightarrow> False
     | c # bytes \<Rightarrow> (c = CHR ''_'' \<or> is_upper c) \<and> list_all (\<lambda>b. b = CHR ''_'' \<or> is_upper b \<or> is_digit b) bytes)"

definition validate_environment_allow_name :: "string \<Rightarrow> string \<Rightarrow> unit artifact" where
  "validate_environment_allow_name tool_id name =
     ensure (has_valid_environment_allow_name_shape name) (EnvironmentAllowName tool_id name)"

definition EnvironmentPolicy_validate :: "EnvironmentPolicy \<Rightarrow> string \<Rightarrow> unit artifact" where
  "EnvironmentPolicy_validate p tool_id = each_ok (validate_environment_allow_name tool_id) (ep_allow p)"

definition validate_command_shape :: "CommandPolicy \<Rightarrow> unit artifact" where
  "validate_command_shape c =
    (let tool_id = cp_tool_id c in
     case cp_tool_kind c of
       ScriptPredefinedCommand \<Rightarrow>
         and_then (ensure (is_valid_command_id (cp_command_id c)) (PolicyCommandId tool_id (cp_command_id c))) (\<lambda>_.
         and_then (ok_or (UnknownTrustedCommand tool_id (cp_command_id c)) (TrustedPredefinedCommand_parse (cp_command_id c))) (\<lambda>command.
         and_then (ensure (cp_executable c = trusted_executable command) (PredefinedExecutable tool_id (trusted_executable command))) (\<lambda>_.
         ensure (cp_script_runtime c = None) (PredefinedRuntime tool_id))))
     | ScriptOwnScript \<Rightarrow>
         and_then (ensure (cp_command_id c = own_script_command_id tool_id) (OwnScriptCommandId tool_id (own_script_command_id tool_id))) (\<lambda>_.
         and_then (ensure (cp_script_runtime c = Some PosixSh) (OwnScriptRuntime tool_id)) (\<lambda>_.
         and_then (ensure (cp_executable c = OWN_SCRIPT_RUNNER_POSIX_SH) (OwnScriptExecutable tool_id)) (\<lambda>_.
         ensure (cp_argv c = []) (OwnScriptArgv tool_id)))))"

fun policy_parameters_loop :: "script_env \<Rightarrow> string \<Rightarrow> string bset \<Rightarrow> AllowedParameter list \<Rightarrow> unit artifact" where
  "policy_parameters_loop env tool_id names [] = Ok ()"
| "policy_parameters_loop env tool_id names (p # ps) =
     and_then (map_err (PolicyParameter tool_id) (AllowedParameter_validate env p)) (\<lambda>_.
     and_then (ensure (\<not> bs_contains names (ap_name p)) (PolicyParameterDuplicate tool_id (ap_name p))) (\<lambda>_.
     policy_parameters_loop env tool_id (bs_insert (ap_name p) names) ps))"

definition CommandPolicy_validate :: "script_env \<Rightarrow> CommandPolicy \<Rightarrow> unit artifact" where
  "CommandPolicy_validate env c =
     and_then (validate_command_shape c) (\<lambda>_.
     and_then (policy_parameters_loop env (cp_tool_id c) [] (cp_allowed_parameters c)) (\<lambda>_.
     EnvironmentPolicy_validate (cp_environment c) (cp_tool_id c)))"

text \<open>The three loops of \<open>validate_phase_scope\<close>: commands, scopes with their tools, and commands again.\<close>

definition insert_command_id :: "string bset \<Rightarrow> CommandPolicy \<Rightarrow> string bset artifact" where
  "insert_command_id ids c =
     and_then (ensure (\<not> bs_contains ids (cp_tool_id c)) (DuplicateCommand (cp_tool_id c))) (\<lambda>_. Ok (bs_insert (cp_tool_id c) ids))"

definition scope_tool :: "string bset \<Rightarrow> string \<Rightarrow> string bset \<times> string bset \<Rightarrow> string \<Rightarrow> (string bset \<times> string bset) artifact" where
  "scope_tool commands phase_id = (\<lambda>(phase_tools, scoped) tool_id.
     and_then (ensure (bs_contains commands tool_id) (ScopeUnknownTool phase_id tool_id)) (\<lambda>_.
     and_then (ensure (\<not> bs_contains phase_tools tool_id) (ScopeDuplicateTool phase_id tool_id)) (\<lambda>_.
     Ok (bs_insert tool_id phase_tools, bs_insert tool_id scoped))))"

definition scope_phase :: "string bset \<Rightarrow> string bset \<times> string bset \<Rightarrow> PhaseScope \<Rightarrow> (string bset \<times> string bset) artifact" where
  "scope_phase commands = (\<lambda>(phases, scoped) phase.
     and_then (ensure (\<not> bs_contains phases (sc_phase_id phase)) (DuplicatePhaseScope (sc_phase_id phase))) (\<lambda>_.
     and_then (fold_ok (scope_tool commands (sc_phase_id phase)) ([], scoped) (sc_tool_ids phase)) (\<lambda>(_, scoped).
     Ok (bs_insert (sc_phase_id phase) phases, scoped))))"

definition validate_phase_scope :: "PolicyArtifact \<Rightarrow> unit artifact" where
  "validate_phase_scope a =
     and_then (fold_ok insert_command_id [] (pa_commands a)) (\<lambda>command_tool_ids.
     and_then (fold_ok (scope_phase command_tool_ids) ([], []) (pa_phase_scope a)) (\<lambda>(_, scoped).
     each_ok (\<lambda>tool_id. ensure (bs_contains scoped tool_id) (CommandOutsideScope tool_id)) (bs_iter command_tool_ids)))"

definition PolicyArtifact_validate :: "script_env \<Rightarrow> PolicyArtifact \<Rightarrow> unit artifact" where
  "PolicyArtifact_validate env a =
     and_then (ensure (pa_policy_version a = POLICY_VERSION_V0) PolicyVersion) (\<lambda>_.
     and_then (each_ok (CommandPolicy_validate env) (pa_commands a)) (\<lambda>_.
     validate_phase_scope a))"

subsection \<open>Compiling\<close>

datatype PolicyCompileError = MissingFlow string | InvalidArtifact PolicyProblem

datatype policy_failure = PolicyRejected PolicyCompileError | PolicyPanic panic | PolicyOutOfFuel

type_synonym 'a compiled = "('a, policy_failure) result"

record policy_scope =
  ps_phase_tools :: "(string, string bset) btree"
  ps_tool_ids :: "string bset"
  ps_visited_flows :: "string bset"
  ps_visited_phases :: "string bset"

definition policy_expect :: "string \<Rightarrow> 'a option \<Rightarrow> 'a compiled" where
  "policy_expect msg r = map_err PolicyPanic (run_expect msg r)"

definition collect_tool :: "script_env \<Rightarrow> ResolvedRegistry \<Rightarrow> string bset \<times> string bset \<Rightarrow> string \<Rightarrow> (string bset \<times> string bset) compiled" where
  "collect_tool env reg = (\<lambda>(scoped_tools, tool_ids) tool_ref.
     and_then (policy_expect ''resolved registry validates phase tool references'' (tool_block env reg tool_ref)) (\<lambda>tool.
     Ok (bs_insert (bi_id (tb_identity tool)) scoped_tools, bs_insert (bi_id (tb_identity tool)) tool_ids)))"

fun collect_phase_policy_scope :: "script_env \<Rightarrow> ResolvedRegistry \<Rightarrow> nat \<Rightarrow> PhaseBlock \<Rightarrow> policy_scope \<Rightarrow> policy_scope compiled" where
  "collect_phase_policy_scope env reg 0 phase st = Err PolicyOutOfFuel"
| "collect_phase_policy_scope env reg (Suc fuel) phase st =
    (let phase_id = bi_id (pb_identity phase) in
     if bs_contains (ps_visited_phases st) phase_id then Ok st
     else
       let scoped_tools = (case bt_get (ps_phase_tools st) phase_id of Some s \<Rightarrow> s | None \<Rightarrow> []) in
       and_then (fold_ok (collect_tool env reg) (scoped_tools, ps_tool_ids st) (pb_tool_refs phase)) (\<lambda>(scoped_tools, tool_ids).
       fold_ok (\<lambda>st child_ref.
           and_then (policy_expect ''resolved registry validates child phase references'' (phase_block env reg child_ref)) (\<lambda>child.
           collect_phase_policy_scope env reg fuel child st))
         (st\<lparr> ps_visited_phases := bs_insert phase_id (ps_visited_phases st),
             ps_phase_tools := bt_insert phase_id scoped_tools (ps_phase_tools st), ps_tool_ids := tool_ids \<rparr>)
         (pb_phase_refs phase)))"

fun collect_flow_policy_scope :: "script_env \<Rightarrow> ResolvedRegistry \<Rightarrow> nat \<Rightarrow> nat \<Rightarrow> FlowBlock \<Rightarrow> policy_scope \<Rightarrow> policy_scope compiled" where
  "collect_flow_policy_scope env reg phase_fuel 0 flow st = Err PolicyOutOfFuel"
| "collect_flow_policy_scope env reg phase_fuel (Suc fuel) flow st =
    (let flow_id = bi_id (fb_identity flow) in
     if bs_contains (ps_visited_flows st) flow_id then Ok st
     else
       and_then (fold_ok (\<lambda>st phase_ref.
           and_then (policy_expect ''resolved registry validates flow phase references'' (phase_block env reg phase_ref)) (\<lambda>phase.
           collect_phase_policy_scope env reg phase_fuel phase st))
         (st\<lparr> ps_visited_flows := bs_insert flow_id (ps_visited_flows st) \<rparr>) (fb_phase_refs flow)) (\<lambda>st.
       fold_ok (\<lambda>st subflow_ref.
           and_then (policy_expect ''resolved registry validates subflow references'' (flow_block env reg subflow_ref)) (\<lambda>subflow.
           collect_flow_policy_scope env reg phase_fuel fuel subflow st)) st (fb_subflow_refs flow)))"

definition command_policy_from_tool :: "ToolBlock \<Rightarrow> (CommandPolicy, PolicyCompileError) result" where
  "command_policy_from_tool tool =
    (let tool_id = bi_id (tb_identity tool) in
     and_then (case (tb_tool_kind tool, tb_command tool) of
         (ScriptPredefinedCommand, PredefinedToolCommand command_id argv) \<Rightarrow>
           and_then (ok_or (InvalidArtifact (UnknownTrustedCommand tool_id command_id)) (TrustedPredefinedCommand_parse command_id)) (\<lambda>command.
           Ok (command_id, argv, trusted_executable command, None))
       | (ScriptOwnScript, OwnScriptToolCommand command_id) \<Rightarrow> Ok (command_id, [], OWN_SCRIPT_RUNNER_POSIX_SH, Some PosixSh)
       | _ \<Rightarrow> Err (InvalidArtifact (CommandShape tool_id)))
     (\<lambda>(command_id, argv, executable, script_runtime).
     Ok \<lparr> cp_allowed_parameters = tb_allowed_parameters tool, cp_argv = argv, cp_command_id = command_id,
         cp_environment = \<lparr> ep_allow = [], ep_default = EnvironmentClear \<rparr>, cp_executable = executable,
         cp_script_runtime = script_runtime, cp_tool_id = tool_id, cp_tool_kind = tb_tool_kind tool \<rparr>))"

definition compile_command :: "script_env \<Rightarrow> ResolvedRegistry \<Rightarrow> CommandPolicy list \<Rightarrow> string \<Rightarrow> CommandPolicy list compiled" where
  "compile_command env reg commands tool_id =
     and_then (policy_expect ''resolved registry preserves collected tools'' (tool_block env reg tool_id)) (\<lambda>tool.
     and_then (map_err PolicyRejected (command_policy_from_tool tool)) (\<lambda>command. Ok (commands @ [command])))"

definition empty_scope :: policy_scope where
  "empty_scope = \<lparr> ps_phase_tools = [], ps_tool_ids = [], ps_visited_flows = [], ps_visited_phases = [] \<rparr>"

definition compile_policy_artifact :: "script_env \<Rightarrow> nat \<Rightarrow> ResolvedRegistry \<Rightarrow> string \<Rightarrow> PolicyArtifact compiled" where
  "compile_policy_artifact env fuel reg flow_ref =
     and_then (ok_or (PolicyRejected (MissingFlow flow_ref)) (flow_block env reg flow_ref)) (\<lambda>flow.
     and_then (collect_flow_policy_scope env reg fuel fuel flow empty_scope) (\<lambda>st.
     and_then (fold_ok (compile_command env reg) [] (bs_iter (ps_tool_ids st))) (\<lambda>commands.
     let artifact = \<lparr> pa_commands = commands,
       pa_phase_scope = map (\<lambda>(phase_id, tool_ids). \<lparr> sc_phase_id = phase_id, sc_tool_ids = bs_iter tool_ids \<rparr>) (ps_phase_tools st),
       pa_policy_version = POLICY_VERSION_V0,
       pa_runtime_limits = \<lparr> rl_headless = True,
         rl_timeout_ms = (if length (fb_phase_refs flow) > 1 \<or> fb_subflow_refs flow \<noteq> [] then 60000 else 30000) \<rparr>,
       pa_source_flow_definition_id = bi_id (fb_identity flow) \<rparr>
     in and_then (map_err (\<lambda>e. PolicyRejected (InvalidArtifact e)) (PolicyArtifact_validate env artifact)) (\<lambda>_. Ok artifact))))"

subsection \<open>What the traversal collects\<close>

text \<open>A search from \<open>V\<close> to \<open>V'\<close> is complete when the successors of every new node are in \<open>V'\<close>.\<close>

definition closes :: "('a \<Rightarrow> 'a \<Rightarrow> bool) \<Rightarrow> 'a set \<Rightarrow> 'a set \<Rightarrow> bool" where
  "closes E V V' \<longleftrightarrow> V \<subseteq> V' \<and> (\<forall>x \<in> V' - V. \<forall>y. E x y \<longrightarrow> y \<in> V')"

lemma closes_refl [simp, intro]: "closes E V V"
  by (simp add: closes_def)

lemma closes_trans [trans]: "closes E U V \<Longrightarrow> closes E V W \<Longrightarrow> closes E U W"
  unfolding closes_def by blast

lemma closes_insert: "closes E (insert i V) V' \<Longrightarrow> (\<And>y. E i y \<Longrightarrow> y \<in> V') \<Longrightarrow> closes E V V'"
  unfolding closes_def by blast

lemma closes_empty: "closes E {} V' \<Longrightarrow> E\<^sup>*\<^sup>* x y \<Longrightarrow> x \<in> V' \<Longrightarrow> y \<in> V'"
  by (rotate_tac 1, induction rule: rtranclp_induct) (auto simp: closes_def)

lemma fold_ok_total:
  assumes step: "\<And>s x. x \<in> set xs \<Longrightarrow> I s \<Longrightarrow> \<exists>s'. f s x = Ok s' \<and> I s' \<and> R s s' \<and> Q x s'"
    and refl: "\<And>s. R s s" and trans: "\<And>s s' s''. R s s' \<Longrightarrow> R s' s'' \<Longrightarrow> R s s''"
    and keep: "\<And>x s s'. Q x s \<Longrightarrow> R s s' \<Longrightarrow> Q x s'" and "I s"
  shows "\<exists>s'. fold_ok f s xs = Ok s' \<and> I s' \<and> R s s' \<and> (\<forall>x \<in> set xs. Q x s')"
  using step \<open>I s\<close>
proof (induction xs arbitrary: s)
  case (Cons x xs)
  obtain s' where s': "f s x = Ok s'" "I s'" "R s s'" "Q x s'" using Cons.prems(1) [of x s] Cons.prems(2) by auto
  obtain s'' where "fold_ok f s' xs = Ok s''" "I s''" "R s' s''" "\<forall>x \<in> set xs. Q x s''"
    using Cons.IH [OF Cons.prems(1) s'(2)] by auto
  then show ?case using s' trans keep by (auto intro!: exI [of _ s''])
qed (use refl in auto)

abbreviation visited_phases :: "policy_scope \<Rightarrow> string set" where
  "visited_phases st \<equiv> {i. bs_contains (ps_visited_phases st) i}"

abbreviation visited_flows :: "policy_scope \<Rightarrow> string set" where
  "visited_flows st \<equiv> {i. bs_contains (ps_visited_flows st) i}"

abbreviation elements :: "'k bset \<Rightarrow> 'k set" where
  "elements s \<equiv> {x. bs_contains s x}"

text \<open>The tools of the visited Phases have been collected, for each Phase and in total.\<close>

definition scope_inv :: "ResolvedRegistry \<Rightarrow> policy_scope \<Rightarrow> bool" where
  "scope_inv reg st \<longleftrightarrow>
     (\<forall>i. i \<in> visited_phases st \<longleftrightarrow> bt_get (ps_phase_tools st) i \<noteq> None) \<and>
     (\<forall>i ts. bt_get (ps_phase_tools st) i = Some ts \<longrightarrow>
        (\<exists>p. bt_get (rr_phases reg) i = Some p \<and> elements ts = set (pb_tool_refs p))) \<and>
     (\<forall>t. t \<in> elements (ps_tool_ids st) \<longleftrightarrow> (\<exists>i ts. bt_get (ps_phase_tools st) i = Some ts \<and> t \<in> elements ts)) \<and>
     bt_wf (ps_phase_tools st) \<and> bt_wf (ps_tool_ids st)"

lemma collect_tools_ok:
  assumes "registry_closed env reg" "set refs \<subseteq> fst ` set (rr_tools reg)" "bt_wf tools"
  shows "\<exists>scoped' tools'. fold_ok (collect_tool env reg) (scoped, tools) refs = Ok (scoped', tools') \<and>
    elements scoped' = elements scoped \<union> set refs \<and> elements tools' = elements tools \<union> set refs \<and> bt_wf tools'"
  using assms(2,3)
proof (induction refs arbitrary: scoped tools)
  case (Cons r refs)
  then obtain t where t: "bt_get (rr_tools reg) r = Some t" using bt_get_None [of "rr_tools reg" r] by auto
  then have "tool_block env reg r = Some t" "bi_id (tb_identity t) = r"
    using assms(1) by (auto simp: tool_block_def named_block_id registry_closed_def)
  moreover obtain scoped' tools' where "fold_ok (collect_tool env reg) (bs_insert r scoped, bs_insert r tools) refs = Ok (scoped', tools')"
      "elements scoped' = elements (bs_insert r scoped) \<union> set refs" "elements tools' = elements (bs_insert r tools) \<union> set refs" "bt_wf tools'"
    using Cons.IH [of "bs_insert r tools" "bs_insert r scoped"] Cons.prems by (auto simp: bs_insert_def)
  ultimately show ?case by (auto simp: collect_tool_def policy_expect_def run_expect_def)
qed auto

lemma mark_phase_inv:
  assumes "scope_inv reg st" "bt_get (rr_phases reg) i = Some p" "i \<notin> visited_phases st"
    and "elements scoped = set (pb_tool_refs p)" "elements tools = elements (ps_tool_ids st) \<union> set (pb_tool_refs p)" "bt_wf tools"
  shows "scope_inv reg (st\<lparr> ps_visited_phases := bs_insert i (ps_visited_phases st),
    ps_phase_tools := bt_insert i scoped (ps_phase_tools st), ps_tool_ids := tools \<rparr>)"
proof -
  have "bt_get (ps_phase_tools st) i = None" using assms(1,3) by (auto simp: scope_inv_def)
  then have "(\<exists>j ts. (if j = i then Some scoped else bt_get (ps_phase_tools st) j) = Some ts \<and> t \<in> elements ts) \<longleftrightarrow>
      t \<in> elements scoped \<or> (\<exists>j ts. bt_get (ps_phase_tools st) j = Some ts \<and> t \<in> elements ts)" for t
    by (metis option.inject option.distinct(1))
  with assms show ?thesis unfolding scope_inv_def by (simp add: fun_upd_def) blast
qed

text \<open>One call, or one loop of calls, on Phases reached from \<open>i\<close>.\<close>

definition phase_step :: "ResolvedRegistry \<Rightarrow> string set \<Rightarrow> policy_scope \<Rightarrow> policy_scope \<Rightarrow> bool" where
  "phase_step reg reach st st' \<longleftrightarrow> ps_visited_flows st' = ps_visited_flows st \<and>
     closes (phase_child reg) (visited_phases st) (visited_phases st') \<and> visited_phases st' \<subseteq> visited_phases st \<union> reach"

lemma phase_step_refl: "phase_step reg reach st st"
  by (simp add: phase_step_def)

lemma phase_step_trans: "phase_step reg reach st st' \<Longrightarrow> phase_step reg reach st' st'' \<Longrightarrow> phase_step reg reach st st''"
  by (auto simp: phase_step_def intro: closes_trans)

lemma phase_step_mono: "phase_step reg reach st st' \<Longrightarrow> reach \<subseteq> reach' \<Longrightarrow> phase_step reg reach' st st'"
  unfolding phase_step_def by blast

lemma collect_phases_ok:
  assumes refs: "set refs \<subseteq> fst ` set (rr_phases reg)" and inv: "scope_inv reg st"
    and visit: "\<And>r c s. r \<in> set refs \<Longrightarrow> bt_get (rr_phases reg) r = Some c \<Longrightarrow> scope_inv reg s \<Longrightarrow>
      \<exists>s'. visit c s = Ok s' \<and> scope_inv reg s' \<and> phase_step reg reach s s' \<and> r \<in> visited_phases s'"
  shows "\<exists>st'. fold_ok (\<lambda>st r. and_then (policy_expect msg (phase_block env reg r)) (\<lambda>c. visit c st)) st refs = Ok st' \<and>
    scope_inv reg st' \<and> phase_step reg reach st st' \<and> (\<forall>r \<in> set refs. r \<in> visited_phases st')"
proof (rule fold_ok_total [OF _ phase_step_refl phase_step_trans])
  fix s r assume r: "r \<in> set refs" and s: "scope_inv reg s"
  then obtain c where c: "bt_get (rr_phases reg) r = Some c" using refs bt_get_None [of "rr_phases reg" r] by auto
  then show "\<exists>s'. and_then (policy_expect msg (phase_block env reg r)) (\<lambda>c. visit c s) = Ok s' \<and> scope_inv reg s' \<and>
      phase_step reg reach s s' \<and> r \<in> visited_phases s'"
    using visit [OF r c s] by (simp add: policy_expect_def run_expect_def phase_block_def named_block_id)
qed (use inv in \<open>auto simp: phase_step_def closes_def\<close>)

definition chains_within :: "('a \<Rightarrow> 'a \<Rightarrow> bool) \<Rightarrow> 'a \<Rightarrow> nat \<Rightarrow> bool" where
  "chains_within E i n \<longleftrightarrow> (\<forall>cs. is_chain E (i # cs) \<longrightarrow> Suc (length cs) \<le> n)"

lemma chains_within_0: "\<not> chains_within E i 0"
  by (auto simp: chains_within_def intro!: exI [of _ "[]"])

lemma chains_within_child: "chains_within E i (Suc n) \<Longrightarrow> E i j \<Longrightarrow> chains_within E j n"
  unfolding chains_within_def by (metis Suc_le_mono is_chain.simps(1) length_Cons)

lemma reach_child: "E i j \<Longrightarrow> {x. E\<^sup>*\<^sup>* j x} \<subseteq> {x. E\<^sup>*\<^sup>* i x}"
  by (auto intro: converse_rtranclp_into_rtranclp)

lemma collect_phase_ok:
  assumes closed: "registry_closed env reg"
  shows "bt_get (rr_phases reg) i = Some p \<Longrightarrow> chains_within (phase_child reg) i fuel \<Longrightarrow> scope_inv reg st \<Longrightarrow>
    \<exists>st'. collect_phase_policy_scope env reg fuel p st = Ok st' \<and> scope_inv reg st' \<and>
      phase_step reg {x. (phase_child reg)\<^sup>*\<^sup>* i x} st st' \<and> i \<in> visited_phases st'"
proof (induction fuel arbitrary: i p st)
  case 0
  then show ?case by (simp add: chains_within_0)
next
  case (Suc fuel)
  have p: "phase_closed env reg i p" using closed Suc.prems(1) by (simp add: registry_closed_def)
  show ?case
  proof (cases "i \<in> visited_phases st")
    case True
    then show ?thesis using p Suc.prems(3) by (auto simp: phase_closed_def phase_step_def)
  next
    case False
    have none: "bt_get (ps_phase_tools st) i = None" using Suc.prems(3) False by (simp add: scope_inv_def)
    obtain scoped tools where tools: "fold_ok (collect_tool env reg) ([], ps_tool_ids st) (pb_tool_refs p) = Ok (scoped, tools)"
        "elements scoped = set (pb_tool_refs p)" "elements tools = elements (ps_tool_ids st) \<union> set (pb_tool_refs p)" "bt_wf tools"
      using collect_tools_ok [OF closed, of "pb_tool_refs p" "ps_tool_ids st" "[]"] p Suc.prems(3) by (auto simp: phase_closed_def scope_inv_def)
    define st1 where "st1 = st\<lparr> ps_visited_phases := bs_insert i (ps_visited_phases st),
      ps_phase_tools := bt_insert i scoped (ps_phase_tools st), ps_tool_ids := tools \<rparr>"
    let ?reach = "{x. (phase_child reg)\<^sup>*\<^sup>* i x}"
    have child: "phase_child reg i r" if "r \<in> set (pb_phase_refs p)" for r using Suc.prems(1) that by (auto simp: phase_child_def)
    have visits: "\<exists>s'. collect_phase_policy_scope env reg fuel c s = Ok s' \<and> scope_inv reg s' \<and> phase_step reg ?reach s s' \<and> r \<in> visited_phases s'"
      if "r \<in> set (pb_phase_refs p)" "bt_get (rr_phases reg) r = Some c" "scope_inv reg s" for r c s
      using Suc.IH [OF that(2) chains_within_child [OF Suc.prems(2) child] that(3)] that(1) phase_step_mono reach_child [of "phase_child reg", OF child] by blast
    have refs: "set (pb_phase_refs p) \<subseteq> fst ` set (rr_phases reg)" using p by (simp add: phase_closed_def)
    have inv1: "scope_inv reg st1" unfolding st1_def by (rule mark_phase_inv [OF Suc.prems(3,1) False tools(2,3,4)])
    have "\<exists>st'. fold_ok (\<lambda>st r. and_then (policy_expect ''resolved registry validates child phase references'' (phase_block env reg r))
          (\<lambda>c. collect_phase_policy_scope env reg fuel c st)) st1 (pb_phase_refs p) = Ok st' \<and> scope_inv reg st' \<and> phase_step reg ?reach st1 st' \<and>
        (\<forall>r \<in> set (pb_phase_refs p). r \<in> visited_phases st')"
      by (rule collect_phases_ok [OF refs inv1]) (rule visits)
    then obtain st' where st': "fold_ok (\<lambda>st r. and_then (policy_expect ''resolved registry validates child phase references'' (phase_block env reg r))
          (\<lambda>c. collect_phase_policy_scope env reg fuel c st)) st1 (pb_phase_refs p) = Ok st'" "scope_inv reg st'" "phase_step reg ?reach st1 st'"
        "\<forall>r \<in> set (pb_phase_refs p). r \<in> visited_phases st'" by blast
    have run: "collect_phase_policy_scope env reg (Suc fuel) p st = Ok st'"
      using p False none tools(1) st'(1) by (simp add: phase_closed_def Let_def st1_def)
    have V1: "visited_phases st1 = insert i (visited_phases st)" "ps_visited_flows st1 = ps_visited_flows st" by (auto simp: st1_def)
    have step: "closes (phase_child reg) (insert i (visited_phases st)) (visited_phases st')" using st'(3) V1 by (simp add: phase_step_def)
    have "closes (phase_child reg) (visited_phases st) (visited_phases st')"
      by (rule closes_insert [OF step]) (use st'(4) Suc.prems(1) in \<open>auto simp: phase_child_def\<close>)
    moreover have "i \<in> visited_phases st'" using step by (auto simp: closes_def)
    ultimately show ?thesis using run st' V1 by (auto simp: phase_step_def)
  qed
qed

text \<open>The Phases of one Flow with all their descendants, and those of all Flows below it.\<close>

definition flow_phases :: "ResolvedRegistry \<Rightarrow> string \<Rightarrow> string set" where
  "flow_phases reg f = {x. \<exists>g r. bt_get (rr_flows reg) f = Some g \<and> r \<in> set (fb_phase_refs g) \<and> (phase_child reg)\<^sup>*\<^sup>* r x}"

definition reachable_phases :: "ResolvedRegistry \<Rightarrow> string \<Rightarrow> string set" where
  "reachable_phases reg i = (\<Union>f \<in> {f. (flow_child reg)\<^sup>*\<^sup>* i f}. flow_phases reg f)"

definition flow_step :: "ResolvedRegistry \<Rightarrow> string set \<Rightarrow> string set \<Rightarrow> policy_scope \<Rightarrow> policy_scope \<Rightarrow> bool" where
  "flow_step reg flows phases st st' \<longleftrightarrow>
     closes (phase_child reg) (visited_phases st) (visited_phases st') \<and> closes (flow_child reg) (visited_flows st) (visited_flows st') \<and>
     (\<forall>f \<in> visited_flows st' - visited_flows st. \<forall>g. bt_get (rr_flows reg) f = Some g \<longrightarrow> set (fb_phase_refs g) \<subseteq> visited_phases st') \<and>
     visited_flows st' \<subseteq> visited_flows st \<union> flows \<and> visited_phases st' \<subseteq> visited_phases st \<union> phases"

lemma flow_step_refl: "flow_step reg flows phases st st"
  by (simp add: flow_step_def)

lemma flow_step_trans:
  assumes "flow_step reg flows phases st st'" "flow_step reg flows phases st' st''"
  shows "flow_step reg flows phases st st''"
proof -
  have "visited_phases st' \<subseteq> visited_phases st''" using assms(2) by (simp add: flow_step_def closes_def)
  moreover have "closes (phase_child reg) (visited_phases st) (visited_phases st'')" "closes (flow_child reg) (visited_flows st) (visited_flows st'')"
    using assms by (auto simp: flow_step_def intro: closes_trans)
  ultimately show ?thesis using assms unfolding flow_step_def by (intro conjI ballI) blast+
qed

lemma flow_step_mono: "flow_step reg flows phases st st' \<Longrightarrow> flows \<subseteq> flows' \<Longrightarrow> phases \<subseteq> phases' \<Longrightarrow> flow_step reg flows' phases' st st'"
  unfolding flow_step_def by blast

lemma collect_subflows_ok:
  assumes refs: "set refs \<subseteq> fst ` set (rr_flows reg)" and inv: "scope_inv reg st"
    and visit: "\<And>r c s. r \<in> set refs \<Longrightarrow> bt_get (rr_flows reg) r = Some c \<Longrightarrow> scope_inv reg s \<Longrightarrow>
      \<exists>s'. visit c s = Ok s' \<and> scope_inv reg s' \<and> flow_step reg flows phases s s' \<and> r \<in> visited_flows s'"
  shows "\<exists>st'. fold_ok (\<lambda>st r. and_then (policy_expect msg (flow_block env reg r)) (\<lambda>c. visit c st)) st refs = Ok st' \<and>
    scope_inv reg st' \<and> flow_step reg flows phases st st' \<and> (\<forall>r \<in> set refs. r \<in> visited_flows st')"
proof (rule fold_ok_total [OF _ flow_step_refl flow_step_trans])
  fix s r assume r: "r \<in> set refs" and s: "scope_inv reg s"
  then obtain c where c: "bt_get (rr_flows reg) r = Some c" using refs bt_get_None [of "rr_flows reg" r] by auto
  then show "\<exists>s'. and_then (policy_expect msg (flow_block env reg r)) (\<lambda>c. visit c s) = Ok s' \<and> scope_inv reg s' \<and>
      flow_step reg flows phases s s' \<and> r \<in> visited_flows s'"
    using visit [OF r c s] by (simp add: policy_expect_def run_expect_def flow_block_def named_block_id)
qed (use inv in \<open>auto simp: flow_step_def closes_def\<close>)

lemma reachable_phases_child: "flow_child reg i j \<Longrightarrow> reachable_phases reg j \<subseteq> reachable_phases reg i"
  using reach_child [of "flow_child reg" i j] by (auto simp: reachable_phases_def)

lemma flow_phases_reachable: "flow_phases reg i \<subseteq> reachable_phases reg i"
  by (auto simp: reachable_phases_def)

lemma collect_flow_phases_ok:
  assumes closed: "registry_closed env reg" and f: "bt_get (rr_flows reg) i = Some f"
    and chains: "\<And>r. chains_within (phase_child reg) r fuel" and inv: "scope_inv reg st"
  shows "\<exists>st'. fold_ok (\<lambda>st r. and_then (policy_expect msg (phase_block env reg r)) (\<lambda>c. collect_phase_policy_scope env reg fuel c st)) st (fb_phase_refs f) = Ok st' \<and>
    scope_inv reg st' \<and> phase_step reg (flow_phases reg i) st st' \<and> (\<forall>r \<in> set (fb_phase_refs f). r \<in> visited_phases st')"
proof (rule collect_phases_ok [OF _ inv])
  show "set (fb_phase_refs f) \<subseteq> fst ` set (rr_phases reg)" using closed f by (auto simp: registry_closed_def flow_closed_def)
next
  fix r c s assume r: "r \<in> set (fb_phase_refs f)" and c: "bt_get (rr_phases reg) r = Some c" and s: "scope_inv reg s"
  have "{x. (phase_child reg)\<^sup>*\<^sup>* r x} \<subseteq> flow_phases reg i" using f r by (auto simp: flow_phases_def)
  with collect_phase_ok [OF closed c chains s] phase_step_mono
  show "\<exists>s'. collect_phase_policy_scope env reg fuel c s = Ok s' \<and> scope_inv reg s' \<and> phase_step reg (flow_phases reg i) s s' \<and> r \<in> visited_phases s'"
    by blast
qed

text \<open>A Flow is done when its own Phases and then its subflows are done.\<close>

lemma flow_step_compose:
  assumes f: "bt_get (rr_flows reg) i = Some f"
    and phases: "phase_step reg (flow_phases reg i) (st\<lparr> ps_visited_flows := bs_insert i (ps_visited_flows st) \<rparr>) st'"
      "\<forall>r \<in> set (fb_phase_refs f). r \<in> visited_phases st'"
    and flows: "flow_step reg {x. (flow_child reg)\<^sup>*\<^sup>* i x} (reachable_phases reg i) st' st''"
      "\<forall>r \<in> set (fb_subflow_refs f). r \<in> visited_flows st''"
  shows "flow_step reg {x. (flow_child reg)\<^sup>*\<^sup>* i x} (reachable_phases reg i) st st'' \<and> i \<in> visited_flows st''"
proof -
  have F: "visited_flows st' = insert i (visited_flows st)" using phases(1) by (auto simp: phase_step_def)
  have P: "closes (phase_child reg) (visited_phases st) (visited_phases st')" "visited_phases st' \<subseteq> visited_phases st \<union> reachable_phases reg i"
    using phases(1) flow_phases_reachable [of reg i] by (auto simp: phase_step_def)
  have G: "closes (flow_child reg) (insert i (visited_flows st)) (visited_flows st'')"
    and Q: "closes (phase_child reg) (visited_phases st') (visited_phases st'')"
    using flows(1) F by (simp_all add: flow_step_def)
  have "closes (flow_child reg) (visited_flows st) (visited_flows st'')"
    by (rule closes_insert [OF G]) (use flows(2) f in \<open>auto simp: flow_child_def\<close>)
  moreover have "closes (phase_child reg) (visited_phases st) (visited_phases st'')" using closes_trans [OF P(1) Q] .
  moreover have "set (fb_phase_refs g) \<subseteq> visited_phases st''" if "h \<in> visited_flows st'' - visited_flows st" "bt_get (rr_flows reg) h = Some g" for h g
  proof (cases "h = i")
    case True
    then show ?thesis using that(2) f phases(2) Q by (auto simp: closes_def)
  next
    case False
    then show ?thesis using that flows(1) F by (auto simp: flow_step_def)
  qed
  moreover have "visited_flows st'' \<subseteq> visited_flows st \<union> {x. (flow_child reg)\<^sup>*\<^sup>* i x}" using flows(1) F by (auto simp: flow_step_def)
  moreover have "visited_phases st'' \<subseteq> visited_phases st \<union> reachable_phases reg i" using flows(1) P(2) by (auto simp: flow_step_def)
  moreover have "i \<in> visited_flows st''" using G by (auto simp: closes_def)
  ultimately show ?thesis by (simp add: flow_step_def)
qed

lemma collect_flow_ok:
  assumes closed: "registry_closed env reg" and phase_chains: "\<And>r. chains_within (phase_child reg) r phase_fuel"
  shows "bt_get (rr_flows reg) i = Some f \<Longrightarrow> chains_within (flow_child reg) i fuel \<Longrightarrow> scope_inv reg st \<Longrightarrow>
    \<exists>st'. collect_flow_policy_scope env reg phase_fuel fuel f st = Ok st' \<and> scope_inv reg st' \<and>
      flow_step reg {x. (flow_child reg)\<^sup>*\<^sup>* i x} (reachable_phases reg i) st st' \<and> i \<in> visited_flows st'"
proof (induction fuel arbitrary: i f st)
  case 0
  then show ?case by (simp add: chains_within_0)
next
  case (Suc fuel)
  have f: "flow_closed env reg i f" using closed Suc.prems(1) by (simp add: registry_closed_def)
  show ?case
  proof (cases "i \<in> visited_flows st")
    case True
    then show ?thesis using f Suc.prems(3) by (auto simp: flow_closed_def flow_step_refl)
  next
    case False
    define st1 where "st1 = st\<lparr> ps_visited_flows := bs_insert i (ps_visited_flows st) \<rparr>"
    have "scope_inv reg st1" using Suc.prems(3) by (simp add: st1_def scope_inv_def)
    from collect_flow_phases_ok [OF closed Suc.prems(1) phase_chains this, of "''resolved registry validates flow phase references''"]
    obtain st2 where st2: "fold_ok (\<lambda>st r. and_then (policy_expect ''resolved registry validates flow phase references'' (phase_block env reg r))
        (\<lambda>c. collect_phase_policy_scope env reg phase_fuel c st)) st1 (fb_phase_refs f) = Ok st2" "scope_inv reg st2"
      "phase_step reg (flow_phases reg i) st1 st2" "\<forall>r \<in> set (fb_phase_refs f). r \<in> visited_phases st2" by blast
    let ?flows = "{x. (flow_child reg)\<^sup>*\<^sup>* i x}"
    have child: "flow_child reg i r" if "r \<in> set (fb_subflow_refs f)" for r using Suc.prems(1) that by (auto simp: flow_child_def)
    have visits: "\<exists>s'. collect_flow_policy_scope env reg phase_fuel fuel c s = Ok s' \<and> scope_inv reg s' \<and>
        flow_step reg ?flows (reachable_phases reg i) s s' \<and> r \<in> visited_flows s'"
      if "r \<in> set (fb_subflow_refs f)" "bt_get (rr_flows reg) r = Some c" "scope_inv reg s" for r c s
      using Suc.IH [OF that(2) chains_within_child [OF Suc.prems(2) child] that(3)] that(1)
        flow_step_mono [OF _ reach_child [of "flow_child reg", OF child] reachable_phases_child [OF child]] by blast
    have refs: "set (fb_subflow_refs f) \<subseteq> fst ` set (rr_flows reg)" using f by (simp add: flow_closed_def)
    have "\<exists>st'. fold_ok (\<lambda>st r. and_then (policy_expect ''resolved registry validates subflow references'' (flow_block env reg r))
          (\<lambda>c. collect_flow_policy_scope env reg phase_fuel fuel c st)) st2 (fb_subflow_refs f) = Ok st' \<and> scope_inv reg st' \<and>
        flow_step reg ?flows (reachable_phases reg i) st2 st' \<and> (\<forall>r \<in> set (fb_subflow_refs f). r \<in> visited_flows st')"
      by (rule collect_subflows_ok [OF refs st2(2)]) (rule visits)
    then obtain st3 where st3: "fold_ok (\<lambda>st r. and_then (policy_expect ''resolved registry validates subflow references'' (flow_block env reg r))
          (\<lambda>c. collect_flow_policy_scope env reg phase_fuel fuel c st)) st2 (fb_subflow_refs f) = Ok st3" "scope_inv reg st3"
        "flow_step reg ?flows (reachable_phases reg i) st2 st3" "\<forall>r \<in> set (fb_subflow_refs f). r \<in> visited_flows st3" by blast
    have "collect_flow_policy_scope env reg phase_fuel (Suc fuel) f st = Ok st3"
      using f False st2(1) st3(1) by (simp add: flow_closed_def Let_def st1_def)
    then show ?thesis using flow_step_compose [OF Suc.prems(1) st2(3) [unfolded st1_def] st2(4) st3(3,4)] st3(2) by blast
  qed
qed

subsection \<open>What a policy grants\<close>

lemma flow_block_stored:
  assumes "registry_closed env reg" "flow_block env reg r = Some f"
  shows "bt_get (rr_flows reg) (bi_id (fb_identity f)) = Some f"
proof -
  obtain k where k: "bt_get (rr_flows reg) k = Some f"
    using assms(2) by (auto simp: flow_block_def named_block_names_of bind_eq_Some_conv split: option.splits)
  then show ?thesis using assms(1) by (auto simp: registry_closed_def flow_closed_def)
qed

lemma compile_command_stored:
  assumes "registry_closed env reg" "i \<in> fst ` set (rr_tools reg)"
  obtains t where "bt_get (rr_tools reg) i = Some t" "bi_id (tb_identity t) = i"
    "compile_command env reg commands i = and_then (map_err PolicyRejected (command_policy_from_tool t)) (\<lambda>c. Ok (commands @ [c]))"
proof -
  obtain t where "bt_get (rr_tools reg) i = Some t" using assms(2) bt_get_None [of "rr_tools reg" i] by auto
  with assms(1) that show ?thesis
    by (simp add: compile_command_def policy_expect_def run_expect_def tool_block_def named_block_id registry_closed_def)
qed

lemma compile_commands_ok:
  assumes closed: "registry_closed env reg"
  shows "set ids \<subseteq> fst ` set (rr_tools reg) \<Longrightarrow> fold_ok (compile_command env reg) commands ids = Ok commands' \<Longrightarrow>
      \<exists>new. commands' = commands @ new \<and> map cp_tool_id new = ids \<and>
        (\<forall>c \<in> set new. \<exists>t. bt_get (rr_tools reg) (cp_tool_id c) = Some t \<and> command_policy_from_tool t = Ok c)"
proof (induction ids arbitrary: commands)
  case (Cons i ids)
  then obtain t where t: "bt_get (rr_tools reg) i = Some t" "bi_id (tb_identity t) = i"
      "compile_command env reg commands i = and_then (map_err PolicyRejected (command_policy_from_tool t)) (\<lambda>c. Ok (commands @ [c]))"
    using compile_command_stored [OF closed] by (metis insert_subset list.set(2))
  then obtain c where c: "command_policy_from_tool t = Ok c" and rest: "fold_ok (compile_command env reg) (commands @ [c]) ids = Ok commands'"
    using Cons.prems(2) by auto
  have "cp_tool_id c = i" using c t(2) by (auto simp: command_policy_from_tool_def Let_def)
  moreover obtain new where "commands' = commands @ [c] @ new" "map cp_tool_id new = ids"
      "\<forall>c \<in> set new. \<exists>t. bt_get (rr_tools reg) (cp_tool_id c) = Some t \<and> command_policy_from_tool t = Ok c"
    using Cons.IH [OF _ rest] Cons.prems(1) by auto
  ultimately show ?case using t(1) c by (intro exI [of _ "c # new"]) auto
qed simp

lemma compile_commands_err:
  assumes closed: "registry_closed env reg"
  shows "set ids \<subseteq> fst ` set (rr_tools reg) \<Longrightarrow> fold_ok (compile_command env reg) commands ids = Err e \<Longrightarrow> \<exists>x. e = PolicyRejected x"
proof (induction ids arbitrary: commands)
  case (Cons i ids)
  then obtain t where "compile_command env reg commands i = and_then (map_err PolicyRejected (command_policy_from_tool t)) (\<lambda>c. Ok (commands @ [c]))"
    using compile_command_stored [OF closed] by (metis insert_subset list.set(2))
  with Cons show ?case by (auto simp: and_then_eq_Err map_err_eq_Err)
qed simp

lemma compile_scope:
  assumes reg: "from_blocks env blocks = Ok reg" "reads_normalised env" and fuel: "16 \<le> fuel" and f: "flow_block env reg r = Some f"
  shows "\<exists>st. collect_flow_policy_scope env reg fuel fuel f empty_scope = Ok st \<and> scope_inv reg st \<and>
    visited_phases st = reachable_phases reg (bi_id (fb_identity f)) \<and> elements (ps_tool_ids st) \<subseteq> fst ` set (rr_tools reg)"
proof -
  have closed: "registry_closed env reg" by (rule from_blocks_closed [OF reg])
  have chains: "chains_within (phase_child reg) i fuel" "chains_within (flow_child reg) i fuel" for i
    unfolding chains_within_def using from_blocks_nesting [OF reg] fuel by (metis le_trans length_Cons)+
  let ?i = "bi_id (fb_identity f)"
  have "scope_inv reg empty_scope" by (simp add: scope_inv_def empty_scope_def)
  from collect_flow_ok [OF closed chains(1) flow_block_stored [OF closed f] chains(2) this]
  obtain st where st: "collect_flow_policy_scope env reg fuel fuel f empty_scope = Ok st" "scope_inv reg st" "?i \<in> visited_flows st"
      "closes (phase_child reg) {} (visited_phases st)" "closes (flow_child reg) {} (visited_flows st)" "visited_phases st \<subseteq> reachable_phases reg ?i"
      "\<And>h g. h \<in> visited_flows st \<Longrightarrow> bt_get (rr_flows reg) h = Some g \<Longrightarrow> set (fb_phase_refs g) \<subseteq> visited_phases st"
    by (auto simp: flow_step_def empty_scope_def)
  have "reachable_phases reg ?i \<subseteq> visited_phases st"
  proof
    fix x assume "x \<in> reachable_phases reg ?i"
    then obtain h g q where "(flow_child reg)\<^sup>*\<^sup>* ?i h" "bt_get (rr_flows reg) h = Some g" "q \<in> set (fb_phase_refs g)" "(phase_child reg)\<^sup>*\<^sup>* q x"
      by (auto simp: reachable_phases_def flow_phases_def)
    then show "x \<in> visited_phases st" using closes_empty [OF st(5) _ st(3)] st(7) closes_empty [OF st(4)] by blast
  qed
  moreover have "elements (ps_tool_ids st) \<subseteq> fst ` set (rr_tools reg)"
  proof
    fix t assume "t \<in> elements (ps_tool_ids st)"
    then obtain i p where p: "bt_get (rr_phases reg) i = Some p" "t \<in> set (pb_tool_refs p)" using st(2) unfolding scope_inv_def by blast
    then have "phase_closed env reg i p" using closed by (simp add: registry_closed_def)
    then show "t \<in> fst ` set (rr_tools reg)" using p(2) unfolding phase_closed_def by blast
  qed
  ultimately show ?thesis using st by blast
qed

text \<open>
  C8: a compiled policy is exactly the reach of its Flow. Its scopes are the Phases reached from the Flow through
  subflows and child Phases; each Phase may use the Tools it refers to and no others; and there is one command, the
  one its Tool defines, for every Tool of some scope and for no other.
\<close>

theorem policy_grants_reachable_tools:
  assumes "from_blocks env blocks = Ok reg" "reads_normalised env" "16 \<le> fuel" "compile_policy_artifact env fuel reg flow_ref = Ok a"
  shows "map_option (\<lambda>f. bi_id (fb_identity f)) (flow_block env reg flow_ref) = Some (pa_source_flow_definition_id a) \<and>
    set (map sc_phase_id (pa_phase_scope a)) = reachable_phases reg (pa_source_flow_definition_id a) \<and>
    list_all (\<lambda>s. \<exists>p. bt_get (rr_phases reg) (sc_phase_id s) = Some p \<and> set (sc_tool_ids s) = set (pb_tool_refs p)) (pa_phase_scope a) \<and>
    list_all (\<lambda>c. \<exists>t. bt_get (rr_tools reg) (cp_tool_id c) = Some t \<and> command_policy_from_tool t = Ok c) (pa_commands a) \<and>
    distinct (map cp_tool_id (pa_commands a)) \<and> set (map cp_tool_id (pa_commands a)) = (\<Union>s \<in> set (pa_phase_scope a). set (sc_tool_ids s))"
proof -
  have closed: "registry_closed env reg" by (rule from_blocks_closed [OF assms(1,2)])
  obtain f where f: "flow_block env reg flow_ref = Some f" using assms(4) by (auto simp: compile_policy_artifact_def)
  obtain st where st: "collect_flow_policy_scope env reg fuel fuel f empty_scope = Ok st" "scope_inv reg st"
      "visited_phases st = reachable_phases reg (bi_id (fb_identity f))" "elements (ps_tool_ids st) \<subseteq> fst ` set (rr_tools reg)"
    using compile_scope [OF assms(1-3) f] by blast
  from assms(4) f st(1) obtain commands where commands: "fold_ok (compile_command env reg) [] (bs_iter (ps_tool_ids st)) = Ok commands"
      and a: "pa_commands a = commands" "pa_source_flow_definition_id a = bi_id (fb_identity f)"
        "pa_phase_scope a = map (\<lambda>(i, ts). \<lparr> sc_phase_id = i, sc_tool_ids = bs_iter ts \<rparr>) (ps_phase_tools st)"
    by (auto simp: compile_policy_artifact_def Let_def)
  have iter: "set (bs_iter ts) = elements ts" for ts :: "string bset" by (simp add: bs_iter_def bs_contains_def image_def)
  have entries: "bt_get (ps_phase_tools st) i = Some ts \<longleftrightarrow> (i, ts) \<in> set (ps_phase_tools st)" for i ts
    using st(2) by (simp add: scope_inv_def bt_get_mem)
  have keys: "i \<in> visited_phases st \<longleftrightarrow> bt_get (ps_phase_tools st) i \<noteq> None"
    and tools: "t \<in> elements (ps_tool_ids st) \<longleftrightarrow> (\<exists>i ts. (i, ts) \<in> set (ps_phase_tools st) \<and> t \<in> elements ts)" for i t
    using st(2) unfolding scope_inv_def entries by blast+
  have "set (map sc_phase_id (pa_phase_scope a)) = visited_phases st"
    using keys bt_get_None [of "ps_phase_tools st"] by (auto simp: a(3) image_image case_prod_beta)
  moreover have "(\<Union>s \<in> set (pa_phase_scope a). set (sc_tool_ids s)) = elements (ps_tool_ids st)"
    using tools by (auto simp: a(3) iter case_prod_beta) blast
  moreover have "list_all (\<lambda>s. \<exists>p. bt_get (rr_phases reg) (sc_phase_id s) = Some p \<and> set (sc_tool_ids s) = set (pb_tool_refs p)) (pa_phase_scope a)"
    unfolding a(3) list_all_iff using st(2) unfolding scope_inv_def entries by (auto simp: iter)
  moreover have "distinct (bs_iter (ps_tool_ids st))" using st(2) by (simp add: scope_inv_def bs_iter_def bt_wf_distinct)
  moreover obtain new where "commands = new" "map cp_tool_id new = bs_iter (ps_tool_ids st)"
      "\<forall>c \<in> set new. \<exists>t. bt_get (rr_tools reg) (cp_tool_id c) = Some t \<and> command_policy_from_tool t = Ok c"
    using compile_commands_ok [OF closed _ commands] st(4) by (auto simp: iter)
  ultimately show ?thesis using f a(1,2) st(3) by (simp add: iter list_all_iff)
qed

text \<open>
  C28: compiling a policy from an accepted registry ends within 16 levels of recursion and meets no panic: every
  Phase, subflow and Tool it expects is there.
\<close>

theorem policy_compilation_ends:
  assumes "from_blocks env blocks = Ok reg" "reads_normalised env" "16 \<le> fuel"
  shows "compile_policy_artifact env fuel reg flow_ref \<noteq> Err PolicyOutOfFuel \<and> compile_policy_artifact env fuel reg flow_ref \<noteq> Err (PolicyPanic p)"
proof (cases "flow_block env reg flow_ref")
  case None
  then show ?thesis by (simp add: compile_policy_artifact_def)
next
  case (Some f)
  have closed: "registry_closed env reg" by (rule from_blocks_closed [OF assms(1,2)])
  obtain st where st: "collect_flow_policy_scope env reg fuel fuel f empty_scope = Ok st" "elements (ps_tool_ids st) \<subseteq> fst ` set (rr_tools reg)"
    using compile_scope [OF assms Some] by blast
  then have "set (bs_iter (ps_tool_ids st)) \<subseteq> fst ` set (rr_tools reg)" by (auto simp: bs_iter_def bs_contains_def)
  from compile_commands_err [OF closed this] show ?thesis
    using Some st(1) by (auto simp: compile_policy_artifact_def and_then_eq_Err map_err_eq_Err Let_def)
qed

theorem policy_grants_reachable_tools_witness:
  "\<exists>a. compile_policy_artifact sample_env 16 sample_registry ''Main'' = Ok a \<and> pa_source_flow_definition_id a = ''main'' \<and>
     map sc_phase_id (pa_phase_scope a) = [''both'', ''leaf''] \<and> reachable_phases sample_registry ''main'' = {''both'', ''leaf''} \<and>
     map cp_tool_id (pa_commands a) = [''say'']"
proof -
  let ?c = "compile_policy_artifact sample_env 16 sample_registry ''Main''"
  have run: "is_ok ?c" by code_simp
  then obtain a where a: "?c = Ok a" by (auto simp: is_ok_iff)
  have "map_option (\<lambda>a. (pa_source_flow_definition_id a, map sc_phase_id (pa_phase_scope a), map cp_tool_id (pa_commands a)))
      (case ?c of Ok a \<Rightarrow> Some a | Err _ \<Rightarrow> None) = Some (''main'', [''both'', ''leaf''], [''say''])" by code_simp
  then have shape: "pa_source_flow_definition_id a = ''main''" "map sc_phase_id (pa_phase_scope a) = [''both'', ''leaf'']" "map cp_tool_id (pa_commands a) = [''say'']"
    unfolding a by simp_all
  have "set (map sc_phase_id (pa_phase_scope a)) = reachable_phases sample_registry (pa_source_flow_definition_id a)"
    using policy_grants_reachable_tools [OF sample_registry_accepted sample_env_normalised order_refl a] by (elim conjE)
  then have "reachable_phases sample_registry ''main'' = {''both'', ''leaf''}" by (simp only: shape list.set)
  with a shape show ?thesis by (intro exI [of _ a] conjI)
qed

theorem policy_compilation_ends_witness:
  "compile_policy_artifact sample_env 16 sample_registry ''main'' \<noteq> Err PolicyOutOfFuel"
  using policy_compilation_ends [OF sample_registry_accepted sample_env_normalised order_refl] by blast

end
