(* ===== verification/Spec2Isabelle.thy ===== *)
theory Spec2Isabelle
  imports Stream_Correctness Executor_Correctness Liquid_Database Policy
begin

text \<open>
  A verification development for the Watershed repository. The program has three layers. The crate
  \<open>proto\<close> fixes the documents that cross a process or disk boundary: events, values, canonical JSON and
  the private protocol of the Executor. The Flow agent (\<open>core-script\<close>, \<open>core-policy\<close>, \<open>flow-agent-core\<close>) interprets
  authored Flows and journals what it does as a stream of events; the journal is replayed and validated
  before anything is appended. Liquid (\<open>liquid-core\<close>) is a workspace of pages, blocks and databases
  whose order is kept by sort keys.

  \<^bold>\<open>Shared library\<close>

  \<^item> \<open>Prelude\<close>: \<open>result\<close> with the early returns of the code, strings as UTF-8 bytes, decimal numerals,
    \<open>BTreeMap\<close> and \<open>BTreeSet\<close> as strictly increasing lists, \<open>usize\<close> arithmetic with its checks, and the
    interface locales \<open>ordered_map\<close>, \<open>codec\<close> and \<open>token_enum\<close>, interpreted where the model provides them.

  \<^bold>\<open>The protocol\<close> (\<open>src/proto/proto/src\<close>)

  \<^item> \<open>Calendar\<close>, \<open>Metadata\<close> (\<open>metadata.rs\<close>): event types, session identifiers and timestamps. Formatting
    and parsing a timestamp are inverse, and the civil calendar of the code is the Gregorian one.
  \<^item> \<open>Json\<close>, \<open>Unique_Json\<close> (\<open>canonical.rs\<close>): canonical text, its nesting limit and the duplicate-free
    reader. The canonical text of a value is the text of its normal form and determines it.
  \<^item> \<open>Encodings\<close> (\<open>session_object.rs\<close>, \<open>executor/stream.rs\<close>): references by digest, and base64 on 8-bit
    words; both are bijective with the bytes they encode.
  \<^item> \<open>Flow_Value\<close> (\<open>flow_value.rs\<close>): the validator accepts exactly the wire forms of a grammar within
    the limits on depth, nodes and bytes.
  \<^item> \<open>Event\<close> (\<open>event.rs\<close>, \<open>event/payload.rs\<close>): the envelope, its validation, reader and journal line, with
    the round trip.
  \<^item> \<open>Executor\<close>, \<open>Executor_Correctness\<close> (\<open>executor.rs\<close>, \<open>executor/types.rs\<close>, \<open>executor/validation.rs\<close>,
    \<open>executor/codec.rs\<close>): the five documents, their validation and codecs. The locale \<open>canonical_codec\<close>
    carries the round trip of all five; an accepted request is safe to execute and an accepted response
    is evidence of what ran.

  \<^bold>\<open>The Flow agent\<close> (\<open>src/core/core-script/src/script\<close>, \<open>src/flow-agent/flow-agent-core/src/runtime\<close>)

  \<^item> \<open>Script_Values\<close> (\<open>values.rs\<close>, part of \<open>model.rs\<close>): contracts, values and predicates, and the rendering of
    Instructions. A predicate checked against a contract never goes wrong on a value of the contract;
    rendering is the plain expansion within its byte bound.
  \<^item> \<open>Registry_Blocks\<close> (\<open>model.rs\<close>, \<open>paths.rs\<close>, \<open>semantics.rs\<close>, \<open>parameter.rs\<close>, \<open>canonical.rs\<close>): the blocks and the checks on
    one block; safe relative paths and their scopes.
  \<^item> \<open>Registry\<close> (\<open>registry.rs\<close>, \<open>naming.rs\<close>): resolving a registry. In an accepted registry every reference is an
    id, transitions are typed and lead forward, and no chain of Phases or Flows has more than 16 blocks. The two
    searches for cycles are one definition \<open>visit_block\<close>, given the kind of block as a \<open>visitor\<close>.
  \<^item> \<open>Policy\<close> (\<open>src/core/core-policy/src\<close>): compiling the invocation policy of a Flow. A policy covers exactly the Phases
    the Flow reaches and gives each Phase exactly the Tools it refers to; compiling meets no panic.
  \<^item> \<open>Lifecycle\<close>, \<open>Lifecycle_Invariant\<close> (\<open>validate/lifecycle.rs\<close>, \<open>validate/lifecycle/shared.rs\<close>): the state
    machine of flows, phases, tools and messages. The record \<open>SessionLifecycleState\<close> is the struct of the
    code. The handlers implement the inductive relation \<open>lifecycle_step\<close>, which preserves \<open>lifecycle_inv\<close>.
  \<^item> \<open>Validate\<close>, \<open>Stream_Correctness\<close> (\<open>validate.rs\<close>): appending constructed events or journal text to a
    stream. Every accepted stream is well ordered, ends once, and meets no panic; validation does not depend
    on how the text is cut, and the two entry points agree.

  \<^bold>\<open>Liquid\<close> (\<open>src/liquid/liquid-core/src\<close>)

  \<^item> \<open>Sort_Key\<close> (\<open>sort_key.rs\<close>): a new key fits between any two neighbours, without a panic.
  \<^item> \<open>Liquid_Model\<close> (\<open>model.rs\<close>, parts of \<open>id.rs\<close>, \<open>mutation.rs\<close>): objects of a document, siblings, styles and the
    page tree, whose loop ends on every document and shows exactly the live pages.
  \<^item> \<open>View_Order\<close> (\<open>order.rs\<close>, the \<open>Index\<close> of \<open>database.rs\<close>): the locale \<open>placement\<close> is interpreted for the
    order of views and for the order of rows.
  \<^item> \<open>Liquid_Database\<close> (\<open>database.rs\<close>, \<open>store.rs\<close>): cells, filters, sorting and windows of rows, and the paged
    history of the in-memory store.

  \<^bold>\<open>Errors, panics and bounds\<close>

  An error of the code is a constructor that carries the data its message prints. Where the code calls
  \<open>expect\<close>, indexes a slice or subtracts unsigned numbers, the model returns a panic value, and a theorem
  shows that it does not occur. Every loop has a termination proof, by the length
  of the text that remains, the size of the value, the levels left below a depth limit, or the pages not yet
  listed. Only the two recursive collectors of \<open>Policy\<close> take fuel, one unit for a level of nesting, since the code
  relies on the registry for their end; 16 units are enough for every accepted registry, by the bound on its chains. Limits are the constants of
  the code. Numbers are natural numbers or integers where the code checks their range, and 8-bit words
  where it shifts and masks.

  \<^bold>\<open>Parameters\<close>

  Unicode normalisation, JSON string escaping and the spelling of floating-point numbers are the fields of
  \<open>text_env\<close>; the reading of JSON text, SHA-256, the derived deserializers, regular expressions and lower-casing are
  arguments of the definitions that use them. Their documented behaviour is a hypothesis where a theorem needs it, and the
  witnesses instantiate it, with \<open>plain_env\<close> for texts.

  \<^bold>\<open>Not modelled\<close>

  \<^item> The file side of the journal (\<open>segmented_appender.rs\<close>, \<open>fs_guards.rs\<close>, \<open>session_lock.rs\<close>), conversations,
    reservations and recovery: operations on files, locks and directories, whose behaviour is the operating
    system's.
  \<^item> Productive execution, cancellation, deadlines, the model providers, the Executor client and its backends,
    the tool runner and the command line: threads, processes, sockets and HTTP.
  \<^item> The registry files of \<open>core-script\<close>: directory traversal and YAML. The canonical text of a registry
    and of a policy artifact: the derived serialisation of the whole record.
  \<^item> The Liquid transactions (\<open>workspace.rs\<close>): merges and undo are those of the Automerge library; the bridge
    and the Dart application; the meta harness.
  \<^item> Failed allocation, and the Display texts of errors beyond their data.
\<close>

end
